(* ===== verification/Rcn_Prelude.thy ===== *)
theory Rcn_Prelude
  imports Main "HOL-Library.Word"
begin

section \<open>Operations that can fail, and the bytes they move\<close>

text \<open>
  Shared vocabulary of the development.  Every C function of the program that returns
  \<open>0\<close> or \<open>-1\<close> is an operation: a function from a state to an outcome and a state.  The
  outcome \<open>Fail\<close> is the \<open>-1\<close> of a \<open>goto err\<close>; the state reached so far is kept, as in C.
  The outcome \<open>Undef\<close> is undefined behaviour (a null or dangling pointer, an access outside
  a block, a \<open>free\<close> of an address that was never allocated).  The combinators \<open>check\<close> and
  \<open>ignore\<close> are the macros \<open>CHECK\<close>/\<open>TRY\<close> of \<open>include/rcn.h\<close> and a call whose result is
  dropped.  A small Hoare logic (\<open>valid\<close>) carries the invariant proofs.  The last part holds
  the little-endian byte encodings that the structs sent over sockets are made of.
\<close>

named_theorems op_simps \<open>unfolding of the operation combinators\<close>
named_theorems vcg \<open>Hoare rules of operations\<close>

type_synonym byte = "8 word"
type_synonym u16 = "16 word"
type_synonym u32 = "32 word"
type_synonym u64 = "64 word"

subsection \<open>Outcomes and operations\<close>

datatype 'a res = Ok 'a | Fail | Undef

type_synonym ('a, 's) op = "'s \<Rightarrow> 'a res \<times> 's"

definition ret :: "'a \<Rightarrow> ('a, 's) op" where
  "ret x s = (Ok x, s)"

definition fail :: "('a, 's) op" where
  "fail s = (Fail, s)"

definition undef :: "('a, 's) op" where
  "undef s = (Undef, s)"

definition gets :: "('s \<Rightarrow> 'a) \<Rightarrow> ('a, 's) op" where
  "gets f s = (Ok (f s), s)"

definition modify :: "('s \<Rightarrow> 's) \<Rightarrow> (unit, 's) op" where
  "modify f s = (Ok (), f s)"

text \<open>\<open>CHECK(f(..) == -1); k\<close> and \<open>x = TRY(f(..), -1); k\<close>: on failure leave through \<open>err\<close>.\<close>

definition check :: "('a, 's) op \<Rightarrow> ('a \<Rightarrow> ('b, 's) op) \<Rightarrow> ('b, 's) op" where
  "check m k s = (case m s of
      (Ok a, s') \<Rightarrow> k a s'
    | (Fail, s') \<Rightarrow> (Fail, s')
    | (Undef, s') \<Rightarrow> (Undef, s'))"

text \<open>\<open>CHECK(condition)\<close>: leave through \<open>err\<close> when the condition holds.\<close>

definition check_not :: "bool \<Rightarrow> ('b, 's) op \<Rightarrow> ('b, 's) op" where
  "check_not c k = (if c then fail else k)"

text \<open>A call whose \<open>-1\<close> is not looked at.\<close>

definition ignore :: "('a, 's) op \<Rightarrow> ('b, 's) op \<Rightarrow> ('b, 's) op" where
  "ignore m k s = (case m s of (Undef, s') \<Rightarrow> (Undef, s') | (_, s') \<Rightarrow> k s')"

text \<open>What a function does after its label \<open>err\<close>.\<close>

definition on_err :: "('a, 's) op \<Rightarrow> (unit, 's) op \<Rightarrow> ('a, 's) op" where
  "on_err m h s = (case m s of
      (Fail, s') \<Rightarrow> (case h s' of (Undef, s'') \<Rightarrow> (Undef, s'') | (_, s'') \<Rightarrow> (Fail, s''))
    | (Ok a, s') \<Rightarrow> (Ok a, s')
    | (Undef, s') \<Rightarrow> (Undef, s'))"

text \<open>A \<open>for\<close> loop whose body may leave through \<open>err\<close>.\<close>

primrec for_each :: "('x \<Rightarrow> (unit, 's) op) \<Rightarrow> 'x list \<Rightarrow> (unit, 's) op" where
  "for_each f [] = ret ()"
| "for_each f (x # xs) = check (f x) (\<lambda>_. for_each f xs)"

text \<open>The results of running an operation \<open>n\<close> times.\<close>

primrec repeated :: "nat \<Rightarrow> ('a, 's) op \<Rightarrow> ('a list, 's) op" where
  "repeated 0 f = ret []"
| "repeated (Suc n) f = check f (\<lambda>x. check (repeated n f) (\<lambda>xs. ret (x # xs)))"

text \<open>An operation on a part of the state.\<close>

definition zoom :: "('s \<Rightarrow> 'p) \<Rightarrow> ('p \<Rightarrow> 's \<Rightarrow> 's) \<Rightarrow> ('a, 'p) op \<Rightarrow> ('a, 's) op" where
  "zoom get put m s = (case m (get s) of (r, p) \<Rightarrow> (r, put p s))"

lemmas [op_simps] = ret_def fail_def undef_def gets_def modify_def check_def check_not_def
  ignore_def on_err_def zoom_def

lemma on_err_Ok_iff: "on_err m h s = (Ok a, t) \<longleftrightarrow> m s = (Ok a, t)"
  by (auto simp: on_err_def split: prod.splits res.splits)

lemma check_Ok_iff:
  "check m k s = (Ok b, t) \<longleftrightarrow> (\<exists>a s'. m s = (Ok a, s') \<and> k a s' = (Ok b, t))"
  by (auto simp: check_def split: res.splits prod.splits)

lemma check_Undef_iff:
  "fst (check m k s) = Undef \<longleftrightarrow>
     fst (m s) = Undef \<or> (\<exists>a s'. m s = (Ok a, s') \<and> fst (k a s') = Undef)"
  by (auto simp: check_def split: res.splits prod.splits)

lemma check_ok: "m w = (Ok x, w') \<Longrightarrow> check m k w = k x w'"
  by (simp add: check_def)

lemma check_ret [simp]: "check (ret a) k = k a"
  by (rule ext) (simp add: check_def ret_def)

lemma check_fail [simp]: "check fail k = fail"
  by (rule ext) (simp add: check_def fail_def)

lemma check_undef [simp]: "check undef k = undef"
  by (rule ext) (simp add: check_def undef_def)

lemma check_assoc: "check (check m k) l = check m (\<lambda>a. check (k a) l)"
  by (rule ext) (auto simp: check_def split: res.splits prod.splits)

lemma for_each_append:
  "for_each f (xs @ ys) = check (for_each f xs) (\<lambda>_. for_each f ys)"
  by (induction xs) (simp_all add: check_assoc)

lemma check_ret_right [simp]: "check m (\<lambda>x. ret x) = m" "check m (\<lambda>_. ret ()) = (m :: (unit, 's) op)"
  by (rule ext, auto simp: check_def ret_def split: res.splits prod.splits)+

lemma for_each_map: "for_each f (map g xs) = for_each (\<lambda>x. f (g x)) xs"
  by (induction xs) simp_all

lemma for_each_filter: "for_each (\<lambda>x. if P x then f x else ret ()) xs = for_each f (filter P xs)"
  by (induction xs) simp_all

subsection \<open>Hoare triples\<close>

text \<open>
  \<open>valid P m Q E\<close>: from a state satisfying \<open>P\<close> the operation has no undefined behaviour, its
  result satisfies \<open>Q\<close> when it returns normally and its state satisfies \<open>E\<close> when it fails.
\<close>

definition valid ::
  "('s \<Rightarrow> bool) \<Rightarrow> ('a, 's) op \<Rightarrow> ('a \<Rightarrow> 's \<Rightarrow> bool) \<Rightarrow> ('s \<Rightarrow> bool) \<Rightarrow> bool" where
  "valid P m Q E \<longleftrightarrow> (\<forall>s. P s \<longrightarrow> (case m s of
      (Ok a, s') \<Rightarrow> Q a s' | (Fail, s') \<Rightarrow> E s' | (Undef, s') \<Rightarrow> False))"

lemma validI:
  assumes "\<And>s. P s \<Longrightarrow> fst (m s) \<noteq> Undef"
    and "\<And>s a s'. P s \<Longrightarrow> m s = (Ok a, s') \<Longrightarrow> Q a s'"
    and "\<And>s s'. P s \<Longrightarrow> m s = (Fail, s') \<Longrightarrow> E s'"
  shows "valid P m Q E"
  unfolding valid_def
proof (intro allI impI)
  fix s assume "P s"
  then show "case m s of (Ok a, s') \<Rightarrow> Q a s' | (Fail, s') \<Rightarrow> E s' | (Undef, s') \<Rightarrow> False"
    using assms[of s] by (cases "m s"; cases "fst (m s)") auto
qed

lemma valid_OkD: "valid P m Q E \<Longrightarrow> P s \<Longrightarrow> m s = (Ok a, s') \<Longrightarrow> Q a s'"
  by (fastforce simp: valid_def)

lemma valid_FailD: "valid P m Q E \<Longrightarrow> P s \<Longrightarrow> m s = (Fail, s') \<Longrightarrow> E s'"
  by (fastforce simp: valid_def)

lemma valid_safeD: "valid P m Q E \<Longrightarrow> P s \<Longrightarrow> fst (m s) \<noteq> Undef"
  by (cases "m s"; cases "fst (m s)") (fastforce simp: valid_def)+

lemma valid_ret [vcg]: "(\<And>s. P s \<Longrightarrow> Q x s) \<Longrightarrow> valid P (ret x) Q E"
  by (simp add: valid_def ret_def)

lemma valid_fail [vcg]: "(\<And>s. P s \<Longrightarrow> E s) \<Longrightarrow> valid P fail Q E"
  by (simp add: valid_def fail_def)

lemma valid_gets [vcg]: "(\<And>s. P s \<Longrightarrow> Q (f s) s) \<Longrightarrow> valid P (gets f) Q E"
  by (simp add: valid_def gets_def)

lemma valid_modify [vcg]: "(\<And>s. P s \<Longrightarrow> Q () (f s)) \<Longrightarrow> valid P (modify f) Q E"
  by (simp add: valid_def modify_def)

lemma valid_check:
  assumes "valid P m R E" and "\<And>a. valid (R a) (k a) Q E"
  shows "valid P (check m k) Q E"
  using assms by (fastforce simp: valid_def check_def split: res.splits prod.splits)

lemma valid_weaken:
  assumes "valid P' m Q' E'" and "\<And>s. P s \<Longrightarrow> P' s"
    and "\<And>a s. Q' a s \<Longrightarrow> Q a s" and "\<And>s. E' s \<Longrightarrow> E s"
  shows "valid P m Q E"
  using assms by (fastforce simp: valid_def split: res.splits prod.splits)

lemma valid_if:
  assumes "valid (\<lambda>s. P s \<and> c) m Q E" and "valid (\<lambda>s. P s \<and> \<not> c) n Q E"
  shows "valid P (if c then m else n) Q E"
  using assms by (auto simp: valid_def)

lemma valid_for_each:
  assumes "\<And>x. x \<in> set xs \<Longrightarrow> valid I (f x) (\<lambda>_. I) E"
  shows "valid I (for_each f xs) (\<lambda>_. I) E"
  using assms
proof (induction xs)
  case Nil
  show ?case by (auto intro: valid_ret)
next
  case (Cons x xs)
  have "valid I (f x) (\<lambda>_. I) E" using Cons.prems by simp
  moreover have "valid I (for_each f xs) (\<lambda>_. I) E"
    using Cons.IH Cons.prems by simp
  ultimately show ?case by (auto intro: valid_check)
qed

text \<open>A counted loop with an invariant per round.\<close>

lemma valid_for_upt:
  "(\<And>i. i < n \<Longrightarrow> valid (I i) (f i) (\<lambda>_. I (Suc i)) E) \<Longrightarrow>
    valid (I 0) (for_each f [0..<n]) (\<lambda>_. I n) E"
proof (induction n)
  case 0
  then show ?case by (simp add: valid_ret)
next
  case (Suc n)
  have "valid (I 0) (for_each f [0..<n]) (\<lambda>_. I n) E" using Suc by simp
  moreover have "valid (I n) (for_each f [n]) (\<lambda>_. I (Suc n)) E" using Suc.prems[of n] by simp
  ultimately have "valid (I 0) (check (for_each f [0..<n]) (\<lambda>_. for_each f [n])) (\<lambda>_. I (Suc n)) E"
    by (rule valid_check)
  then show ?case by (simp add: for_each_append)
qed

text \<open>A counted loop all of whose rounds succeed.\<close>

lemma for_upt_succeeds:
  "(\<And>i w. i < n \<Longrightarrow> I i w \<Longrightarrow> \<exists>w'. f i w = (Ok (), w') \<and> I (Suc i) w') \<Longrightarrow> I 0 w \<Longrightarrow>
    \<exists>w'. for_each f [0..<n] w = (Ok (), w') \<and> I n w'"
proof (induction n)
  case (Suc n)
  then obtain w1 where "for_each f [0..<n] w = (Ok (), w1)" "I n w1" by (meson less_SucI)
  moreover from Suc.prems(1)[OF _ this(2)] obtain w2 where "f n w1 = (Ok (), w2)" "I (Suc n) w2" by auto
  ultimately show ?case by (simp add: for_each_append check_def ret_def)
qed (simp add: ret_def)

lemma valid_ignore:
  assumes "valid P m (\<lambda>_. R) R" and "valid R k Q E"
  shows "valid P (ignore m k) Q E"
  using assms by (fastforce simp: valid_def ignore_def split: res.splits prod.splits)

subsection \<open>Predicates an operation keeps\<close>

text \<open>\<open>keeps P m\<close>: whatever its outcome, the operation leads from states with \<open>P\<close> to states with \<open>P\<close>.\<close>

definition keeps :: "('s \<Rightarrow> bool) \<Rightarrow> ('a, 's) op \<Rightarrow> bool" where
  "keeps P m \<longleftrightarrow> (\<forall>s. P s \<longrightarrow> P (snd (m s)))"

named_theorems keeps_intros \<open>introduction rules of keeps\<close>

lemma keepsD: "keeps P m \<Longrightarrow> P s \<Longrightarrow> m s = (r, s') \<Longrightarrow> P s'"
  unfolding keeps_def by (metis snd_conv)

lemma keeps_basic [keeps_intros]:
  "keeps P (ret x)" "keeps P fail" "keeps P undef" "keeps P (gets f)"
  by (simp_all add: keeps_def ret_def fail_def undef_def gets_def)

lemma keeps_modify: "(\<And>s. P s \<Longrightarrow> P (f s)) \<Longrightarrow> keeps P (modify f)"
  by (simp add: keeps_def modify_def)

lemma keeps_check [keeps_intros]: "keeps P m \<Longrightarrow> (\<And>a. keeps P (k a)) \<Longrightarrow> keeps P (check m k)"
  by (fastforce simp: keeps_def check_def split: res.splits prod.splits)

lemma keeps_check_not [keeps_intros]: "keeps P k \<Longrightarrow> keeps P (check_not c k)"
  by (simp add: keeps_def check_not_def fail_def)

lemma keeps_ignore [keeps_intros]: "keeps P m \<Longrightarrow> keeps P k \<Longrightarrow> keeps P (ignore m k)"
  by (fastforce simp: keeps_def ignore_def split: res.splits prod.splits)

lemma keeps_on_err [keeps_intros]: "keeps P m \<Longrightarrow> keeps P h \<Longrightarrow> keeps P (on_err m h)"
  by (fastforce simp: keeps_def on_err_def split: res.splits prod.splits)

lemma keeps_for_each [keeps_intros]: "(\<And>x. keeps P (f x)) \<Longrightarrow> keeps P (for_each f xs)"
  by (induction xs) (auto intro: keeps_intros)

lemma keeps_if [keeps_intros]: "keeps P m \<Longrightarrow> keeps P n \<Longrightarrow> keeps P (if c then m else n)"
  by simp

subsection \<open>Little-endian bytes\<close>

primrec le_nat :: "byte list \<Rightarrow> nat" where
  "le_nat [] = 0"
| "le_nat (b # bs) = unat b + 256 * le_nat bs"

primrec le_bytes :: "nat \<Rightarrow> nat \<Rightarrow> byte list" where
  "le_bytes 0 n = []"
| "le_bytes (Suc k) n = of_nat (n mod 256) # le_bytes k (n div 256)"

lemma length_le_bytes [simp]: "length (le_bytes k n) = k"
  by (induction k arbitrary: n) auto

lemma le_nat_le_bytes: "le_nat (le_bytes k n) = n mod 256 ^ k"
proof (induction k arbitrary: n)
  case 0
  then show ?case by simp
next
  case (Suc k)
  have "le_nat (le_bytes (Suc k) n) = n mod 256 + 256 * (n div 256 mod 256 ^ k)"
    by (simp add: Suc.IH unat_of_nat)
  also have "\<dots> = n mod 256 ^ Suc k"
    by (simp add: mod_mult2_eq)
  finally show ?case .
qed

lemma unat_less_2p: "unat (w :: 'n::len word) < 2 ^ LENGTH('n)"
  by (rule unsigned_less)

lemma unat_byte_less: "unat (b :: byte) < 256"
  using unat_less_2p[of b] by simp

lemma le_nat_bound: "le_nat bs < 256 ^ length bs"
proof (induction bs)
  case Nil
  then show ?case by simp
next
  case (Cons b bs)
  have "unat b < 256" by (rule unat_byte_less)
  with Cons.IH show ?case by simp
qed

definition le_u64 :: "byte list \<Rightarrow> u64" where
  "le_u64 bs = of_nat (le_nat bs)"

definition bytes_u64 :: "u64 \<Rightarrow> byte list" where
  "bytes_u64 w = le_bytes 8 (unat w)"

definition le_u32 :: "byte list \<Rightarrow> u32" where
  "le_u32 bs = of_nat (le_nat bs)"

definition bytes_u32 :: "u32 \<Rightarrow> byte list" where
  "bytes_u32 w = le_bytes 4 (unat w)"

definition le_u16 :: "byte list \<Rightarrow> u16" where
  "le_u16 bs = of_nat (le_nat bs)"

definition bytes_u16 :: "u16 \<Rightarrow> byte list" where
  "bytes_u16 w = le_bytes 2 (unat w)"

lemma length_bytes_word [simp]:
  "length (bytes_u64 w) = 8" "length (bytes_u32 v) = 4" "length (bytes_u16 u) = 2"
  by (simp_all add: bytes_u64_def bytes_u32_def bytes_u16_def)

lemma le_nat_zeros [simp]: "le_nat (replicate n 0) = 0"
  by (induction n) simp_all

lemma le_u64_zeros [simp]: "le_u64 (replicate n 0) = 0"
  by (simp add: le_u64_def)

lemma le_u64_bytes [simp]: "le_u64 (bytes_u64 w) = w"
  using unat_less_2p[of w] by (simp add: le_u64_def bytes_u64_def le_nat_le_bytes)

lemma le_u32_bytes [simp]: "le_u32 (bytes_u32 w) = w"
  using unat_less_2p[of w] by (simp add: le_u32_def bytes_u32_def le_nat_le_bytes)

lemma le_u16_bytes [simp]: "le_u16 (bytes_u16 w) = w"
  using unat_less_2p[of w] by (simp add: le_u16_def bytes_u16_def le_nat_le_bytes)

lemma take_min_length: "take (min n (length xs - k)) (drop k xs) = take n (drop k xs)"
  by (cases "n \<le> length xs - k") (simp_all add: min_def)

text \<open>Overwriting part of a block: \<open>memcpy\<close> or \<open>read\<close> to an offset.\<close>

definition overwrite :: "nat \<Rightarrow> 'a list \<Rightarrow> 'a list \<Rightarrow> 'a list" where
  "overwrite off bs xs = take off xs @ bs @ drop (off + length bs) xs"

lemma length_overwrite [simp]:
  "off + length bs \<le> length xs \<Longrightarrow> length (overwrite off bs xs) = length xs"
  by (simp add: overwrite_def)

lemma take_overwrite:
  "off \<le> length xs \<Longrightarrow> take (off + length bs) (overwrite off bs xs) = take off xs @ bs"
  by (simp add: overwrite_def)

lemma take_overwrite_prefix: "k \<le> off \<Longrightarrow> off \<le> length xs \<Longrightarrow> take k (overwrite off bs xs) = take k xs"
  by (simp add: overwrite_def min_def)

lemma drop_overwrite:
  "off + length bs \<le> k \<Longrightarrow> off \<le> length xs \<Longrightarrow> drop k (overwrite off bs xs) = drop k xs"
  by (simp add: overwrite_def)

lemma overwrite_Nil [simp]: "overwrite off [] xs = xs"
  by (simp add: overwrite_def)

end
