(* ===== verification/Rcn_Array.thy ===== *)
theory Rcn_Array
  imports Rcn_Prelude
begin

section \<open>Growable arrays (\<open>u_array\<close>, rcn_util.c)\<close>

text \<open>
  \<open>struct u_array\<close> with its size fields at their width and its block as a list of cells, one
  per element; \<open>None\<close> is the null pointer, an inner \<open>None\<close> a cell nothing was written to.
  The element type is the C element type, \<open>arr_size\<close> its \<open>sizeof\<close>.  Byte offsets
  (\<open>size * i\<close>) and request sizes are computed on 64 bits as in C, so they can wrap; an access
  outside the block or not at a cell boundary is \<open>Undef\<close>.  The allocator is a parameter
  \<open>av\<close>: \<open>av n\<close> says whether a request of \<open>n\<close> bytes is granted; no request above
  \<open>PTRDIFF_MAX\<close> is, as the C library documents.  The locale \<open>growable\<close> is the contract the rest
  of the program relies on, in terms of the list of live elements.
\<close>

type_synonym allocator = "nat \<Rightarrow> bool"

definition granted :: "allocator \<Rightarrow> nat \<Rightarrow> bool" where
  "granted av n \<longleftrightarrow> av n \<and> n < 2 ^ 63"

record 'a u_array =
  arr_data :: "'a option list option"
  arr_size :: u64
  arr_capacity :: u64
  arr_length :: u64

subsection \<open>The operations\<close>

text \<open>The cell at byte offset \<open>size * i\<close>.\<close>

definition slot :: "'a u_array \<Rightarrow> u64 \<Rightarrow> nat option" where
  "slot arr i = (case arr_data arr of
      None \<Rightarrow> None
    | Some cs \<Rightarrow>
        (let off = unat (arr_size arr * i); sz = unat (arr_size arr)
         in if sz dvd off \<and> off div sz < length cs then Some (off div sz) else None))"

definition store_cell :: "u64 \<Rightarrow> 'a \<Rightarrow> (unit, 'a u_array) op" where
  "store_cell i x arr = (case (slot arr i, arr_data arr) of
      (Some k, Some cs) \<Rightarrow> (Ok (), arr\<lparr>arr_data := Some (cs[k := Some x])\<rparr>)
    | _ \<Rightarrow> (Undef, arr))"

definition load_cell :: "u64 \<Rightarrow> ('a, 'a u_array) op" where
  "load_cell i arr = (case (slot arr i, arr_data arr) of
      (Some k, Some cs) \<Rightarrow> (case cs ! k of Some x \<Rightarrow> (Ok x, arr) | None \<Rightarrow> (Undef, arr))
    | _ \<Rightarrow> (Undef, arr))"

definition u_array_init :: "allocator \<Rightarrow> u64 \<Rightarrow> u64 \<Rightarrow> (unit, 'a u_array) op" where
  "u_array_init av esize capacity arr =
     (if esize \<le> 0 then (Fail, arr)
      else if capacity \<le> 0 then (Fail, arr)
      else let arr' = arr\<lparr>arr_length := 0, arr_capacity := capacity, arr_size := esize,
                 arr_data := (if granted av (unat capacity * unat esize)
                              then Some (replicate (unat capacity) None) else None)\<rparr>
           in if arr_data arr' = None then (Fail, arr') else (Ok (), arr'))"

text \<open>\<open>realloc\<close> keeps the cells that fit and leaves the new ones unwritten.\<close>

definition resize :: "allocator \<Rightarrow> u64 \<Rightarrow> (unit, 'a u_array) op" where
  "resize av extra arr =
     (let new_size = (arr_capacity arr + extra) * arr_size arr;
          n = unat new_size div unat (arr_size arr);
          cs = (case arr_data arr of None \<Rightarrow> [] | Some cs \<Rightarrow> cs)
      in if granted av (unat new_size)
         then (Ok (), arr\<lparr>arr_data := Some (take n cs @ replicate (n - length cs) None),
                          arr_capacity := arr_capacity arr + extra\<rparr>)
         else (Fail, arr))"

definition u_array_resize :: "allocator \<Rightarrow> u64 \<Rightarrow> (unit, 'a u_array) op" where
  "u_array_resize av extra = check (resize av extra) (\<lambda>_. ret ())"

definition u_array_add :: "allocator \<Rightarrow> 'a \<Rightarrow> (unit, 'a u_array) op" where
  "u_array_add av x arr =
     (if arr_data arr = None then (Fail, arr)
      else check (if arr_length arr = arr_capacity arr
                  then u_array_resize av (arr_capacity arr) else ret ())
        (\<lambda>_ arr1. check (store_cell (arr_length arr1) x)
          (\<lambda>_. modify (\<lambda>arr2. arr2\<lparr>arr_length := arr_length arr2 + 1\<rparr>)) arr1) arr)"

text \<open>
  The loop of \<open>u_array_set\<close> doubles the capacity until the index fits.  Nothing in the code
  bounds it, so it may not return: the result is \<open>None\<close> then.
\<close>

partial_function (option) set_grow ::
  "allocator \<Rightarrow> u64 \<Rightarrow> 'a u_array \<Rightarrow> (unit res \<times> 'a u_array) option" where
  "set_grow av i arr =
     (if i \<ge> arr_capacity arr
      then (case u_array_resize av (arr_capacity arr) arr of
              (Ok _, arr') \<Rightarrow> set_grow av i arr'
            | (r, arr') \<Rightarrow> Some (r, arr'))
      else Some (Ok (), arr))"

definition u_array_set ::
  "allocator \<Rightarrow> 'a \<Rightarrow> u64 \<Rightarrow> 'a u_array \<Rightarrow> (unit res \<times> 'a u_array) option" where
  "u_array_set av x i arr =
     (if arr_data arr = None then Some (Fail, arr)
      else case set_grow av i arr of
        None \<Rightarrow> None
      | Some (Ok _, arr1) \<Rightarrow>
          Some (check (store_cell i x)
            (\<lambda>_. modify (\<lambda>arr2. if i \<ge> arr_length arr2 then arr2\<lparr>arr_length := i + 1\<rparr> else arr2)) arr1)
      | Some (r, arr1) \<Rightarrow> Some (r, arr1))"

definition u_array_delete :: "(unit, 'a u_array) op" where
  "u_array_delete arr =
     (if arr_data arr = None then (Fail, arr)
      else (Ok (), arr\<lparr>arr_length := arr_length arr - 1\<rparr>))"

text \<open>\<open>memmove\<close> of the elements behind index \<open>i\<close> one cell down.\<close>

definition close_gap :: "u64 \<Rightarrow> (unit, 'a u_array) op" where
  "close_gap i arr =
     (let k = unat ((arr_length arr - i - 1) * arr_size arr) div unat (arr_size arr)
      in case (slot arr i, arr_data arr) of
        (Some d, Some cs) \<Rightarrow>
          (if d + 1 + k \<le> length cs
           then (Ok (), arr\<lparr>arr_data := Some (take d cs @ take k (drop (d + 1) cs) @ drop (d + k) cs)\<rparr>)
           else (Undef, arr))
      | _ \<Rightarrow> (Undef, arr))"

definition u_array_remove :: "u64 \<Rightarrow> (unit, 'a u_array) op" where
  "u_array_remove i arr =
     (if arr_data arr = None then (Fail, arr)
      else if arr_length arr = 0 then (Fail, arr)
      else if i \<ge> arr_length arr then (Fail, arr)
      else check (close_gap i)
        (\<lambda>_. modify (\<lambda>arr'. arr'\<lparr>arr_length := arr_length arr' - 1\<rparr>)) arr)"

definition u_array_remove_get :: "u64 \<Rightarrow> ('a, 'a u_array) op" where
  "u_array_remove_get i arr =
     (if arr_data arr = None then (Fail, arr)
      else if arr_length arr = 0 then (Fail, arr)
      else if i \<ge> arr_length arr then (Fail, arr)
      else check (load_cell i)
        (\<lambda>x. check (close_gap i)
          (\<lambda>_. check (modify (\<lambda>arr'. arr'\<lparr>arr_length := arr_length arr' - 1\<rparr>))
            (\<lambda>_. ret x))) arr)"

text \<open>\<open>u_array_getr\<close> returns a pointer into the block: the number of the cell.\<close>

definition u_array_getr :: "u64 \<Rightarrow> (nat, 'a u_array) op" where
  "u_array_getr i arr =
     (if arr_data arr = None then (Fail, arr)
      else if i \<ge> arr_length arr then (Fail, arr)
      else case slot arr i of Some k \<Rightarrow> (Ok k, arr) | None \<Rightarrow> (Undef, arr))"

definition u_array_getv :: "u64 \<Rightarrow> ('a, 'a u_array) op" where
  "u_array_getv i arr =
     (if arr_data arr = None then (Fail, arr)
      else if i \<ge> arr_length arr then (Fail, arr)
      else load_cell i arr)"

primrec find_from :: "'a \<Rightarrow> nat \<Rightarrow> u64 \<Rightarrow> (u64, 'a u_array) op" where
  "find_from x 0 i = fail"
| "find_from x (Suc n) i =
     check (load_cell i) (\<lambda>y. if y = x then ret i else find_from x n (i + 1))"

definition u_array_find_index :: "'a \<Rightarrow> (u64, 'a u_array) op" where
  "u_array_find_index x arr =
     (if arr_data arr = None then (Fail, arr)
      else find_from x (unat (arr_length arr)) 0 arr)"

definition u_array_free :: "(unit, 'a u_array) op" where
  "u_array_free arr = (Ok (), arr\<lparr>arr_data := None\<rparr>)"

subsection \<open>The invariant and the live elements\<close>

text \<open>
  A live array: its block holds exactly \<open>capacity\<close> cells, the first \<open>length\<close> of them written,
  and its size in bytes is one the allocator can grant.
\<close>

definition arr_inv :: "'a u_array \<Rightarrow> bool" where
  "arr_inv arr \<longleftrightarrow> (case arr_data arr of
      None \<Rightarrow> False
    | Some cs \<Rightarrow> length cs = unat (arr_capacity arr) \<and> 0 < unat (arr_capacity arr) \<and>
        0 < unat (arr_size arr) \<and> unat (arr_length arr) \<le> unat (arr_capacity arr) \<and>
        unat (arr_capacity arr) * unat (arr_size arr) < 2 ^ 63 \<and>
        (\<forall>k < unat (arr_length arr). cs ! k \<noteq> None))"

definition elems :: "'a u_array \<Rightarrow> 'a list" where
  "elems arr = (case arr_data arr of
      None \<Rightarrow> [] | Some cs \<Rightarrow> map the (take (unat (arr_length arr)) cs))"

lemma arr_invE:
  assumes "arr_inv arr"
  obtains cs where "arr_data arr = Some cs" "length cs = unat (arr_capacity arr)"
    "0 < unat (arr_capacity arr)" "0 < unat (arr_size arr)"
    "unat (arr_length arr) \<le> unat (arr_capacity arr)"
    "unat (arr_capacity arr) * unat (arr_size arr) < 2 ^ 63"
    "\<forall>k < unat (arr_length arr). cs ! k \<noteq> None"
    "elems arr = map the (take (unat (arr_length arr)) cs)"
  using assms by (auto simp: arr_inv_def elems_def split: option.splits)

lemma arr_inv_data [simp]: "arr_inv arr \<Longrightarrow> arr_data arr \<noteq> None"
  by (auto simp: arr_inv_def split: option.splits)

lemma length_elems: "arr_inv arr \<Longrightarrow> length (elems arr) = unat (arr_length arr)"
  by (auto elim!: arr_invE)

lemma nth_elems: "arr_inv arr \<Longrightarrow> k < unat (arr_length arr) \<Longrightarrow>
    the (arr_data arr) ! k = Some (elems arr ! k)"
  by (fastforce elim!: arr_invE)

lemma arr_length_less: "arr_inv arr \<Longrightarrow> unat (arr_length arr) < 2 ^ 63"
proof (elim arr_invE)
  fix cs :: "'a option list"
  assume "unat (arr_length arr) \<le> unat (arr_capacity arr)" "0 < unat (arr_size arr)"
    "unat (arr_capacity arr) * unat (arr_size arr) < 2 ^ 63"
  moreover have "unat (arr_capacity arr) \<le> unat (arr_capacity arr) * unat (arr_size arr)"
    using \<open>0 < unat (arr_size arr)\<close> by simp
  ultimately show ?thesis by linarith
qed

lemma index_fits: "arr_inv arr \<Longrightarrow> i < length (elems arr) \<Longrightarrow> unat (of_nat i :: u64) = i"
  using arr_length_less[of arr] length_elems[of arr] by (simp add: unat_of_nat take_bit_nat_eq_self)

lemma unat_mult_small: "unat x * unat (y :: u64) < 2 ^ 64 \<Longrightarrow> unat (x * y) = unat x * unat y"
  using unat_mult_lem[of x y] by simp

lemma unat_add_small: "unat x + unat (y :: u64) < 2 ^ 64 \<Longrightarrow> unat (x + y) = unat x + unat y"
  using unat_add_lem[of x y] by simp

lemma less_2p_63_64: "(2 :: nat) ^ 63 < 2 ^ 64" "(2 :: nat) ^ 64 = 2 ^ 63 + 2 ^ 63"
  by simp_all

lemma slot_in_capacity:
  assumes "arr_inv arr" and "unat i < unat (arr_capacity arr)"
  shows "slot arr i = Some (unat i)"
proof -
  obtain cs where cs: "arr_data arr = Some cs" "length cs = unat (arr_capacity arr)"
    "0 < unat (arr_size arr)" "unat (arr_capacity arr) * unat (arr_size arr) < 2 ^ 63"
    using assms(1) by (rule arr_invE)
  have "unat (arr_size arr) * unat i \<le> unat (arr_capacity arr) * unat (arr_size arr)"
    using assms(2) by (simp add: mult.commute)
  then have "unat (arr_size arr * i) = unat (arr_size arr) * unat i"
    using cs(4) less_2p_63_64 by (intro unat_mult_small) linarith
  then show ?thesis using cs assms(2) by (simp add: slot_def)
qed

lemma unat_plus_1: "unat (x :: u64) < 2 ^ 64 - 1 \<Longrightarrow> unat (x + 1) = Suc (unat x)"
  by (subst unat_add_small) simp_all

lemma resize_double:
  assumes inv: "arr_inv arr" and r: "u_array_resize av (arr_capacity arr) arr = (r, arr')"
  shows "arr_inv arr' \<and> elems arr' = elems arr \<and> arr_length arr' = arr_length arr \<and>
    arr_size arr' = arr_size arr \<and>
    (r = Ok () \<and> unat (arr_capacity arr') = 2 * unat (arr_capacity arr) \<or> r = Fail \<and> arr' = arr)"
proof -
  let ?c = "unat (arr_capacity arr)" and ?z = "unat (arr_size arr)"
  obtain cs where cs: "arr_data arr = Some cs" "length cs = ?c" "0 < ?c" "0 < ?z"
    "unat (arr_length arr) \<le> ?c" "?c * ?z < 2 ^ 63" "\<forall>k < unat (arr_length arr). cs ! k \<noteq> None"
    "elems arr = map the (take (unat (arr_length arr)) cs)"
    using inv by (rule arr_invE)
  have "?c \<le> ?c * ?z" using cs(4) by simp
  then have "?c + ?c < 2 ^ 64" using cs(6) less_2p_63_64 by linarith
  then have dbl: "unat (arr_capacity arr + arr_capacity arr) = 2 * ?c"
    by (subst unat_add_small) auto
  have "2 * ?c * ?z < 2 ^ 64" using cs(6) less_2p_63_64 by linarith
  then have bytes: "unat ((arr_capacity arr + arr_capacity arr) * arr_size arr) = 2 * ?c * ?z"
    using dbl by (subst unat_mult_small) auto
  have n: "2 * ?c * ?z div ?z = 2 * ?c" using cs(4) by simp
  have eq: "u_array_resize av (arr_capacity arr) arr =
      (if granted av (2 * ?c * ?z)
       then (Ok (), arr\<lparr>arr_data := Some (take (2 * ?c) cs @ replicate (2 * ?c - length cs) None),
                       arr_capacity := arr_capacity arr + arr_capacity arr\<rparr>)
       else (Fail, arr))"
    unfolding u_array_resize_def resize_def check_def Let_def bytes n cs(1) option.case
    by (simp add: ret_def)
  show ?thesis
  proof (cases "granted av (2 * ?c * ?z)")
    case True
    then have "2 * ?c * ?z < 2 ^ 63" by (simp add: granted_def)
    then show ?thesis
      using r True cs dbl unfolding eq by (auto simp: arr_inv_def elems_def nth_append)
  next
    case False
    then show ?thesis using r inv unfolding eq by simp
  qed
qed

lemma store_cell_ok:
  assumes "arr_inv arr" and "unat i < unat (arr_capacity arr)"
  shows "store_cell i x arr =
    (Ok (), arr\<lparr>arr_data := Some ((the (arr_data arr))[unat i := Some x])\<rparr>)"
  using assms by (auto simp: store_cell_def slot_in_capacity elim!: arr_invE)

lemma load_cell_ok:
  assumes "arr_inv arr" and "unat i < unat (arr_length arr)"
  shows "load_cell i arr = (Ok (elems arr ! unat i), arr)"
proof -
  have "unat i < unat (arr_capacity arr)"
    using assms by (auto elim!: arr_invE)
  then show ?thesis
    using assms nth_elems[OF assms]
    by (auto simp: load_cell_def slot_in_capacity split: option.splits)
qed

lemma u_array_add_spec:
  assumes inv: "arr_inv arr" and r: "u_array_add av x arr = (r, arr')"
  shows "arr_inv arr' \<and>
    (r = Ok () \<and> elems arr' = elems arr @ [x] \<or> r = Fail \<and> elems arr' = elems arr)"
proof -
  have room: "arr_inv b \<and> elems b = elems arr \<and> unat (arr_length b) < unat (arr_capacity b)"
    if "(if arr_length arr = arr_capacity arr then u_array_resize av (arr_capacity arr)
         else ret ()) arr = (Ok u, b)" for u b
  proof (cases "arr_length arr = arr_capacity arr")
    case True
    with that resize_double[OF inv, of av "Ok ()" b] inv show ?thesis
      by (auto elim!: arr_invE)
  next
    case False
    with that have "b = arr" by (simp add: ret_def)
    moreover have "unat (arr_length arr) \<noteq> unat (arr_capacity arr)"
      using False by (simp add: word_unat_eq_iff)
    ultimately show ?thesis using inv by (auto elim!: arr_invE)
  qed
  have put: "arr_inv c \<and> elems c = elems b @ [x]"
    if "arr_inv b" "unat (arr_length b) < unat (arr_capacity b)"
      "c = b\<lparr>arr_data := Some ((the (arr_data b))[unat (arr_length b) := Some x]),
             arr_length := arr_length b + 1\<rparr>" for b c
  proof -
    have "unat (arr_length b + 1) = Suc (unat (arr_length b))"
      using arr_length_less[OF that(1)] by (intro unat_plus_1) simp
    with that show ?thesis
      by (auto simp: arr_inv_def elems_def take_Suc_conv_app_nth nth_list_update less_Suc_eq
          split: option.splits)
  qed
  show ?thesis
  proof (cases "(if arr_length arr = arr_capacity arr then u_array_resize av (arr_capacity arr)
         else ret ()) arr")
    case (Pair q b)
    show ?thesis
    proof (cases q)
      case (Ok u)
      with Pair room have b: "arr_inv b" "elems b = elems arr"
        "unat (arr_length b) < unat (arr_capacity b)" by blast+
      have "r = Ok ()" "arr' = b\<lparr>arr_data := Some ((the (arr_data b))[unat (arr_length b) := Some x]),
             arr_length := arr_length b + 1\<rparr>"
        using r inv Pair Ok b by (auto simp: u_array_add_def check_def store_cell_ok modify_def)
      with put[OF b(1,3)] b(2) show ?thesis by auto
    next
      case Fail
      with r inv Pair have "r = Fail" "arr' = b" "arr_length arr = arr_capacity arr"
        by (auto simp: u_array_add_def check_def ret_def split: if_splits)
      with Pair Fail resize_double[OF inv, of av Fail b] show ?thesis by auto
    next
      case Undef
      with Pair resize_double[OF inv, of av Undef b] show ?thesis
        by (auto simp: ret_def split: if_splits)
    qed
  qed
qed

lemma u_array_add_in_place:
  assumes "arr_inv arr" "unat (arr_length arr) < unat (arr_capacity arr)"
  shows "\<exists>arr'. u_array_add av x arr = (Ok (), arr') \<and> arr_capacity arr' = arr_capacity arr \<and>
    unat (arr_length arr') = Suc (unat (arr_length arr))"
proof -
  have "unat (arr_length arr + 1) = Suc (unat (arr_length arr))"
    using arr_length_less[OF assms(1)] by (intro unat_plus_1) simp
  then show ?thesis using assms
    by (auto simp: u_array_add_def check_def ret_def store_cell_ok modify_def)
qed

lemma u_array_add_size: "arr_inv arr \<Longrightarrow> u_array_add av x arr = (Ok (), arr') \<Longrightarrow> arr_size arr' = arr_size arr"
proof -
  assume inv: "arr_inv arr" and r: "u_array_add av x arr = (Ok (), arr')"
  have step: "arr_size b = arr_size a \<and> arr_inv b \<or> q = Fail"
    if "(if arr_length a = arr_capacity a then u_array_resize av (arr_capacity a) else ret ()) a = (q, b)" "arr_inv a" for q and a b :: "'a u_array"
    using that resize_double[OF that(2), of av q b] by (auto simp: ret_def split: if_splits)
  have cell: "arr_size b = arr_size a" if "store_cell i x a = (q, b)" for i q and a b :: "'a u_array"
    using that by (auto simp: store_cell_def split: option.splits)
  obtain q b where q: "(if arr_length arr = arr_capacity arr then u_array_resize av (arr_capacity arr) else ret ()) arr = (q, b)"
    by fastforce
  obtain q2 c where q2: "store_cell (arr_length b) x b = (q2, c)" by fastforce
  show ?thesis using r step[OF q inv] cell[OF q2] q q2 inv
    by (auto simp: u_array_add_def check_def gets_def modify_def split: res.splits)
qed

text \<open>With memory, adding succeeds: the capacity at most doubles.\<close>

lemma u_array_add_grows:
  assumes inv: "arr_inv arr" and av: "av = (\<lambda>_. True)" and small: "2 * unat (arr_capacity arr) * unat (arr_size arr) < 2 ^ 63"
  shows "\<exists>arr'. u_array_add av x arr = (Ok (), arr') \<and> arr_inv arr' \<and> elems arr' = elems arr @ [x] \<and>
    arr_size arr' = arr_size arr \<and> unat (arr_capacity arr') \<le> max (unat (arr_capacity arr)) (2 * length (elems arr))"
proof (cases "arr_length arr = arr_capacity arr")
  case False
  then have "unat (arr_length arr) < unat (arr_capacity arr)"
    using inv by (auto elim!: arr_invE simp: word_less_nat_alt[symmetric] word_le_nat_alt[symmetric] order.not_eq_order_implies_strict)
  from u_array_add_in_place[OF inv this, of av x] obtain arr' where a: "u_array_add av x arr = (Ok (), arr')"
    "arr_capacity arr' = arr_capacity arr" by blast
  then show ?thesis using u_array_add_spec[OF inv a(1)] u_array_add_size[OF inv a(1)] by simp
next
  case True
  obtain r b where r: "u_array_resize av (arr_capacity arr) arr = (r, b)" by fastforce
  note law = resize_double[OF inv r]
  have "unat (arr_capacity arr + arr_capacity arr) = unat (arr_capacity arr) + unat (arr_capacity arr)"
    "unat ((arr_capacity arr + arr_capacity arr) * arr_size arr) < 2 ^ 63"
  proof -
    have pos: "0 < unat (arr_size arr)" using inv by (auto elim!: arr_invE)
    have "2 * unat (arr_capacity arr) \<le> 2 * unat (arr_capacity arr) * unat (arr_size arr)" using pos by simp
    then have lt: "2 * unat (arr_capacity arr) < 2 ^ 63" using small by linarith
    show s: "unat (arr_capacity arr + arr_capacity arr) = unat (arr_capacity arr) + unat (arr_capacity arr)"
      using lt by (intro unat_add_small) simp
    have "unat ((arr_capacity arr + arr_capacity arr) * arr_size arr) = 2 * unat (arr_capacity arr) * unat (arr_size arr)"
      using small s by (subst unat_mult_small) (simp_all add: add_mult_distrib)
    then show "unat ((arr_capacity arr + arr_capacity arr) * arr_size arr) < 2 ^ 63" using small by simp
  qed
  then have "r = Ok ()" using r av by (auto simp: u_array_resize_def resize_def granted_def Let_def op_simps split: if_splits)
  then have b: "arr_inv b" "elems b = elems arr" "arr_length b = arr_length arr" "arr_size b = arr_size arr"
    "unat (arr_capacity b) = 2 * unat (arr_capacity arr)" using law by auto
  have pos: "0 < unat (arr_capacity arr)" using inv by (auto elim!: arr_invE)
  then have lt: "unat (arr_length b) < unat (arr_capacity b)" using b True by simp
  then have "arr_length b \<noteq> arr_capacity b" by auto
  with u_array_add_in_place[OF b(1) lt, of av x] obtain arr' where a: "u_array_add av x b = (Ok (), arr')"
    "arr_capacity arr' = arr_capacity b" by blast
  have eq: "u_array_add av x arr = u_array_add av x b"
    using r \<open>r = Ok ()\<close> True inv b(1) \<open>arr_length b \<noteq> _\<close> by (simp add: u_array_add_def check_def ret_def)
  have "length (elems arr) = unat (arr_capacity arr)" using length_elems[OF inv] True by simp
  then show ?thesis unfolding eq using a u_array_add_spec[OF b(1) a(1)] u_array_add_size[OF b(1) a(1)] b by simp
qed

lemma u_array_init_spec:
  assumes "u_array_init av z c arr = (r, arr')"
  shows "r = Ok () \<and> arr_inv arr' \<and> elems arr' = [] \<or> r = Fail \<and> elems arr' = [] \<or> r = Fail \<and> arr' = arr"
  using assms
  by (auto simp: u_array_init_def granted_def arr_inv_def elems_def Let_def unat_gt_0 split: if_splits)

lemma u_array_getv_spec:
  "arr_inv arr \<Longrightarrow> u_array_getv i arr =
     (if unat i < length (elems arr) then (Ok (elems arr ! unat i), arr) else (Fail, arr))"
  by (auto simp: u_array_getv_def length_elems load_cell_ok word_le_nat_alt)

lemma u_array_getr_spec:
  assumes "arr_inv arr"
  shows "u_array_getr i arr =
     (if unat i < length (elems arr) then (Ok (unat i), arr) else (Fail, arr))"
proof (cases "unat i < unat (arr_length arr)")
  case True
  then have "unat i < unat (arr_capacity arr)" using assms by (auto elim!: arr_invE)
  with True assms show ?thesis
    by (simp add: u_array_getr_def length_elems slot_in_capacity word_le_nat_alt)
qed (use assms in \<open>simp add: u_array_getr_def length_elems word_le_nat_alt\<close>)

text \<open>Closing the gap behind element \<open>i\<close>.\<close>

definition drop_nth :: "nat \<Rightarrow> 'a list \<Rightarrow> 'a list" where
  "drop_nth i xs = take i xs @ drop (Suc i) xs"

lemma take_moved_down:
  assumes "i < l" "l \<le> length cs"
  shows "take (l - 1) (take i cs @ take (l - i - 1) (drop (i + 1) cs) @ drop (i + (l - i - 1)) cs) =
    drop_nth i (take l cs)"
proof -
  let ?a = "take i cs @ take (l - i - 1) (drop (i + 1) cs)"
  have len: "length ?a = l - 1" using assms by simp
  have pre: "take (length xs) (xs @ ys) = xs" for xs ys :: "'a list" by simp
  have "take (l - 1) (?a @ drop (i + (l - i - 1)) cs) = ?a"
    using pre[of ?a "drop (i + (l - i - 1)) cs"] unfolding len .
  moreover have "drop_nth i (take l cs) = ?a"
    using assms by (simp add: drop_nth_def drop_take)
  ultimately show ?thesis by (simp only: append_assoc)
qed

lemma length_drop_nth [simp]: "i < length xs \<Longrightarrow> length (drop_nth i xs) = length xs - 1"
  by (simp add: drop_nth_def)

lemma drop_nth_0 [simp]: "drop_nth 0 (x # xs) = xs"
  by (simp add: drop_nth_def)

lemma set_drop_nth: "set (drop_nth i xs) \<subseteq> set xs"
  by (auto simp: drop_nth_def dest: in_set_takeD in_set_dropD)

lemma distinct_drop_nth:
  "distinct xs \<Longrightarrow> i < length xs \<Longrightarrow> set (drop_nth i xs) = set xs - {xs ! i}"
  by (subst (2) id_take_nth_drop[of i xs], assumption)
    (subst (asm) id_take_nth_drop[of i xs], auto simp: drop_nth_def)

lemma unat_minus_1: "(x :: u64) \<noteq> 0 \<Longrightarrow> unat (x - 1) = unat x - 1"
  by (simp add: unat_sub word_le_nat_alt unat_gt_0 Suc_leI)

lemma close_gap_ok:
  assumes inv: "arr_inv arr" and i: "unat i < unat (arr_length arr)"
  shows "\<exists>arr'. check (close_gap i) (\<lambda>_. modify (\<lambda>a. a\<lparr>arr_length := arr_length a - 1\<rparr>)) arr = (Ok (), arr')
    \<and> close_gap i arr = (Ok (), arr'\<lparr>arr_length := arr_length arr\<rparr>)
    \<and> arr_inv arr' \<and> elems arr' = drop_nth (unat i) (elems arr)"
proof -
  let ?c = "unat (arr_capacity arr)" and ?z = "unat (arr_size arr)" and ?l = "unat (arr_length arr)"
  obtain cs where cs: "arr_data arr = Some cs" "length cs = ?c" "0 < ?c" "0 < ?z" "?l \<le> ?c"
    "?c * ?z < 2 ^ 63" "\<forall>k < ?l. cs ! k \<noteq> None" "elems arr = map the (take ?l cs)"
    using inv by (rule arr_invE)
  have sub: "unat (arr_length arr - i) = ?l - unat i"
    using i by (simp add: unat_sub word_le_nat_alt)
  then have "arr_length arr - i \<noteq> 0" using i by (metis unat_0 zero_less_diff less_irrefl)
  then have k: "unat (arr_length arr - i - 1) = ?l - unat i - 1"
    using sub by (simp add: unat_minus_1)
  have "(?l - unat i - 1) * ?z \<le> ?c * ?z"
    using cs(5) by (intro mult_right_mono) auto
  then have "unat (arr_length arr - i - 1) * ?z < 2 ^ 64"
    unfolding k using cs(6) less_2p_63_64 by linarith
  then have bytes: "unat ((arr_length arr - i - 1) * arr_size arr) div ?z = ?l - unat i - 1"
    using k cs(4) by (simp add: unat_mult_small)
  let ?cs = "take (unat i) cs @ take (?l - unat i - 1) (drop (unat i + 1) cs) @ drop (unat i + (?l - unat i - 1)) cs"
  have gap: "close_gap i arr = (Ok (), arr\<lparr>arr_data := Some ?cs\<rparr>)"
    using i cs slot_in_capacity[OF inv, of i] by (simp add: close_gap_def bytes)
  let ?arr = "arr\<lparr>arr_data := Some ?cs, arr_length := arr_length arr - 1\<rparr>"
  have "unat (arr_length arr - 1) = ?l - 1" using i by (intro unat_minus_1) auto
  moreover have "take (?l - 1) ?cs = drop_nth (unat i) (take ?l cs)"
    using i cs(2,5) by (intro take_moved_down) simp_all
  moreover have "\<forall>k < ?l - 1. ?cs ! k \<noteq> None"
    using i cs(2,5,7) by (auto simp: nth_append min_def)
  moreover have "length ?cs = ?c" using i cs(2,5) by simp
  ultimately have "arr_inv ?arr \<and> elems ?arr = drop_nth (unat i) (elems arr)"
    using cs by (simp add: arr_inv_def elems_def drop_nth_def take_map drop_map)
  moreover have "arr\<lparr>arr_data := Some ?cs\<rparr> = ?arr\<lparr>arr_length := arr_length arr\<rparr>" by simp
  ultimately show ?thesis using gap by (auto simp: check_def modify_def)
qed

lemma u_array_remove_spec:
  assumes inv: "arr_inv arr"
  shows "\<exists>arr'. arr_inv arr' \<and> (if unat i < length (elems arr)
     then u_array_remove i arr = (Ok (), arr') \<and> elems arr' = drop_nth (unat i) (elems arr)
     else u_array_remove i arr = (Fail, arr') \<and> arr' = arr)"
proof (cases "unat i < unat (arr_length arr)")
  case True
  with close_gap_ok[OF inv True] inv show ?thesis
    by (auto simp: u_array_remove_def length_elems word_le_nat_alt)
next
  case False
  with inv show ?thesis by (auto simp: u_array_remove_def length_elems word_le_nat_alt)
qed

lemma u_array_remove_get_spec:
  assumes inv: "arr_inv arr"
  shows "\<exists>arr'. arr_inv arr' \<and> (if unat i < length (elems arr)
     then u_array_remove_get i arr = (Ok (elems arr ! unat i), arr')
       \<and> elems arr' = drop_nth (unat i) (elems arr)
     else u_array_remove_get i arr = (Fail, arr') \<and> arr' = arr)"
proof (cases "unat i < unat (arr_length arr)")
  case True
  from close_gap_ok[OF inv True] obtain arr' where
    "check (close_gap i) (\<lambda>_. modify (\<lambda>a. a\<lparr>arr_length := arr_length a - 1\<rparr>)) arr = (Ok (), arr')"
    "close_gap i arr = (Ok (), arr'\<lparr>arr_length := arr_length arr\<rparr>)"
    "arr_inv arr'" "elems arr' = drop_nth (unat i) (elems arr)" by blast
  with True inv show ?thesis
    by (auto simp: u_array_remove_get_def length_elems word_le_nat_alt load_cell_ok check_def
        modify_def ret_def)
next
  case False
  with inv show ?thesis by (auto simp: u_array_remove_get_def length_elems word_le_nat_alt)
qed

subsection \<open>Search\<close>

definition index_of :: "'a \<Rightarrow> 'a list \<Rightarrow> nat" where
  "index_of x xs = length (takeWhile (\<lambda>y. y \<noteq> x) xs)"

lemma index_of_less: "x \<in> set xs \<Longrightarrow> index_of x xs < length xs"
  by (induction xs) (auto simp: index_of_def)

lemma nth_index_of: "x \<in> set xs \<Longrightarrow> xs ! index_of x xs = x"
  by (induction xs) (auto simp: index_of_def)

lemma index_of_first: "k < index_of x xs \<Longrightarrow> xs ! k \<noteq> x"
  unfolding index_of_def by (metis (mono_tags) nth_mem set_takeWhileD takeWhile_nth)

lemma drop_index_of: "x \<in> set xs \<Longrightarrow> drop_nth (index_of x xs) xs = remove1 x xs"
  by (induction xs) (auto simp: index_of_def drop_nth_def)

lemma find_from_spec:
  assumes "arr_inv arr" and "unat i + n = length (elems arr)"
  shows "find_from x n i arr =
    (if x \<in> set (drop (unat i) (elems arr))
     then (Ok (of_nat (unat i + index_of x (drop (unat i) (elems arr)))), arr) else (Fail, arr))"
  using assms(2)
proof (induction n arbitrary: i)
  case 0
  then show ?case by (simp add: fail_def)
next
  case (Suc n)
  let ?y = "elems arr ! unat i"
  have i: "unat i < length (elems arr)" using Suc.prems by simp
  then have "unat i < 2 ^ 64 - 1"
    using arr_length_less[OF assms(1)] by (simp add: length_elems[OF assms(1)])
  then have i1: "unat (i + 1) = Suc (unat i)" by (rule unat_plus_1)
  have split: "drop (unat i) (elems arr) = ?y # drop (Suc (unat i)) (elems arr)"
    using i by (simp add: Cons_nth_drop_Suc)
  have "load_cell i arr = (Ok ?y, arr)"
    using i assms(1) by (simp add: load_cell_ok length_elems)
  moreover have "find_from x n (i + 1) arr = (if x \<in> set (drop (Suc (unat i)) (elems arr))
     then (Ok (of_nat (Suc (unat i) + index_of x (drop (Suc (unat i)) (elems arr)))), arr)
     else (Fail, arr))"
    using Suc.IH[of "i + 1"] Suc.prems i1 by simp
  ultimately show ?case
    unfolding split by (simp add: check_def ret_def index_of_def)
qed

lemma u_array_find_index_spec:
  assumes "arr_inv arr"
  shows "u_array_find_index x arr =
    (if x \<in> set (elems arr) then (Ok (of_nat (index_of x (elems arr))), arr) else (Fail, arr))"
proof -
  have "find_from x (unat (arr_length arr)) 0 arr =
    (if x \<in> set (elems arr) then (Ok (of_nat (index_of x (elems arr))), arr) else (Fail, arr))"
    using find_from_spec[OF assms, of 0 "unat (arr_length arr)" x] assms
    by (simp add: length_elems)
  then show ?thesis using assms by (simp add: u_array_find_index_def)
qed

lemma index_of_roundtrip:
  assumes "arr_inv arr" and "x \<in> set (elems arr)"
  shows "unat (of_nat (index_of x (elems arr)) :: u64) = index_of x (elems arr)"
proof -
  have "index_of x (elems arr) < 2 ^ 64"
    using index_of_less[OF assms(2)] arr_length_less[OF assms(1)] length_elems[OF assms(1)] by simp
  then show ?thesis by (simp add: unat_of_nat take_bit_nat_eq_self)
qed

subsection \<open>The loop of \<open>u_array_set\<close> stops\<close>

lemma resize_double_exact:
  assumes inv: "arr_inv arr" and r: "u_array_resize av (arr_capacity arr) arr = (r, b)"
  shows "r = Ok () \<and> (\<exists>m. arr_data b = Some (the (arr_data arr) @ replicate m None)) \<and> arr_size b = arr_size arr \<or>
    r = Fail \<and> b = arr \<and> (\<exists>n \<le> 2 * unat (arr_capacity arr) * unat (arr_size arr). \<not> granted av n)"
proof -
  obtain cs where cs: "arr_data arr = Some cs" "length cs = unat (arr_capacity arr)" "0 < unat (arr_size arr)"
    using inv by (rule arr_invE)
  let ?n = "(arr_capacity arr + arr_capacity arr) * arr_size arr"
  show ?thesis
  proof (cases "granted av (unat ?n)")
    case True
    then have ok: "r = Ok ()" "arr_data b = Some (take (unat ?n div unat (arr_size arr)) cs @ replicate (unat ?n div unat (arr_size arr) - length cs) None)"
      "arr_size b = arr_size arr"
      using r cs(1) by (auto simp: u_array_resize_def resize_def Let_def check_def ret_def)
    have "arr_inv b" "unat (arr_capacity b) = 2 * unat (arr_capacity arr)" using resize_double[OF inv r] ok(1) by auto
    then have "length (the (arr_data b)) = 2 * unat (arr_capacity arr)" by (auto elim!: arr_invE)
    then have "length cs \<le> unat ?n div unat (arr_size arr)" using ok(2) cs(2) by auto
    then show ?thesis using ok cs(1) by auto
  next
    case False
    have "unat ?n \<le> unat (arr_capacity arr + arr_capacity arr) * unat (arr_size arr)"
      by (simp add: unat_word_ariths)
    also have "\<dots> \<le> 2 * unat (arr_capacity arr) * unat (arr_size arr)"
      by (rule mult_right_mono) (simp_all add: unat_word_ariths)
    finally show ?thesis using False r cs(1) by (auto simp: u_array_resize_def resize_def Let_def check_def)
  qed
qed

lemma capacity_less: "arr_inv arr \<Longrightarrow> unat (arr_capacity arr) < 2 ^ 63"
proof -
  assume "arr_inv arr"
  then obtain "0 < unat (arr_size arr)" "unat (arr_capacity arr) * unat (arr_size arr) < 2 ^ 63" by (auto elim!: arr_invE)
  moreover from this(1) have "unat (arr_capacity arr) \<le> unat (arr_capacity arr) * unat (arr_size arr)" by simp
  ultimately show ?thesis by linarith
qed

lemma set_grow_returns:
  assumes "arr_inv arr"
  shows "\<exists>r arr'. set_grow av i arr = Some (r, arr') \<and> arr_inv arr' \<and> elems arr' = elems arr \<and>
    arr_length arr' = arr_length arr \<and> arr_size arr' = arr_size arr \<and>
    (\<exists>m. arr_data arr' = Some (the (arr_data arr) @ replicate m None)) \<and>
    (r = Ok () \<and> unat i < unat (arr_capacity arr') \<or>
     r = Fail \<and> arr_capacity arr \<le> i \<and> (\<exists>n \<le> 2 * unat i * unat (arr_size arr). \<not> granted av n))"
  using assms
proof (induction "2 ^ 63 - unat (arr_capacity arr)" arbitrary: arr rule: less_induct)
  case less
  have data: "\<exists>m. arr_data arr = Some (the (arr_data arr) @ replicate m None)"
    by (rule exI[of _ 0]) (use less.prems in \<open>auto elim!: arr_invE\<close>)
  show ?case
  proof (cases "i \<ge> arr_capacity arr")
    case False
    then show ?thesis using less.prems data
      by (subst set_grow.simps) (auto simp: word_le_nat_alt)
  next
    case True
    then have le: "unat (arr_capacity arr) \<le> unat i" by (simp add: word_le_nat_alt)
    obtain r b where rb: "u_array_resize av (arr_capacity arr) arr = (r, b)" by fastforce
    note b = resize_double[OF less.prems rb] and e = resize_double_exact[OF less.prems rb]
    show ?thesis
    proof (cases "r = Ok ()")
      case ok: True
      then have cap: "unat (arr_capacity b) = 2 * unat (arr_capacity arr)" using b by auto
      obtain m where m: "arr_data b = Some (the (arr_data arr) @ replicate m None)" "arr_size b = arr_size arr" using e ok by auto
      have "0 < unat (arr_capacity arr)" using less.prems by (auto elim!: arr_invE)
      moreover have "unat (arr_capacity b) < 2 ^ 63" using b capacity_less[of b] by simp
      ultimately have "2 ^ 63 - unat (arr_capacity b) < 2 ^ 63 - unat (arr_capacity arr)"
        using cap by linarith
      from less.hyps[OF this] b obtain r' c m' where c: "set_grow av i b = Some (r', c)" "arr_inv c"
        "elems c = elems arr" "arr_length c = arr_length arr" "arr_size c = arr_size arr"
        "arr_data c = Some (the (arr_data b) @ replicate m' None)"
        "r' = Ok () \<and> unat i < unat (arr_capacity c) \<or> r' = Fail \<and> (\<exists>n \<le> 2 * unat i * unat (arr_size arr). \<not> granted av n)"
        using ok m(2) by auto
      have "set_grow av i arr = Some (r', c)"
        using True rb ok c(1) by (subst set_grow.simps) simp
      moreover have "arr_data c = Some (the (arr_data arr) @ replicate (m + m') None)" using c(6) m(1) by (simp add: replicate_add)
      ultimately show ?thesis using c True by blast
    next
      case False
      with e obtain n where n: "r = Fail" "b = arr" "n \<le> 2 * unat (arr_capacity arr) * unat (arr_size arr)" "\<not> granted av n" by auto
      have "2 * unat (arr_capacity arr) * unat (arr_size arr) \<le> 2 * unat i * unat (arr_size arr)" using le by simp
      with n have "\<exists>n \<le> 2 * unat i * unat (arr_size arr). \<not> granted av n" by (meson le_trans)
      then show ?thesis using True rb less.prems n(1,2) data by (subst set_grow.simps) auto
    qed
  qed
qed

lemma u_array_set_spec:
  assumes inv: "arr_inv arr"
  shows "\<exists>r arr'. u_array_set av x i arr = Some (r, arr') \<and>
    (r = Fail \<and> arr_capacity arr \<le> i \<and> (\<exists>n \<le> 2 * unat i * unat (arr_size arr). \<not> granted av n) \<and>
       arr_inv arr' \<and> elems arr' = elems arr \<or>
     r = Ok () \<and> (\<exists>m. arr_data arr' = Some ((the (arr_data arr) @ replicate m None)[unat i := Some x]) \<and>
         unat i < length (the (arr_data arr)) + m) \<and>
       unat (arr_length arr') = max (length (elems arr)) (unat i + 1) \<and>
       (unat i \<le> length (elems arr) \<longrightarrow> arr_inv arr' \<and>
          elems arr' = (if unat i < length (elems arr) then (elems arr)[unat i := x] else elems arr @ [x])))"
proof -
  obtain r b m where b: "set_grow av i arr = Some (r, b)" "arr_inv b" "elems b = elems arr"
    "arr_length b = arr_length arr" "arr_data b = Some (the (arr_data arr) @ replicate m None)"
    "r = Ok () \<and> unat i < unat (arr_capacity b) \<or> r = Fail \<and> arr_capacity arr \<le> i \<and> (\<exists>n \<le> 2 * unat i * unat (arr_size arr). \<not> granted av n)"
    using set_grow_returns[OF inv, of av i] by blast
  show ?thesis
  proof (cases "r = Ok ()")
    case False
    with b inv show ?thesis by (auto simp: u_array_set_def)
  next
    case True
    with b have cap: "unat i < unat (arr_capacity b)" by simp
    let ?c = "b\<lparr>arr_data := Some ((the (arr_data b))[unat i := Some x])\<rparr>"
    let ?d = "if i \<ge> arr_length b then ?c\<lparr>arr_length := i + 1\<rparr> else ?c"
    have set: "u_array_set av x i arr = Some (Ok (), ?d)"
      using True b inv cap by (simp add: u_array_set_def store_cell_ok check_def modify_def)
    obtain cs where cs: "arr_data b = Some cs" "length cs = unat (arr_capacity b)"
      "0 < unat (arr_capacity b)" "0 < unat (arr_size b)"
      "unat (arr_length b) \<le> unat (arr_capacity b)"
      "unat (arr_capacity b) * unat (arr_size b) < 2 ^ 63"
      "\<forall>k < unat (arr_length b). cs ! k \<noteq> None" "elems b = map the (take (unat (arr_length b)) cs)"
      using b(2) by (rule arr_invE)
    have len: "length (elems arr) = unat (arr_length b)" using b length_elems by metis
    have i1: "unat (i + 1) = Suc (unat i)" using cap capacity_less[OF b(2)] by (intro unat_plus_1) simp
    have "unat (arr_length ?d) = max (length (elems arr)) (unat i + 1)"
      using i1 len by (auto simp: word_le_nat_alt max_def)
    moreover have "arr_inv ?d \<and> elems ?d =
        (if unat i < length (elems arr) then (elems arr)[unat i := x] else elems arr @ [x])"
      if le: "unat i \<le> length (elems arr)"
    proof (cases "unat i < unat (arr_length b)")
      case True
      then show ?thesis using cs b(3) len cap
        by (auto simp: arr_inv_def elems_def word_le_nat_alt nth_list_update take_update_swap map_update)
    next
      case False
      with le len have i: "unat i = unat (arr_length b)" by simp
      then show ?thesis using cs b(3) len cap i i1 False
        by (auto simp: arr_inv_def elems_def word_le_nat_alt nth_list_update
            take_Suc_conv_app_nth less_Suc_eq)
    qed
    moreover have "arr_data ?d = Some ((the (arr_data arr) @ replicate m None)[unat i := Some x])" using b(5) by simp
    moreover have "unat i < length (the (arr_data arr)) + m"
    proof -
      have "cs = the (arr_data arr) @ replicate m None" using cs(1) b(5) by simp
      from arg_cong[OF this, of length] show ?thesis using cap cs(2) by simp
    qed
    ultimately show ?thesis using set by blast
  qed
qed

subsection \<open>Concrete arrays\<close>

text \<open>An array of capacity \<open>c\<close> that holds \<open>xs\<close>, for the examples.\<close>

definition array_of :: "u64 \<Rightarrow> nat \<Rightarrow> 'a list \<Rightarrow> 'a u_array" where
  "array_of z c xs = \<lparr>arr_data = Some (map Some xs @ replicate (c - length xs) None), arr_size = z,
     arr_capacity = of_nat c, arr_length = of_nat (length xs)\<rparr>"

lemma array_of_inv:
  assumes "0 < c" "length xs \<le> c" "c * unat z < 2 ^ 63" "z \<noteq> 0"
  shows "arr_inv (array_of z c xs)" "elems (array_of z c xs) = xs"
proof -
  have "c \<le> c * unat z" using assms(4) by (simp add: unat_gt_0 Suc_le_eq)
  with assms(2,3) have "c < 2 ^ 64" "length xs < 2 ^ 64" using less_2p_63_64 by linarith+
  then have "unat (of_nat c :: u64) = c" "unat (of_nat (length xs) :: u64) = length xs"
    by (simp_all add: unat_of_nat take_bit_nat_eq_self)
  then show "arr_inv (array_of z c xs)" "elems (array_of z c xs) = xs"
    using assms by (simp_all add: array_of_def arr_inv_def elems_def unat_gt_0 nth_append)
qed

subsection \<open>The contract of a growable array\<close>

text \<open>
  What the tables of streams, relays and devices rely on: an abstraction to a list, appending
  that may fail without losing anything, reading, finding and removing by index.
\<close>

locale growable =
  fixes inv :: "'v \<Rightarrow> bool"
    and contents :: "'v \<Rightarrow> 'a list"
    and add :: "'a \<Rightarrow> (unit, 'v) op"
    and getv :: "u64 \<Rightarrow> ('a, 'v) op"
    and remove :: "u64 \<Rightarrow> (unit, 'v) op"
    and find :: "'a \<Rightarrow> (u64, 'v) op"
  assumes add_law: "inv v \<Longrightarrow> add x v = (r, v') \<Longrightarrow> inv v' \<and>
      (r = Ok () \<and> contents v' = contents v @ [x] \<or> r = Fail \<and> contents v' = contents v)"
    and getv_law: "inv v \<Longrightarrow> getv i v =
      (if unat i < length (contents v) then (Ok (contents v ! unat i), v) else (Fail, v))"
    and remove_law: "inv v \<Longrightarrow> \<exists>v'. inv v' \<and> (if unat i < length (contents v)
      then remove i v = (Ok (), v') \<and> contents v' = drop_nth (unat i) (contents v)
      else remove i v = (Fail, v') \<and> v' = v)"
    and find_law: "inv v \<Longrightarrow> if x \<in> set (contents v)
      then \<exists>i. find x v = (Ok i, v) \<and> unat i = index_of x (contents v)
      else find x v = (Fail, v)"
begin

lemma add_valid:
  "valid (\<lambda>v. inv v \<and> contents v = xs) (add x)
     (\<lambda>_ v. inv v \<and> contents v = xs @ [x]) (\<lambda>v. inv v \<and> contents v = xs)"
  by (rule validI) (auto dest: add_law, metis add_law prod.collapse res.distinct(3,5))

lemma add_all:
  "valid (\<lambda>v. inv v \<and> contents v = xs) (for_each add ys)
     (\<lambda>_ v. inv v \<and> contents v = xs @ ys) (\<lambda>v. inv v \<and> (\<exists>zs. contents v = xs @ zs))"
proof (induction ys arbitrary: xs)
  case Nil
  then show ?case by (auto intro: valid_ret)
next
  case (Cons y ys)
  have "valid (\<lambda>v. inv v \<and> contents v = xs) (add y)
      (\<lambda>_ v. inv v \<and> contents v = xs @ [y]) (\<lambda>v. inv v \<and> (\<exists>zs. contents v = xs @ zs))"
    by (rule valid_weaken[OF add_valid[of xs y]]) auto
  moreover have "valid (\<lambda>v. inv v \<and> contents v = xs @ [y]) (for_each add ys)
      (\<lambda>_ v. inv v \<and> contents v = xs @ y # ys) (\<lambda>v. inv v \<and> (\<exists>zs. contents v = xs @ zs))"
    by (rule valid_weaken[OF Cons.IH[of "xs @ [y]"]]) auto
  ultimately show ?case by (auto intro: valid_check)
qed

lemma add_getv: "inv v \<Longrightarrow> add x v = (Ok (), v') \<Longrightarrow> unat i = length (contents v) \<Longrightarrow>
    getv i v' = (Ok x, v')"
  using add_law[of v x "Ok ()" v'] by (simp add: getv_law)

text \<open>Finding an element and removing it at the index found.\<close>

lemma find_remove:
  assumes "inv v"
  shows "\<exists>v'. check (find x) remove v = (if x \<in> set (contents v) then Ok () else Fail, v') \<and>
    inv v' \<and> contents v' = remove1 x (contents v)"
proof (cases "x \<in> set (contents v)")
  case True
  then obtain i where i: "find x v = (Ok i, v)" "unat i = index_of x (contents v)"
    using find_law[OF assms, of x] by auto
  with remove_law[OF assms, of i] index_of_less[OF True] obtain v' where
    v': "inv v'" "remove i v = (Ok (), v')" "contents v' = drop_nth (unat i) (contents v)" by auto
  with True i show ?thesis by (simp add: check_def drop_index_of)
next
  case False
  with find_law[OF assms, of x] assms show ?thesis by (simp add: check_def remove1_idem)
qed

end

interpretation ua: growable arr_inv elems "u_array_add av" u_array_getv u_array_remove
  u_array_find_index for av :: allocator
proof
  fix v :: "'a u_array" and x i r v'
  show "arr_inv v \<Longrightarrow> u_array_add av x v = (r, v') \<Longrightarrow> arr_inv v' \<and>
      (r = Ok () \<and> elems v' = elems v @ [x] \<or> r = Fail \<and> elems v' = elems v)"
    by (rule u_array_add_spec)
  show "arr_inv v \<Longrightarrow> u_array_getv i v =
      (if unat i < length (elems v) then (Ok (elems v ! unat i), v) else (Fail, v))"
    by (rule u_array_getv_spec)
  show "arr_inv v \<Longrightarrow> \<exists>v'. arr_inv v' \<and> (if unat i < length (elems v)
      then u_array_remove i v = (Ok (), v') \<and> elems v' = drop_nth (unat i) (elems v)
      else u_array_remove i v = (Fail, v') \<and> v' = v)"
    by (rule u_array_remove_spec)
  show "arr_inv v \<Longrightarrow> if x \<in> set (elems v)
      then \<exists>i. u_array_find_index x v = (Ok i, v) \<and> unat i = index_of x (elems v)
      else u_array_find_index x v = (Fail, v)"
    using u_array_find_index_spec[of v x] index_of_roundtrip[of v x] by simp
qed

subsection \<open>Properties\<close>

text \<open>C23: Appending a sequence of elements to a fresh array stores exactly that sequence, in
  order, however often the block had to be doubled: every index below the length reads back its
  element, every other index is refused.\<close>

theorem array_collects:
  assumes "u_array_init av z c arr = (Ok (), a0)" and "for_each (u_array_add av) xs a0 = (Ok (), a1)"
  shows "arr_inv a1 \<and> elems a1 = xs \<and>
    (\<forall>i. u_array_getv i a1 = (if unat i < length xs then (Ok (xs ! unat i), a1) else (Fail, a1)))"
proof -
  have "arr_inv a0 \<and> elems a0 = []" using u_array_init_spec[OF assms(1)] by auto
  from valid_OkD[OF ua.add_all this assms(2)] show ?thesis by (simp add: u_array_getv_spec)
qed

theorem array_collects_witness:
  "\<exists>a1. for_each (u_array_add (\<lambda>_. True)) [5, 6, 7 :: nat]
      (snd (u_array_init (\<lambda>_. True) 8 2 \<lparr>arr_data = None, arr_size = 0, arr_capacity = 0, arr_length = 0\<rparr>)) = (Ok (), a1) \<and> elems a1 = [5, 6, 7]"
proof -
  let ?a = "\<lparr>arr_data = None, arr_size = 0, arr_capacity = 0, arr_length = 0\<rparr> :: nat u_array"
  have i: "u_array_init (\<lambda>_. True) 8 2 ?a = (Ok (), snd (u_array_init (\<lambda>_. True) 8 2 ?a))"
    by (simp add: u_array_init_def granted_def)
  have "fst (for_each (u_array_add (\<lambda>_. True)) [5, 6, 7 :: nat] (snd (u_array_init (\<lambda>_. True) 8 2 ?a))) = Ok ()"
    by (simp add: u_array_init_def granted_def u_array_add_def u_array_resize_def resize_def op_simps store_cell_def slot_def Let_def)
  then obtain a1 where a1: "for_each (u_array_add (\<lambda>_. True)) [5, 6, 7 :: nat] (snd (u_array_init (\<lambda>_. True) 8 2 ?a)) = (Ok (), a1)"
    by (metis prod.collapse)
  with array_collects[OF i a1] show ?thesis by blast
qed

text \<open>C24: \<open>u_array_find_index\<close> followed by \<open>u_array_remove\<close>, the way the daemon drops a stream
  from its tables, removes the first occurrence of the element and nothing else, moving the rest
  down; on an absent element it fails and leaves the array alone.\<close>

theorem array_find_remove:
  assumes "arr_inv arr"
  shows "\<exists>arr'. check (u_array_find_index x) u_array_remove arr =
      (if x \<in> set (elems arr) then Ok () else Fail, arr') \<and>
    arr_inv arr' \<and> elems arr' = remove1 x (elems arr)"
  using assms by (rule ua.find_remove)

theorem array_find_remove_witness:
  "\<exists>arr'. check (u_array_find_index (6 :: nat)) u_array_remove (array_of 8 4 [5, 6, 7, 6]) = (Ok (), arr') \<and>
    elems arr' = [5, 7, 6]"
  using array_find_remove[of "array_of 8 4 [5, 6, 7, 6]" "6 :: nat"] by (auto simp: array_of_inv)

text \<open>C25: \<open>u_array_set\<close> on a well-formed array always returns: the growing loop ends because each round
  doubles the capacity or fails.  It fails only when the index is beyond the capacity and the allocator
  refuses one of the requests for growing (each at most twice the bytes in front of the index), and then
  loses nothing.  When it succeeds, the block is the old one, grown by unwritten cells, with the element
  stored at the index, and the length covers the index: inside the live elements it overwrites, right
  behind them it appends; further on the cells in the gap count as elements although nobody has written
  them.\<close>

theorem array_set_returns:
  assumes "arr_inv arr"
  shows "\<exists>r arr'. u_array_set av x i arr = Some (r, arr') \<and>
    (r = Fail \<and> arr_capacity arr \<le> i \<and> (\<exists>n \<le> 2 * unat i * unat (arr_size arr). \<not> granted av n) \<and>
       arr_inv arr' \<and> elems arr' = elems arr \<or>
     r = Ok () \<and> (\<exists>m. arr_data arr' = Some ((the (arr_data arr) @ replicate m None)[unat i := Some x]) \<and>
         unat i < length (the (arr_data arr)) + m) \<and>
       unat (arr_length arr') = max (length (elems arr)) (unat i + 1) \<and>
       (unat i \<le> length (elems arr) \<longrightarrow> arr_inv arr' \<and>
          elems arr' = (if unat i < length (elems arr) then (elems arr)[unat i := x] else elems arr @ [x])))"
  using assms by (rule u_array_set_spec)

theorem array_set_returns_witness:
  "(\<exists>a. u_array_set (\<lambda>_. False) 9 1 (array_of 8 2 [5, 6 :: nat]) = Some (Ok (), a) \<and> elems a = [5, 9]) \<and>
   (\<exists>a. u_array_set (\<lambda>_. True) 9 2 (array_of 8 2 [5, 6 :: nat]) = Some (Ok (), a) \<and> elems a = [5, 6, 9]) \<and>
   (\<exists>a. u_array_set (\<lambda>_. True) 9 3 (array_of 8 2 [5, 6 :: nat]) = Some (Ok (), a) \<and> unat (arr_length a) = 4 \<and>
     the (arr_data a) ! 2 = None \<and> the (arr_data a) ! 3 = Some 9)"
proof -
  let ?a = "array_of 8 2 [5, 6 :: nat]"
  have a: "arr_inv ?a" "elems ?a = [5, 6]" by (simp_all add: array_of_inv)
  have f: "arr_capacity ?a = 2" "arr_size ?a = 8" "arr_data ?a = Some [Some 5, Some 6]" by (simp_all add: array_of_def)
  have g: "granted (\<lambda>_. True) n" if "n \<le> 48" for n using that by (simp add: granted_def)
  note sets = array_set_returns[OF a(1), unfolded a(2) f]
  have 1: "\<exists>a. u_array_set (\<lambda>_. False) 9 1 ?a = Some (Ok (), a) \<and> elems a = [5, 9]"
    using sets[of "\<lambda>_. False" 9 1] by (auto simp: word_le_nat_alt)
  have 2: "\<exists>a. u_array_set (\<lambda>_. True) 9 2 ?a = Some (Ok (), a) \<and> elems a = [5, 6, 9]"
    using sets[of "\<lambda>_. True" 9 2] g by auto
  obtain b m where b: "u_array_set (\<lambda>_. True) 9 3 ?a = Some (Ok (), b)" "arr_data b = Some (([Some 5, Some 6] @ replicate m None)[3 := Some 9])"
    "unat (arr_length b) = 4" "3 < 2 + m" using sets[of "\<lambda>_. True" 9 3] g by auto
  then obtain k where "m = Suc (Suc k)" by (intro that[of "m - 2"]) simp
  then have "the (arr_data b) ! 2 = None \<and> the (arr_data b) ! 3 = Some 9" using b(2) by simp
  with b 1 2 show ?thesis by blast
qed

text \<open>\<open>u_array_delete\<close> drops the last element of a non-empty array.  It does not guard
  against the empty array: there the length wraps to the largest \<open>size_t\<close> and the array is no longer
  well formed.\<close>

theorem array_delete_underflow:
  assumes "arr_inv arr"
  shows "\<exists>arr'. u_array_delete arr = (Ok (), arr') \<and>
    (if elems arr = [] then unat (arr_length arr') = 2 ^ 64 - 1 \<and> \<not> arr_inv arr'
     else arr_inv arr' \<and> elems arr' = butlast (elems arr))"
proof (cases "elems arr = []")
  case True
  then have "arr_length arr = 0" using length_elems[OF assms] by (simp add: unat_eq_0)
  moreover have m1: "unat (- 1 :: u64) = 2 ^ 64 - 1"
    by (simp add: unsigned_minus_1_eq_mask mask_eq_exp_minus_1)
  moreover have "\<not> arr_inv (arr\<lparr>arr_length := - 1\<rparr>)"
    using arr_length_less[of "arr\<lparr>arr_length := - 1\<rparr>"] m1 by auto
  ultimately show ?thesis using True assms by (simp add: u_array_delete_def)
next
  case False
  then have nz: "arr_length arr \<noteq> 0" using length_elems[OF assms] by auto
  obtain cs where cs: "arr_data arr = Some cs" "length cs = unat (arr_capacity arr)"
    "unat (arr_length arr) \<le> unat (arr_capacity arr)"
    using assms by (rule arr_invE)
  then have "take (unat (arr_length arr) - 1) cs = butlast (take (unat (arr_length arr)) cs)"
    by (simp add: butlast_take)
  then show ?thesis using False nz assms cs
    by (auto simp: u_array_delete_def unat_minus_1 arr_inv_def elems_def map_butlast)
qed

theorem array_delete_underflow_witness:
  "\<exists>arr'. u_array_delete (array_of 8 2 ([] :: nat list)) = (Ok (), arr') \<and>
    unat (arr_length arr') = 18446744073709551615"
  using array_delete_underflow[of "array_of 8 2 ([] :: nat list)"] by (auto simp: array_of_inv)

end
