(* ===== verification/Rcn_Queue.thy ===== *)
theory Rcn_Queue
  imports Rcn_Array
begin

section \<open>Queues (\<open>u_queue\<close>, rcn_util.c)\<close>

text \<open>
  \<open>struct u_queue\<close>: a growable array with a flag that caches emptiness.  Elements are pushed at
  the end and popped from index 0.  The locale \<open>fifo\<close> is the contract the stream layer uses.
\<close>

record 'a u_queue =
  q_is_empty :: bool
  q_array :: "'a u_array"

abbreviation on_array :: "('b, 'a u_array) op \<Rightarrow> ('b, 'a u_queue) op" where
  "on_array \<equiv> zoom q_array (\<lambda>arr q. q\<lparr>q_array := arr\<rparr>)"

definition u_queue_init :: "allocator \<Rightarrow> u64 \<Rightarrow> u64 \<Rightarrow> (unit, 'a u_queue) op" where
  "u_queue_init av esize capacity =
     check (on_array (u_array_init av esize capacity))
       (\<lambda>_. modify (\<lambda>q. q\<lparr>q_is_empty := True\<rparr>))"

definition u_queue_push :: "allocator \<Rightarrow> 'a \<Rightarrow> (unit, 'a u_queue) op" where
  "u_queue_push av x =
     check (on_array (u_array_add av x)) (\<lambda>_. modify (\<lambda>q. q\<lparr>q_is_empty := False\<rparr>))"

definition u_queue_peek :: "(nat, 'a u_queue) op" where
  "u_queue_peek q =
     (if q_is_empty q then (Fail, q) else on_array (u_array_getr 0) q)"

definition u_queue_pop :: "('a, 'a u_queue) op" where
  "u_queue_pop q =
     (if q_is_empty q then (Fail, q)
      else check (on_array (u_array_remove_get 0))
        (\<lambda>x. check (modify (\<lambda>q. q\<lparr>q_is_empty := arr_length (q_array q) = 0\<rparr>)) (\<lambda>_. ret x)) q)"

definition u_queue_free :: "(unit, 'a u_queue) op" where
  "u_queue_free q = (Ok (), q\<lparr>q_array := (q_array q)\<lparr>arr_data := None\<rparr>\<rparr>)"

subsection \<open>Invariant and specifications\<close>

definition q_inv :: "'a u_queue \<Rightarrow> bool" where
  "q_inv q \<longleftrightarrow> arr_inv (q_array q) \<and> (q_is_empty q \<longleftrightarrow> arr_length (q_array q) = 0)"

definition q_items :: "'a u_queue \<Rightarrow> 'a list" where
  "q_items q = elems (q_array q)"

lemma q_empty_iff: "q_inv q \<Longrightarrow> q_is_empty q \<longleftrightarrow> q_items q = []"
  using length_elems[of "q_array q"] by (auto simp: q_inv_def q_items_def unat_eq_0)

lemma u_queue_init_spec:
  assumes "u_queue_init av z c q = (r, q')"
  shows "r = Ok () \<and> q_inv q' \<and> q_items q' = [] \<or> r = Fail"
proof -
  obtain r' a where a: "u_array_init av z c (q_array q) = (r', a)" by fastforce
  from u_array_init_spec[OF a] a assms show ?thesis
    using length_elems[of a]
    by (auto simp: u_queue_init_def op_simps q_inv_def q_items_def unat_eq_0)
qed

lemma u_queue_push_spec:
  assumes inv: "q_inv q" and r: "u_queue_push av x q = (r, q')"
  shows "q_inv q' \<and> (r = Ok () \<and> q_items q' = q_items q @ [x] \<or> r = Fail \<and> q_items q' = q_items q)"
proof -
  obtain r' a where a: "u_array_add av x (q_array q) = (r', a)" by fastforce
  from inv have "arr_inv (q_array q)" by (simp add: q_inv_def)
  note spec = u_array_add_spec[OF this a]
  have len: "length (elems a) = unat (arr_length a)" using spec length_elems by blast
  show ?thesis
  proof (cases r')
    case (Ok u)
    with a r have "r = Ok ()" "q' = q\<lparr>q_array := a, q_is_empty := False\<rparr>"
      by (auto simp: u_queue_push_def op_simps)
    with Ok spec len show ?thesis
      by (auto simp: q_inv_def q_items_def)
  next
    case Fail
    with a r have r': "r = Fail" "q' = q\<lparr>q_array := a\<rparr>"
      by (auto simp: u_queue_push_def op_simps)
    have "arr_length a = 0 \<longleftrightarrow> elems a = []" using len by (auto simp: unat_eq_0)
    moreover have "arr_length (q_array q) = 0 \<longleftrightarrow> elems (q_array q) = []"
      using inv length_elems[of "q_array q"] by (auto simp: q_inv_def unat_eq_0)
    ultimately show ?thesis using r' Fail spec inv by (auto simp: q_inv_def q_items_def)
  qed (use spec in auto)
qed

lemma u_queue_peek_spec:
  "q_inv q \<Longrightarrow> u_queue_peek q = (if q_items q = [] then (Fail, q) else (Ok 0, q))"
  using q_empty_iff[of q]
  by (auto simp: u_queue_peek_def zoom_def q_inv_def q_items_def u_array_getr_spec)

lemma u_queue_pop_spec:
  assumes inv: "q_inv q"
  shows "case q_items q of [] \<Rightarrow> u_queue_pop q = (Fail, q)
    | x # xs \<Rightarrow> \<exists>q'. u_queue_pop q = (Ok x, q') \<and> q_inv q' \<and> q_items q' = xs"
proof (cases "q_items q")
  case Nil
  with q_empty_iff[OF inv] show ?thesis by (simp add: u_queue_pop_def)
next
  case (Cons x xs)
  have arr: "arr_inv (q_array q)" using inv by (simp add: q_inv_def)
  from u_array_remove_get_spec[OF this, of 0] Cons obtain a where
    a: "u_array_remove_get 0 (q_array q) = (Ok x, a)" "arr_inv a" "elems a = xs"
    by (auto simp: q_items_def)
  have "\<not> q_is_empty q" using q_empty_iff[OF inv] Cons by simp
  then have "u_queue_pop q = (Ok x, q\<lparr>q_array := a, q_is_empty := arr_length a = 0\<rparr>)"
    using a by (simp add: u_queue_pop_def op_simps)
  with Cons a show ?thesis by (simp add: q_inv_def q_items_def)
qed

subsection \<open>The contract of a queue\<close>

locale fifo =
  fixes inv :: "'q \<Rightarrow> bool"
    and contents :: "'q \<Rightarrow> 'a list"
    and empty_flag :: "'q \<Rightarrow> bool"
    and push :: "'a \<Rightarrow> (unit, 'q) op"
    and pop :: "('a, 'q) op"
  assumes flag_law: "inv q \<Longrightarrow> empty_flag q \<longleftrightarrow> contents q = []"
    and push_law: "inv q \<Longrightarrow> push x q = (r, q') \<Longrightarrow> inv q' \<and>
      (r = Ok () \<and> contents q' = contents q @ [x] \<or> r = Fail \<and> contents q' = contents q)"
    and pop_law: "inv q \<Longrightarrow> contents q = x # xs \<Longrightarrow>
      \<exists>q'. pop q = (Ok x, q') \<and> inv q' \<and> contents q' = xs"
    and pop_empty_law: "inv q \<Longrightarrow> contents q = [] \<Longrightarrow> pop q = (Fail, q)"
begin

text \<open>An item pushed behind \<open>xs\<close> comes out after exactly \<open>length xs\<close> pops.\<close>

lemma pops_prefix:
  "inv q \<Longrightarrow> contents q = xs @ ys \<Longrightarrow>
    \<exists>q'. repeated (length xs) pop q = (Ok xs, q') \<and> inv q' \<and> contents q' = ys"
proof (induction xs arbitrary: q)
  case Nil
  then show ?case by (simp add: ret_def)
next
  case (Cons x xs)
  then obtain q1 where q1: "pop q = (Ok x, q1)" "inv q1" "contents q1 = xs @ ys"
    using pop_law[of q x "xs @ ys"] by auto
  from Cons.IH[OF this(2,3)] obtain q' where
    "repeated (length xs) pop q1 = (Ok xs, q')" "inv q'" "contents q' = ys" by blast
  with q1 show ?case by (simp add: check_def ret_def)
qed

lemma push_then_pops:
  assumes "inv q" and "push x q = (Ok (), q')"
  shows "\<exists>q''. repeated (Suc (length (contents q))) pop q' = (Ok (contents q @ [x]), q'')
    \<and> inv q'' \<and> contents q'' = []"
  using push_law[OF assms] pops_prefix[of q' "contents q @ [x]" "[]"] by auto

lemma push_not_empty: "inv q \<Longrightarrow> push x q = (Ok (), q') \<Longrightarrow> \<not> empty_flag q'"
  using push_law[of q x "Ok ()" q'] flag_law[of q'] by auto

lemma push_safe: "inv q \<Longrightarrow> fst (push x q) \<noteq> Undef"
  using push_law[of q x] by (cases "push x q") auto

end

interpretation uq: fifo q_inv q_items q_is_empty "u_queue_push av" u_queue_pop
  for av :: allocator
proof
  fix q :: "'a u_queue" and x xs r q'
  show "q_inv q \<Longrightarrow> q_is_empty q \<longleftrightarrow> q_items q = []"
    by (rule q_empty_iff)
  show "q_inv q \<Longrightarrow> u_queue_push av x q = (r, q') \<Longrightarrow> q_inv q' \<and>
      (r = Ok () \<and> q_items q' = q_items q @ [x] \<or> r = Fail \<and> q_items q' = q_items q)"
    by (rule u_queue_push_spec)
  show "q_inv q \<Longrightarrow> q_items q = x # xs \<Longrightarrow>
      \<exists>q'. u_queue_pop q = (Ok x, q') \<and> q_inv q' \<and> q_items q' = xs"
    using u_queue_pop_spec[of q] by simp
  show "q_inv q \<Longrightarrow> q_items q = [] \<Longrightarrow> u_queue_pop q = (Fail, q)"
    using u_queue_pop_spec[of q] by simp
qed

subsection \<open>Properties\<close>

text \<open>C26: Queues are first-in first-out: an element pushed behind \<open>n\<close> others is the last of the
  next \<open>n + 1\<close> pops, which deliver all elements in the order they were pushed and leave the queue
  flagged empty.\<close>

theorem queue_fifo:
  assumes "q_inv q" and "u_queue_push av x q = (Ok (), q')"
  shows "\<exists>q''. repeated (Suc (length (q_items q))) u_queue_pop q' = (Ok (q_items q @ [x]), q'') \<and>
    q_inv q'' \<and> q_is_empty q''"
  using uq.push_then_pops[OF assms] q_empty_iff by blast

theorem queue_fifo_witness:
  "\<exists>q' q''. u_queue_push (\<lambda>_. True) 7 \<lparr>q_is_empty = False, q_array = array_of 8 4 [5, 6 :: nat]\<rparr> = (Ok (), q') \<and>
    repeated 3 u_queue_pop q' = (Ok [5, 6, 7], q'') \<and> q_is_empty q''"
proof -
  let ?q = "\<lparr>q_is_empty = False, q_array = array_of 8 4 [5, 6 :: nat]\<rparr>"
  have q: "q_inv ?q" "q_items ?q = [5, 6]"
    by (simp_all add: q_inv_def q_items_def array_of_inv) (simp add: array_of_def)
  have "fst (u_queue_push (\<lambda>_. True) 7 ?q) = Ok ()"
    by (simp add: u_queue_push_def u_array_add_def op_simps store_cell_def slot_def array_of_def Let_def)
  then obtain q' where q': "u_queue_push (\<lambda>_. True) 7 ?q = (Ok (), q')" by (metis prod.collapse)
  from queue_fifo[OF q(1) q'] obtain q'' where
    "repeated (Suc (length (q_items ?q))) u_queue_pop q' = (Ok (q_items ?q @ [7]), q'')" "q_is_empty q''" by blast
  with q' show ?thesis unfolding q(2) by (auto simp: eval_nat_numeral)
qed

end
