(* ===== verification/Rcn_Types.thy ===== *)
theory Rcn_Types
  imports Rcn_Queue
begin

section \<open>The program's data types (include/rcn_types.h, rcn_relay.h, rcn_peer.h, rcn_device.h)\<close>

text \<open>
  Enumerations as datatypes, structs as records.  The union in \<open>struct stream_item\<close> (a socket
  message or an input event) is kept as the 24 bytes it is, little-endian with 64-bit
  pointers, because the code reads a member other than the one it wrote: bytes 0--7 are
  \<open>msg.header.size\<close> or \<open>evt.time.tv_sec\<close>, bytes 8--11 \<open>msg.header.value\<close> (with 12--15 the second
  half of \<open>evt.time.tv_usec\<close>) and bytes 16--23 the pointer \<open>msg.buffer\<close> or the type, code and value
  of the event.
\<close>

type_synonym addr = u64

datatype rcn_state = RCN_RUNNING | RCN_PAUSED

datatype fd_type = FD_USOCK | FD_RELAY | FD_ISOCK | FD_PEER | FD_UDEV | FD_DEV

datatype stream_type = STREAM_TYPE_SOCKET | STREAM_TYPE_DEVICE

datatype stream_state =
  STREAM_STREAMING_HEADER | STREAM_STREAMING_BODY | STREAM_STREAMING_COMPLETE
  | STREAM_STREAMING_CLOSED

datatype stream_operation = STREAM_OP_WRITING | STREAM_OP_READING

datatype daemon_type = DAEMON_SERVER | DAEMON_CLIENT

datatype relay_msg_header =
  RELAY_HEADER_IDLE | RELAY_HEADER_START | RELAY_HEADER_PAUSE | RELAY_HEADER_PAUSE_AGAIN
  | RELAY_HEADER_RESUME | RELAY_HEADER_RESUME_AGAIN | RELAY_HEADER_NO_PEER | RELAY_HEADER_STOP
  | RELAY_HEADER_SWITCH | RELAY_HEADER_LIST

datatype peer_msg_header =
  PEER_HEADER_DEV_CRT | PEER_HEADER_DEV_UPD_GRAB | PEER_HEADER_EVENT | PEER_HEADER_PAUSE
  | PEER_HEADER_RESUME | PEER_HEADER_STOP

datatype peer_state = PEER_DISCONNECTED | PEER_CONNECTED

text \<open>The integer each enumerator of a message header stands for.\<close>

primrec relay_code :: "relay_msg_header \<Rightarrow> u32" where
  "relay_code RELAY_HEADER_IDLE = 0"
| "relay_code RELAY_HEADER_START = 1"
| "relay_code RELAY_HEADER_PAUSE = 2"
| "relay_code RELAY_HEADER_PAUSE_AGAIN = 3"
| "relay_code RELAY_HEADER_RESUME = 4"
| "relay_code RELAY_HEADER_RESUME_AGAIN = 5"
| "relay_code RELAY_HEADER_NO_PEER = 6"
| "relay_code RELAY_HEADER_STOP = 7"
| "relay_code RELAY_HEADER_SWITCH = 8"
| "relay_code RELAY_HEADER_LIST = 9"

primrec peer_code :: "peer_msg_header \<Rightarrow> u32" where
  "peer_code PEER_HEADER_DEV_CRT = 0"
| "peer_code PEER_HEADER_DEV_UPD_GRAB = 1"
| "peer_code PEER_HEADER_EVENT = 2"
| "peer_code PEER_HEADER_PAUSE = 3"
| "peer_code PEER_HEADER_RESUME = 4"
| "peer_code PEER_HEADER_STOP = 5"

text \<open>The headers as finite types, listed in the order of the enumerations.\<close>

instantiation relay_msg_header :: enum
begin

definition "enum_relay_msg_header = [RELAY_HEADER_IDLE, RELAY_HEADER_START, RELAY_HEADER_PAUSE, RELAY_HEADER_PAUSE_AGAIN,
      RELAY_HEADER_RESUME, RELAY_HEADER_RESUME_AGAIN, RELAY_HEADER_NO_PEER, RELAY_HEADER_STOP,
      RELAY_HEADER_SWITCH, RELAY_HEADER_LIST]"

definition enum_all_relay_msg_header :: "(relay_msg_header \<Rightarrow> bool) \<Rightarrow> bool" where
  "enum_all_relay_msg_header p = list_all p Enum.enum"

definition enum_ex_relay_msg_header :: "(relay_msg_header \<Rightarrow> bool) \<Rightarrow> bool" where
  "enum_ex_relay_msg_header p = list_ex p Enum.enum"

instance
proof
  have mem: "h \<in> set Enum.enum" for h :: relay_msg_header by (cases h) (simp_all add: enum_relay_msg_header_def)
  then show "(UNIV :: relay_msg_header set) = set Enum.enum" by auto
  show "distinct (Enum.enum :: relay_msg_header list)" by (simp add: enum_relay_msg_header_def)
  show "Enum.enum_all p \<longleftrightarrow> Ball UNIV p" "Enum.enum_ex p \<longleftrightarrow> Bex UNIV p" for p :: "relay_msg_header \<Rightarrow> bool"
    using mem by (auto simp: enum_all_relay_msg_header_def enum_ex_relay_msg_header_def list_all_iff list_ex_iff)
qed

end

instantiation peer_msg_header :: enum
begin

definition "enum_peer_msg_header = [PEER_HEADER_DEV_CRT, PEER_HEADER_DEV_UPD_GRAB, PEER_HEADER_EVENT, PEER_HEADER_PAUSE,
      PEER_HEADER_RESUME, PEER_HEADER_STOP]"

definition enum_all_peer_msg_header :: "(peer_msg_header \<Rightarrow> bool) \<Rightarrow> bool" where
  "enum_all_peer_msg_header p = list_all p Enum.enum"

definition enum_ex_peer_msg_header :: "(peer_msg_header \<Rightarrow> bool) \<Rightarrow> bool" where
  "enum_ex_peer_msg_header p = list_ex p Enum.enum"

instance
proof
  have mem: "h \<in> set Enum.enum" for h :: peer_msg_header by (cases h) (simp_all add: enum_peer_msg_header_def)
  then show "(UNIV :: peer_msg_header set) = set Enum.enum" by auto
  show "distinct (Enum.enum :: peer_msg_header list)" by (simp add: enum_peer_msg_header_def)
  show "Enum.enum_all p \<longleftrightarrow> Ball UNIV p" "Enum.enum_ex p \<longleftrightarrow> Bex UNIV p" for p :: "peer_msg_header \<Rightarrow> bool"
    using mem by (auto simp: enum_all_peer_msg_header_def enum_ex_peer_msg_header_def list_all_iff list_ex_iff)
qed

end

text \<open>The enumerator a \<open>switch\<close> over a received header value selects, if any.\<close>

definition relay_of_code :: "u32 \<Rightarrow> relay_msg_header option" where
  "relay_of_code v = find (\<lambda>h. relay_code h = v) Enum.enum"

definition peer_of_code :: "u32 \<Rightarrow> peer_msg_header option" where
  "peer_of_code v = find (\<lambda>h. peer_code h = v) Enum.enum"

lemma relay_code_inject [simp]: "relay_code h = relay_code k \<longleftrightarrow> h = k"
  by (cases h; cases k) simp_all

lemma peer_code_inject [simp]: "peer_code h = peer_code k \<longleftrightarrow> h = k"
  by (cases h; cases k) simp_all

lemma find_code:
  assumes "\<And>h k. code h = code k \<longleftrightarrow> h = k"
  shows "find (\<lambda>h. code h = v) Enum.enum = Some h \<longleftrightarrow> v = code (h :: 'a :: enum)"
proof (cases "find (\<lambda>h. code h = v) (Enum.enum :: 'a list)")
  case None
  then have "\<forall>h :: 'a. code h \<noteq> v" by (simp add: find_None_iff enum_UNIV)
  with None show ?thesis by (metis option.distinct(1))
next
  case (Some k)
  then have "code k = v" by (auto simp: find_Some_iff)
  with Some show ?thesis using assms by auto
qed

lemma relay_of_code_iff: "relay_of_code v = Some h \<longleftrightarrow> v = relay_code h"
  unfolding relay_of_code_def by (rule find_code) simp

lemma peer_of_code_iff: "peer_of_code v = Some h \<longleftrightarrow> v = peer_code h"
  unfolding peer_of_code_def by (rule find_code) simp

lemma relay_of_code [simp]: "relay_of_code (relay_code h) = Some h"
  by (simp add: relay_of_code_iff)

lemma peer_of_code [simp]: "peer_of_code (peer_code h) = Some h"
  by (simp add: peer_of_code_iff)

subsection \<open>Stream items\<close>

record stream_header =
  h_size :: u64
  h_value :: u32

record input_event =
  tv_sec :: u64
  tv_usec :: u64
  ev_type :: u16
  ev_code :: u16
  ev_value :: u32

record stream_item =
  i_payload :: "byte list"
  i_streamed :: u64
  i_type :: stream_type
  i_state :: stream_state
  i_op :: stream_operation

text \<open>\<open>sizeof\<close> of the structs on the platform (LP64).\<close>

definition sizeof_header :: nat where "sizeof_header = 16"
definition sizeof_event :: nat where "sizeof_event = 24"
definition sizeof_stream_item :: nat where "sizeof_stream_item = 48"
definition sizeof_epoll_stream :: nat where "sizeof_epoll_stream = 112"

text \<open>The struct \<open>stream_header\<close> as bytes, its last four padding.\<close>

definition enc_header :: "stream_header \<Rightarrow> byte list" where
  "enc_header h = bytes_u64 (h_size h) @ bytes_u32 (h_value h) @ [0, 0, 0, 0]"

definition dec_header :: "byte list \<Rightarrow> stream_header" where
  "dec_header bs = \<lparr>h_size = le_u64 (take 8 bs), h_value = le_u32 (take 4 (drop 8 bs))\<rparr>"

definition enc_event :: "input_event \<Rightarrow> byte list" where
  "enc_event e = bytes_u64 (tv_sec e) @ bytes_u64 (tv_usec e) @ bytes_u16 (ev_type e)
     @ bytes_u16 (ev_code e) @ bytes_u32 (ev_value e)"

definition dec_event :: "byte list \<Rightarrow> input_event" where
  "dec_event bs = \<lparr>tv_sec = le_u64 (take 8 bs), tv_usec = le_u64 (take 8 (drop 8 bs)),
     ev_type = le_u16 (take 2 (drop 16 bs)), ev_code = le_u16 (take 2 (drop 18 bs)),
     ev_value = le_u32 (take 4 (drop 20 bs))\<rparr>"

text \<open>Members of the union.\<close>

definition msg_header :: "stream_item \<Rightarrow> stream_header" where
  "msg_header it = dec_header (i_payload it)"

definition msg_buffer :: "stream_item \<Rightarrow> addr" where
  "msg_buffer it = le_u64 (take 8 (drop 16 (i_payload it)))"

definition set_header :: "stream_header \<Rightarrow> stream_item \<Rightarrow> stream_item" where
  "set_header h it = it\<lparr>i_payload := enc_header h @ drop 16 (i_payload it)\<rparr>"

definition set_buffer :: "addr \<Rightarrow> stream_item \<Rightarrow> stream_item" where
  "set_buffer a it = it\<lparr>i_payload := take 16 (i_payload it) @ bytes_u64 a\<rparr>"

definition item_event :: "stream_item \<Rightarrow> input_event" where
  "item_event it = dec_event (i_payload it)"

definition set_event :: "input_event \<Rightarrow> stream_item \<Rightarrow> stream_item" where
  "set_event e it = it\<lparr>i_payload := enc_event e\<rparr>"

text \<open>\<open>struct stream_item x = {}\<close>: all bytes zero, so every enumeration its first member.\<close>

definition zero_item :: stream_item where
  "zero_item = \<lparr>i_payload = replicate 24 0, i_streamed = 0, i_type = STREAM_TYPE_SOCKET,
     i_state = STREAM_STREAMING_HEADER, i_op = STREAM_OP_WRITING\<rparr>"

text \<open>
  The pointer \<open>next\<close> of a stream: the code only ever stores the address of the stream's own
  fallback item in it, or the address \<open>u_queue_peek\<close> gives, the first cell of the queue.
\<close>

datatype next_ptr = At_fallback | At_head

record epoll_stream =
  s_fallback :: stream_item
  s_next :: next_ptr
  s_queue :: "stream_item u_queue"
  s_default_op :: stream_operation
  s_default_type :: stream_type
  s_fd_type :: fd_type
  s_fd :: int

lemma length_enc_header [simp]: "length (enc_header h) = 16"
  by (simp add: enc_header_def)

lemma length_enc_event [simp]: "length (enc_event e) = 24"
  by (simp add: enc_event_def)

lemma dec_enc_header [simp]: "dec_header (enc_header h @ bs) = h"
  by (simp add: dec_header_def enc_header_def)

lemma dec_enc_event [simp]: "dec_event (enc_event e) = e"
  by (simp add: dec_event_def enc_event_def)

lemma msg_set_header [simp]:
  "msg_header (set_header h it) = h"
  "length (i_payload it) = 24 \<Longrightarrow> msg_buffer (set_header h it) = msg_buffer it"
  by (simp_all add: msg_header_def set_header_def msg_buffer_def)

lemma msg_set_buffer [simp]:
  "length (i_payload it) = 24 \<Longrightarrow> msg_buffer (set_buffer a it) = a"
  "length (i_payload it) = 24 \<Longrightarrow> msg_header (set_buffer a it) = msg_header it"
  by (simp_all add: msg_header_def set_buffer_def msg_buffer_def dec_header_def min_def
      drop_take)

lemma item_set_event [simp]: "item_event (set_event e it) = e"
  by (simp add: item_event_def set_event_def)

lemma item_frame [simp]:
  "i_type (set_header h it) = i_type it" "i_state (set_header h it) = i_state it"
  "i_op (set_header h it) = i_op it" "i_streamed (set_header h it) = i_streamed it"
  "i_type (set_buffer a it) = i_type it" "i_state (set_buffer a it) = i_state it"
  "i_op (set_buffer a it) = i_op it" "i_streamed (set_buffer a it) = i_streamed it"
  "i_type (set_event e it) = i_type it" "i_state (set_event e it) = i_state it"
  "i_op (set_event e it) = i_op it" "i_streamed (set_event e it) = i_streamed it"
  by (simp_all add: set_header_def set_buffer_def set_event_def)

lemma length_set_payload [simp]:
  "length (i_payload it) = 24 \<Longrightarrow> length (i_payload (set_header h it)) = 24"
  "length (i_payload it) = 24 \<Longrightarrow> length (i_payload (set_buffer a it)) = 24"
  "length (i_payload (set_event e it)) = 24"
  by (simp_all add: set_header_def set_buffer_def set_event_def)

end
