(* ===== verification/Rcn_Memory.thy ===== *)
theory Rcn_Memory
  imports Rcn_Types
begin

section \<open>The process: heap and kernel objects\<close>

text \<open>
  The state the C code works on besides its own structs: the heap blocks that hold
  \<open>struct epoll_stream\<close> objects and message buffers, and what the kernel keeps for the process
  (bytes waiting on and bytes written to each descriptor, the epoll interest list, open
  descriptors).  Blocks are found by their address; an address is never handed out twice, so a
  use after \<open>free\<close> finds no block and is \<open>Undef\<close>.  How many bytes a \<open>read\<close> or \<open>write\<close> transfers,
  and with which error it fails, is an argument (\<open>io_ans\<close>) chosen by the environment.
\<close>

datatype ep_mask = EPOLLIN | EPOLLOUT

record mem =
  m_streams :: "addr \<Rightarrow> epoll_stream option"
  m_bufs :: "addr \<Rightarrow> byte list option"
  m_brk :: addr
  m_av :: allocator
  k_in :: "int \<Rightarrow> byte list"
  k_out :: "int \<Rightarrow> byte list"
  k_open :: "int \<Rightarrow> bool"
  k_epoll :: "int \<Rightarrow> (ep_mask \<times> addr) option"

subsection \<open>Allocation\<close>

text \<open>\<open>calloc\<close> and \<open>malloc\<close>: the null pointer \<open>0\<close> or a fresh address.\<close>

definition fresh :: "nat \<Rightarrow> 'z mem_scheme \<Rightarrow> bool" where
  "fresh n w \<longleftrightarrow> granted (m_av w) n \<and> unat (m_brk w) + 16 < 2 ^ 64"

definition calloc_buffer :: "nat \<Rightarrow> 'z mem_scheme \<Rightarrow> addr \<times> 'z mem_scheme" where
  "calloc_buffer n w =
     (if fresh n w
      then (m_brk w, w\<lparr>m_bufs := (m_bufs w)(m_brk w \<mapsto> replicate n 0), m_brk := m_brk w + 16\<rparr>)
      else (0, w))"

definition free_buffer :: "addr \<Rightarrow> (unit, 'z mem_scheme) op" where
  "free_buffer a w =
     (if a = 0 then (Ok (), w)
      else if m_bufs w a = None then (Undef, w)
      else (Ok (), w\<lparr>m_bufs := (m_bufs w)(a := None)\<rparr>))"

definition zero_stream :: epoll_stream where
  "zero_stream = \<lparr>s_fallback = zero_item, s_next = At_fallback,
     s_queue = \<lparr>q_is_empty = False,
       q_array = \<lparr>arr_data = None, arr_size = 0, arr_capacity = 0, arr_length = 0\<rparr>\<rparr>,
     s_default_op = STREAM_OP_WRITING, s_default_type = STREAM_TYPE_SOCKET,
     s_fd_type = FD_USOCK, s_fd = 0\<rparr>"

definition calloc_stream :: "'z mem_scheme \<Rightarrow> addr \<times> 'z mem_scheme" where
  "calloc_stream w =
     (if fresh sizeof_epoll_stream w
      then (m_brk w, w\<lparr>m_streams := (m_streams w)(m_brk w \<mapsto> zero_stream), m_brk := m_brk w + 16\<rparr>)
      else (0, w))"

definition free_stream :: "addr \<Rightarrow> (unit, 'z mem_scheme) op" where
  "free_stream a w =
     (if a = 0 then (Ok (), w)
      else if m_streams w a = None then (Undef, w)
      else (Ok (), w\<lparr>m_streams := (m_streams w)(a := None)\<rparr>))"

text \<open>Dereferencing a \<open>struct epoll_stream*\<close>.\<close>

definition deref :: "addr \<Rightarrow> (epoll_stream, 'z mem_scheme) op" where
  "deref a w = (case m_streams w a of None \<Rightarrow> (Undef, w) | Some s \<Rightarrow> (Ok s, w))"

definition put_stream :: "addr \<Rightarrow> epoll_stream \<Rightarrow> 'z mem_scheme \<Rightarrow> 'z mem_scheme" where
  "put_stream a s w = w\<lparr>m_streams := (m_streams w)(a \<mapsto> s)\<rparr>"

definition on_stream :: "addr \<Rightarrow> ('a, epoll_stream) op \<Rightarrow> ('a, 'z mem_scheme) op" where
  "on_stream a m w = (case m_streams w a of
      None \<Rightarrow> (Undef, w)
    | Some s \<Rightarrow> (case m s of (r, s') \<Rightarrow> (r, put_stream a s' w)))"

subsection \<open>System calls\<close>

datatype io_ans = Io nat | Io_again | Io_nodev | Io_error

datatype io_res = Streamed nat | Err_again | Err_nodev | Err_other

text \<open>\<open>close\<close> also drops the descriptor from the interest list.\<close>

definition sys_close :: "int \<Rightarrow> 'z mem_scheme \<Rightarrow> 'z mem_scheme" where
  "sys_close fd w = w\<lparr>k_open := (k_open w)(fd := False), k_epoll := (k_epoll w)(fd := None)\<rparr>"

datatype ep_res = Ep_ok | Ep_exist | Ep_noent | Ep_badf

definition epoll_ctl_add :: "int \<Rightarrow> ep_mask \<Rightarrow> addr \<Rightarrow> 'z mem_scheme \<Rightarrow> ep_res \<times> 'z mem_scheme" where
  "epoll_ctl_add fd m p w =
     (if \<not> k_open w fd then (Ep_badf, w)
      else if k_epoll w fd \<noteq> None then (Ep_exist, w)
      else (Ep_ok, w\<lparr>k_epoll := (k_epoll w)(fd \<mapsto> (m, p))\<rparr>))"

definition epoll_ctl_mod :: "int \<Rightarrow> ep_mask \<Rightarrow> addr \<Rightarrow> 'z mem_scheme \<Rightarrow> ep_res \<times> 'z mem_scheme" where
  "epoll_ctl_mod fd m p w =
     (if \<not> k_open w fd then (Ep_badf, w)
      else if k_epoll w fd = None then (Ep_noent, w)
      else (Ep_ok, w\<lparr>k_epoll := (k_epoll w)(fd \<mapsto> (m, p))\<rparr>))"

definition epoll_ctl_del :: "int \<Rightarrow> 'z mem_scheme \<Rightarrow> ep_res \<times> 'z mem_scheme" where
  "epoll_ctl_del fd w =
     (if \<not> k_open w fd then (Ep_badf, w)
      else if k_epoll w fd = None then (Ep_noent, w)
      else (Ep_ok, w\<lparr>k_epoll := (k_epoll w)(fd := None)\<rparr>))"

subsection \<open>Heap lemmas\<close>

text \<open>Every block lies below the next free address, and no block is at the null pointer.\<close>

definition heap_ok :: "'z mem_scheme \<Rightarrow> bool" where
  "heap_ok w \<longleftrightarrow> 0 < unat (m_brk w) \<and>
     (\<forall>a. m_streams w a \<noteq> None \<or> m_bufs w a \<noteq> None \<longrightarrow> a \<noteq> 0 \<and> unat a < unat (m_brk w))"

lemma fresh_brk: "fresh n w \<Longrightarrow> unat (m_brk w + 16) = unat (m_brk w) + 16"
  by (subst unat_add_small) (simp_all add: fresh_def)

lemma heap_ok_unused: "heap_ok w \<Longrightarrow> m_bufs w (m_brk w) = None \<and> m_streams w (m_brk w) = None \<and> m_brk w \<noteq> 0"
  unfolding heap_ok_def by (metis less_irrefl unat_0)

lemma heap_ok_grow:
  assumes "heap_ok w" and "fresh n w" and "m_brk w' = m_brk w + 16"
    and "\<And>a. a \<noteq> m_brk w \<Longrightarrow> m_streams w' a = m_streams w a \<and> m_bufs w' a = m_bufs w a"
  shows "heap_ok w'"
  unfolding heap_ok_def
proof (intro conjI allI impI)
  note brk = fresh_brk[OF assms(2)]
  show "0 < unat (m_brk w')" using brk assms(3) by simp
  fix a assume a: "m_streams w' a \<noteq> None \<or> m_bufs w' a \<noteq> None"
  show "a \<noteq> 0"
    using a assms(1) assms(4)[of a] heap_ok_unused[OF assms(1)] unfolding heap_ok_def by metis
  show "unat a < unat (m_brk w')"
  proof (cases "a = m_brk w")
    case True
    then show ?thesis using brk assms(3) by simp
  next
    case False
    with a assms(4) have "m_streams w a \<noteq> None \<or> m_bufs w a \<noteq> None" by metis
    with assms(1) have "unat a < unat (m_brk w)" unfolding heap_ok_def by blast
    then show ?thesis using brk assms(3) by simp
  qed
qed

lemma calloc_buffer_cases:
  assumes "heap_ok w" and "calloc_buffer n w = (a, w')"
  obtains "a = 0" "w' = w"
  | "a \<noteq> 0" "m_bufs w a = None" "m_streams w a = None" "heap_ok w'"
    "w' = w\<lparr>m_bufs := (m_bufs w)(a \<mapsto> replicate n 0), m_brk := m_brk w + 16\<rparr>"
proof (cases "fresh n w")
  case True
  then have w': "a = m_brk w"
    "w' = w\<lparr>m_bufs := (m_bufs w)(a \<mapsto> replicate n 0), m_brk := m_brk w + 16\<rparr>"
    using assms(2) by (auto simp: calloc_buffer_def)
  moreover have "heap_ok w'" by (rule heap_ok_grow[OF assms(1) True]) (simp_all add: w')
  ultimately show thesis using that(2) heap_ok_unused[OF assms(1)] by simp
next
  case False
  then show thesis using that(1) assms(2) by (simp add: calloc_buffer_def)
qed

lemma calloc_stream_cases:
  assumes "heap_ok w" and "calloc_stream w = (a, w')"
  obtains "a = 0" "w' = w"
  | "a \<noteq> 0" "m_bufs w a = None" "m_streams w a = None" "heap_ok w'"
    "w' = w\<lparr>m_streams := (m_streams w)(a \<mapsto> zero_stream), m_brk := m_brk w + 16\<rparr>"
proof (cases "fresh sizeof_epoll_stream w")
  case True
  then have w': "a = m_brk w"
    "w' = w\<lparr>m_streams := (m_streams w)(a \<mapsto> zero_stream), m_brk := m_brk w + 16\<rparr>"
    using assms(2) by (auto simp: calloc_stream_def)
  moreover have "heap_ok w'" by (rule heap_ok_grow[OF assms(1) True]) (simp_all add: w')
  ultimately show thesis using that(2) heap_ok_unused[OF assms(1)] by simp
next
  case False
  then show thesis using that(1) assms(2) by (simp add: calloc_stream_def)
qed

end
