(* ===== verification/Rcn_Stream.thy ===== *)
theory Rcn_Stream
  imports Rcn_Memory
begin

section \<open>Streams (rcn_stream.c)\<close>

text \<open>
  A \<open>struct epoll_stream\<close> transfers one item at a time over a descriptor: a socket message
  (16-byte header, then a body of \<open>header.size\<close> bytes) or a 24-byte input event.  The item is the
  head of the stream's queue, or the fallback item when the queue is empty.  \<open>stream_stream\<close>
  makes one \<open>read\<close> or \<open>write\<close> and advances the item's state machine
  HEADER \<open>\<rightarrow>\<close> BODY \<open>\<rightarrow>\<close> COMPLETE (or CLOSED); \<open>stream_collect\<close> takes a finished item.
\<close>

subsection \<open>The current item\<close>

definition queue_head :: "epoll_stream \<Rightarrow> stream_item option" where
  "queue_head s = (case arr_data (q_array (s_queue s)) of
      Some (Some it # _) \<Rightarrow> Some it | _ \<Rightarrow> None)"

text \<open>\<open>*stream->next\<close>\<close>

definition next_item :: "epoll_stream \<Rightarrow> stream_item option" where
  "next_item s = (case s_next s of At_fallback \<Rightarrow> Some (s_fallback s) | At_head \<Rightarrow> queue_head s)"

definition put_head :: "stream_item \<Rightarrow> epoll_stream \<Rightarrow> epoll_stream" where
  "put_head it s = s\<lparr>s_queue := (s_queue s)\<lparr>q_array := (q_array (s_queue s))\<lparr>arr_data :=
     (case arr_data (q_array (s_queue s)) of Some (c # cs) \<Rightarrow> Some (Some it # cs) | d \<Rightarrow> d)\<rparr>\<rparr>\<rparr>"

definition put_next :: "stream_item \<Rightarrow> epoll_stream \<Rightarrow> epoll_stream" where
  "put_next it s = (case s_next s of At_fallback \<Rightarrow> s\<lparr>s_fallback := it\<rparr> | At_head \<Rightarrow> put_head it s)"

definition load_next :: "addr \<Rightarrow> (stream_item, 'z mem_scheme) op" where
  "load_next a = check (deref a) (\<lambda>s. case next_item s of Some it \<Rightarrow> ret it | None \<Rightarrow> undef)"

definition store_next :: "addr \<Rightarrow> stream_item \<Rightarrow> (unit, 'z mem_scheme) op" where
  "store_next a it = on_stream a (modify (put_next it))"

abbreviation on_queue :: "('b, stream_item u_queue) op \<Rightarrow> ('b, epoll_stream) op" where
  "on_queue \<equiv> zoom s_queue (\<lambda>q s. s\<lparr>s_queue := q\<rparr>)"

subsection \<open>Set-up\<close>

definition stream_set_default ::
  "addr \<Rightarrow> stream_operation \<Rightarrow> stream_type \<Rightarrow> (unit, 'z mem_scheme) op" where
  "stream_set_default a default_op default_type =
     check_not (a = 0)
     (check (deref a) (\<lambda>s. let it = s_fallback s in
        check (if i_type it = STREAM_TYPE_SOCKET \<and> msg_buffer it \<noteq> 0
               then check (free_buffer (msg_buffer it))
                 (\<lambda>_. on_stream a (modify (\<lambda>s. s\<lparr>s_fallback := set_buffer 0 (s_fallback s)\<rparr>)))
               else ret ())
        (\<lambda>_. on_stream a (modify (\<lambda>s. s\<lparr>
           s_fallback := (s_fallback s)\<lparr>i_streamed := 0, i_state := STREAM_STREAMING_HEADER,
             i_op := default_op, i_type := default_type\<rparr>,
           s_default_op := default_op, s_default_type := default_type\<rparr>)))))"

definition stream_clear_fallback :: "addr \<Rightarrow> (unit, 'z mem_scheme) op" where
  "stream_clear_fallback a =
     check (deref a) (\<lambda>s. stream_set_default a (s_default_op s) (s_default_type s))"

text \<open>\<open>RCN_STD_CAPACITY\<close>\<close>

definition rcn_std_capacity :: u64 where "rcn_std_capacity = 10"

definition stream_init :: "addr \<Rightarrow> int \<Rightarrow> fd_type \<Rightarrow> (unit, 'z mem_scheme) op" where
  "stream_init a fd ty =
     check (on_stream a (modify (\<lambda>s. s\<lparr>s_fd := fd, s_next := At_fallback\<rparr>))) (\<lambda>_.
     check (gets m_av) (\<lambda>av.
     check (on_stream a (on_queue
       (u_queue_init av (of_nat sizeof_stream_item) rcn_std_capacity))) (\<lambda>_.
       (case ty of
          FD_PEER \<Rightarrow> stream_set_default a STREAM_OP_READING STREAM_TYPE_SOCKET
        | FD_RELAY \<Rightarrow> stream_set_default a STREAM_OP_READING STREAM_TYPE_SOCKET
        | FD_DEV \<Rightarrow> stream_set_default a STREAM_OP_READING STREAM_TYPE_DEVICE
        | FD_UDEV \<Rightarrow> stream_set_default a STREAM_OP_WRITING STREAM_TYPE_DEVICE
        | FD_USOCK \<Rightarrow> ret ()
        | FD_ISOCK \<Rightarrow> ret ()))))"

subsection \<open>Queueing\<close>

text \<open>\<open>e_epoll_sync_stream\<close> (rcn_epoll.c): the interest follows the operation of the current item.\<close>

definition e_epoll_sync_stream :: "addr \<Rightarrow> (unit, 'z mem_scheme) op" where
  "e_epoll_sync_stream a =
     check (load_next a) (\<lambda>it. check (deref a) (\<lambda>s w.
       case epoll_ctl_mod (s_fd s)
         (if i_op it = STREAM_OP_WRITING then EPOLLOUT else EPOLLIN) a w of
           (Ep_ok, w') \<Rightarrow> (Ok (), w') | (_, w') \<Rightarrow> (Fail, w')))"

text \<open>Both queueing functions end with a push and \<open>u_queue_peek(&queue, &stream->next)\<close>.\<close>

definition push_item :: "addr \<Rightarrow> stream_item \<Rightarrow> (unit, 'z mem_scheme) op" where
  "push_item a it =
     check (gets m_av) (\<lambda>av.
     check (on_stream a (on_queue (u_queue_push av it))) (\<lambda>_.
     check (on_stream a (on_queue u_queue_peek)) (\<lambda>_.
       on_stream a (modify (\<lambda>s. s\<lparr>s_next := At_head\<rparr>)))))"

definition stream_queue_reading :: "addr \<Rightarrow> stream_type \<Rightarrow> (unit, 'z mem_scheme) op" where
  "stream_queue_reading a ty =
     push_item a (zero_item\<lparr>i_state := STREAM_STREAMING_HEADER, i_op := STREAM_OP_READING,
       i_type := ty, i_streamed := 0\<rparr>)"

definition stream_queue_reading_socket :: "addr \<Rightarrow> (unit, 'z mem_scheme) op" where
  "stream_queue_reading_socket a =
     check (stream_queue_reading a STREAM_TYPE_SOCKET) (\<lambda>_. ret ())"

definition stream_queue_reading_device :: "addr \<Rightarrow> (unit, 'z mem_scheme) op" where
  "stream_queue_reading_device a =
     check (stream_queue_reading a STREAM_TYPE_DEVICE) (\<lambda>_. ret ())"

text \<open>\<open>memcpy(buffer, data, size)\<close>: the source must have \<open>size\<close> bytes.\<close>

definition fill_buffer :: "addr \<Rightarrow> nat \<Rightarrow> byte list \<Rightarrow> (unit, 'z mem_scheme) op" where
  "fill_buffer b n bytes w =
     (if n \<le> length bytes
      then (Ok (), w\<lparr>m_bufs := (m_bufs w)(b \<mapsto> take n bytes)\<rparr>) else (Undef, w))"

definition stream_queue_writing_socket ::
  "addr \<Rightarrow> u32 \<Rightarrow> u64 \<Rightarrow> byte list \<Rightarrow> (unit, 'z mem_scheme) op" where
  "stream_queue_writing_socket a header sz bytes =
     (let it = set_header \<lparr>h_size = sz, h_value = header\<rparr> (zero_item\<lparr>i_state := STREAM_STREAMING_HEADER,
         i_op := STREAM_OP_WRITING, i_type := STREAM_TYPE_SOCKET, i_streamed := 0\<rparr>)
      in check (\<lambda>w. case calloc_buffer (unat sz) w of
                  (b, w') \<Rightarrow> if b = 0 then (Fail, w') else (Ok b, w')) (\<lambda>b.
         check (fill_buffer b (unat sz) bytes) (\<lambda>_.
         check (push_item a (set_buffer b it)) (\<lambda>_.
         check (e_epoll_sync_stream a) (\<lambda>_. ret ())))))"

definition stream_queue_writing_device ::
  "addr \<Rightarrow> input_event \<Rightarrow> (unit, 'z mem_scheme) op" where
  "stream_queue_writing_device a event =
     (let it = set_event event (zero_item\<lparr>i_state := STREAM_STREAMING_HEADER,
         i_op := STREAM_OP_WRITING, i_type := STREAM_TYPE_DEVICE\<rparr>)
      in check (push_item a it) (\<lambda>_. check (e_epoll_sync_stream a) (\<lambda>_. ret ())))"

subsection \<open>Transfer\<close>

datatype stream_place = In_payload nat | In_buffer addr nat

record stream_info =
  buffer_offset :: stream_place
  size_total :: u64
  size_remaining :: u64

text \<open>
  Where the next byte goes to or comes from, and how many are left.  Reading a body allocates its
  buffer the first time.
\<close>

definition calc_stream_info :: "addr \<Rightarrow> (stream_info, 'z mem_scheme) op" where
  "calc_stream_info a =
     check (load_next a) (\<lambda>it.
     let off = unat (i_streamed it);
         info = (\<lambda>p total. ret \<lparr>buffer_offset = p, size_total = total,
                   size_remaining = total - i_streamed it\<rparr>)
     in case i_type it of
       STREAM_TYPE_SOCKET \<Rightarrow>
         (if i_state it = STREAM_STREAMING_BODY
          then check (if i_op it = STREAM_OP_READING \<and> msg_buffer it = 0
                 then (\<lambda>w. case calloc_buffer (unat (h_size (msg_header it))) w of
                    (b, w') \<Rightarrow> if b = 0 then (Fail, w')
                      else check (store_next a (set_buffer b it)) (\<lambda>_. ret b) w')
                 else ret (msg_buffer it))
            (\<lambda>b. info (In_buffer b off) (h_size (msg_header it)))
          else info (In_payload off) (of_nat sizeof_header))
     | STREAM_TYPE_DEVICE \<Rightarrow> info (In_payload off) (of_nat sizeof_event))"

text \<open>The bytes a \<open>write\<close> may send: it must be able to read all \<open>size_remaining\<close> of them.\<close>

definition load_bytes :: "addr \<Rightarrow> stream_place \<Rightarrow> nat \<Rightarrow> (byte list, 'z mem_scheme) op" where
  "load_bytes a p n = (case p of
      In_payload off \<Rightarrow> check (load_next a) (\<lambda>it.
        if off + n \<le> length (i_payload it) then ret (take n (drop off (i_payload it))) else undef)
    | In_buffer b off \<Rightarrow> (\<lambda>w. case m_bufs w b of
        Some blk \<Rightarrow> if off + n \<le> length blk then (Ok (take n (drop off blk)), w) else (Undef, w)
      | None \<Rightarrow> (Undef, w)))"

text \<open>The bytes a \<open>read\<close> stores must fit in the block they go to.\<close>

definition store_bytes :: "addr \<Rightarrow> stream_place \<Rightarrow> byte list \<Rightarrow> (unit, 'z mem_scheme) op" where
  "store_bytes a p bs = (if bs = [] then ret () else case p of
      In_payload off \<Rightarrow> check (load_next a) (\<lambda>it.
        if off + length bs \<le> length (i_payload it)
        then store_next a (it\<lparr>i_payload := overwrite off bs (i_payload it)\<rparr>) else undef)
    | In_buffer b off \<Rightarrow> (\<lambda>w. case m_bufs w b of
        Some blk \<Rightarrow> if off + length bs \<le> length blk
          then (Ok (), w\<lparr>m_bufs := (m_bufs w)(b \<mapsto> overwrite off bs blk)\<rparr>) else (Undef, w)
      | None \<Rightarrow> (Undef, w)))"

definition sys_read :: "int \<Rightarrow> addr \<Rightarrow> stream_place \<Rightarrow> nat \<Rightarrow> io_ans \<Rightarrow> (io_res, 'z mem_scheme) op" where
  "sys_read fd a p count ans = (case ans of
      Io n \<Rightarrow> check (gets (\<lambda>w. take (min n count) (k_in w fd))) (\<lambda>bs.
        check (store_bytes a p bs) (\<lambda>_.
        check (modify (\<lambda>w. w\<lparr>k_in := (k_in w)(fd := drop (length bs) (k_in w fd))\<rparr>))
          (\<lambda>_. ret (Streamed (length bs)))))
    | Io_again \<Rightarrow> ret Err_again | Io_nodev \<Rightarrow> ret Err_nodev | Io_error \<Rightarrow> ret Err_other)"

definition sys_write :: "int \<Rightarrow> addr \<Rightarrow> stream_place \<Rightarrow> nat \<Rightarrow> io_ans \<Rightarrow> (io_res, 'z mem_scheme) op" where
  "sys_write fd a p count ans = (case ans of
      Io n \<Rightarrow> check (load_bytes a p count) (\<lambda>bs.
        check (modify (\<lambda>w. w\<lparr>k_out := (k_out w)(fd := k_out w fd @ take n bs)\<rparr>))
          (\<lambda>_. ret (Streamed (length (take n bs)))))
    | Io_again \<Rightarrow> ret Err_again | Io_nodev \<Rightarrow> ret Err_nodev | Io_error \<Rightarrow> ret Err_other)"

text \<open>The state of an item whose current part has been transferred completely.\<close>

definition finish_part :: "stream_item \<Rightarrow> stream_item" where
  "finish_part it =
     (let it1 = it\<lparr>i_streamed := 0\<rparr>;
          it2 = (if i_type it1 = STREAM_TYPE_DEVICE
                 then it1\<lparr>i_state := STREAM_STREAMING_COMPLETE\<rparr> else it1)
      in if i_state it2 = STREAM_STREAMING_BODY \<or>
            (i_type it2 = STREAM_TYPE_SOCKET \<and> h_size (msg_header it2) = 0)
         then it2\<lparr>i_state := STREAM_STREAMING_COMPLETE\<rparr>
         else if i_state it2 = STREAM_STREAMING_HEADER
         then it2\<lparr>i_state := STREAM_STREAMING_BODY\<rparr> else it2)"

definition set_state :: "addr \<Rightarrow> stream_state \<Rightarrow> (unit, 'z mem_scheme) op" where
  "set_state a st = check (load_next a) (\<lambda>it. store_next a (it\<lparr>i_state := st\<rparr>))"

definition after_io :: "addr \<Rightarrow> stream_info \<Rightarrow> io_res \<Rightarrow> (unit, 'z mem_scheme) op" where
  "after_io a info r = (case r of
      Err_nodev \<Rightarrow> set_state a STREAM_STREAMING_CLOSED
    | Err_again \<Rightarrow> ret ()
    | Err_other \<Rightarrow> fail
    | Streamed n \<Rightarrow>
        if n = 0 then set_state a STREAM_STREAMING_CLOSED
        else check (load_next a) (\<lambda>it.
          let it' = it\<lparr>i_streamed := i_streamed it + of_nat n\<rparr> in
          check (store_next a it') (\<lambda>_.
          check_not (i_streamed it' > size_total info)
            (if i_streamed it' = size_total info then store_next a (finish_part it') else ret ()))))"

definition stream_stream :: "addr \<Rightarrow> io_ans \<Rightarrow> (unit, 'z mem_scheme) op" where
  "stream_stream a ans =
     on_err
       (check (load_next a) (\<lambda>it.
        check_not (i_state it = STREAM_STREAMING_COMPLETE)
        (check (calc_stream_info a) (\<lambda>info.
         check (deref a) (\<lambda>s.
         check (case i_op it of
             STREAM_OP_READING \<Rightarrow> sys_read (s_fd s) a (buffer_offset info) (unat (size_remaining info)) ans
           | STREAM_OP_WRITING \<Rightarrow> sys_write (s_fd s) a (buffer_offset info) (unat (size_remaining info)) ans)
         (after_io a info))))))
       (set_state a STREAM_STREAMING_CLOSED)"

text \<open>
  A finished item is copied over the fallback item, whatever that held; the pointer returned is
  the fallback's.
\<close>

definition stream_collect :: "addr \<Rightarrow> (unit, 'z mem_scheme) op" where
  "stream_collect a =
     check (deref a) (\<lambda>s.
     check (if \<not> q_is_empty (s_queue s)
            then check (on_stream a (on_queue u_queue_pop))
              (\<lambda>it. on_stream a (modify (\<lambda>s. s\<lparr>s_fallback := it\<rparr>)))
            else ret ()) (\<lambda>_.
     check (deref a) (\<lambda>s.
       if q_is_empty (s_queue s)
       then on_stream a (modify (\<lambda>s. s\<lparr>s_next := At_fallback\<rparr>))
       else check (on_stream a (on_queue u_queue_peek))
         (\<lambda>_. on_stream a (modify (\<lambda>s. s\<lparr>s_next := At_head\<rparr>))))))"

subsection \<open>Closing\<close>

text \<open>
  The loop of \<open>stream_close\<close> pops until the queue is empty; each pop shortens the queue or fails,
  so \<open>length + 1\<close> rounds are enough.  It frees bytes 16--23 of each item as a pointer, whatever
  the item's type.
\<close>

primrec close_items :: "nat \<Rightarrow> addr \<Rightarrow> (unit, 'z mem_scheme) op" where
  "close_items 0 a = ret ()"
| "close_items (Suc n) a = check (deref a) (\<lambda>s.
     if q_is_empty (s_queue s) then ret ()
     else check (on_stream a (on_queue u_queue_pop)) (\<lambda>it.
       check (if msg_buffer it \<noteq> 0 then free_buffer (msg_buffer it) else ret ())
         (\<lambda>_. close_items n a)))"

definition stream_close :: "addr \<Rightarrow> (unit, 'z mem_scheme) op" where
  "stream_close a =
     check (deref a) (\<lambda>s0.
     check (close_items (Suc (unat (arr_length (q_array (s_queue s0))))) a) (\<lambda>_.
     check (on_stream a (on_queue u_queue_free)) (\<lambda>_.
     check (deref a) (\<lambda>s.
     check (if msg_buffer (s_fallback s) \<noteq> 0
            then check (free_buffer (msg_buffer (s_fallback s)))
              (\<lambda>_. on_stream a (modify (\<lambda>s. s\<lparr>s_fallback := set_buffer 0 (s_fallback s)\<rparr>)))
            else ret ()) (\<lambda>_.
     check (modify (sys_close (s_fd s))) (\<lambda>_.
       on_stream a (modify (\<lambda>s. s\<lparr>s_fd := -1\<rparr>))))))))"

end
