(* ===== verification/Rcn_Stream_Lemmas.thy ===== *)
theory Rcn_Stream_Lemmas
  imports Rcn_Stream
begin

section \<open>Symbolic execution of the stream layer\<close>

text \<open>
  The current item of a stream as an updatable place (\<open>cur\<close>), and one-step equations of
  \<open>stream_stream\<close> for each phase of a transfer.  They are the only facts about the definitions
  that the transfer theorems use.
\<close>

named_theorems stream_simps \<open>evaluation of stream operations on a known current item\<close>

definition cur :: "'z mem_scheme \<Rightarrow> addr \<Rightarrow> epoll_stream \<Rightarrow> stream_item \<Rightarrow> bool" where
  "cur w a s it \<longleftrightarrow> m_streams w a = Some s \<and> next_item s = Some it"

lemma next_item_put_next [simp]: "next_item s \<noteq> None \<Longrightarrow> next_item (put_next it s) = Some it"
  by (auto simp: next_item_def put_next_def put_head_def queue_head_def
      split: next_ptr.splits option.splits list.splits)

lemma put_next_put_next [simp]: "put_next it (put_next it' s) = put_next it s"
  by (auto simp: put_next_def put_head_def split: next_ptr.splits option.splits list.splits)

lemma put_next_frame [simp]:
  "s_fd (put_next it s) = s_fd s" "s_next (put_next it s) = s_next s"
  "s_fd_type (put_next it s) = s_fd_type s" "s_default_op (put_next it s) = s_default_op s"
  "s_default_type (put_next it s) = s_default_type s"
  by (simp_all add: put_next_def put_head_def split: next_ptr.splits)

lemma put_stream_frame [simp]:
  "m_bufs (put_stream a s w) = m_bufs w" "m_brk (put_stream a s w) = m_brk w"
  "m_av (put_stream a s w) = m_av w" "k_in (put_stream a s w) = k_in w"
  "k_out (put_stream a s w) = k_out w" "k_open (put_stream a s w) = k_open w"
  "k_epoll (put_stream a s w) = k_epoll w"
  "m_streams (put_stream a s w) = (m_streams w)(a \<mapsto> s)"
  by (simp_all add: put_stream_def)

lemma put_stream_put_stream [simp]: "put_stream a s (put_stream a t w) = put_stream a s w"
  by (simp add: put_stream_def)

lemma cur_put [simp]: "next_item s \<noteq> None \<Longrightarrow> cur (put_stream a (put_next it s) w) a (put_next it s) it"
  by (simp add: cur_def)

lemma curD: "cur w a s it \<Longrightarrow> m_streams w a = Some s" "cur w a s it \<Longrightarrow> next_item s = Some it"
  by (simp_all add: cur_def)

lemma cur_step:
  "cur w a s it \<Longrightarrow> m_streams w' = (m_streams w)(a \<mapsto> put_next it' s) \<Longrightarrow>
    cur w' a (put_next it' s) it'"
  by (simp add: cur_def)

lemma cur_same: "cur w a s it \<Longrightarrow> m_streams w' = m_streams w \<Longrightarrow> cur w' a s it"
  by (simp add: cur_def)

lemma deref_cur [stream_simps]: "cur w a s it \<Longrightarrow> deref a w = (Ok s, w)"
  by (simp add: cur_def deref_def)

lemma load_next_cur [stream_simps]: "cur w a s it \<Longrightarrow> load_next a w = (Ok it, w)"
  by (simp add: cur_def load_next_def deref_def check_def ret_def)

lemma store_next_cur [stream_simps]:
  "cur w a s it \<Longrightarrow> store_next a it' w = (Ok (), put_stream a (put_next it' s) w)"
  by (simp add: cur_def store_next_def on_stream_def modify_def)

lemma set_state_cur [stream_simps]: "cur w a s it \<Longrightarrow>
    set_state a st w = (Ok (), put_stream a (put_next (it\<lparr>i_state := st\<rparr>) s) w)"
  by (simp add: set_state_def check_def load_next_cur store_next_cur)

lemma after_io_streamed:
  assumes "cur w a s it" and "0 < n"
    and "unat (i_streamed it) + n \<le> unat (size_total info)"
  shows "after_io a info (Streamed n) w =
    (let it' = it\<lparr>i_streamed := i_streamed it + of_nat n\<rparr>
     in (Ok (), put_stream a (put_next
          (if unat (i_streamed it) + n = unat (size_total info) then finish_part it' else it') s) w))"
proof -
  let ?it' = "it\<lparr>i_streamed := i_streamed it + of_nat n\<rparr>"
  have n: "unat (i_streamed it) + n < 2 ^ 64"
    using assms(3) unat_less_2p[of "size_total info"] by simp
  then have "unat (of_nat n :: u64) = n" by (simp add: unat_of_nat take_bit_nat_eq_self)
  with n have sum: "unat (i_streamed ?it') = unat (i_streamed it) + n"
    by (simp add: unat_add_small)
  have cur': "cur (put_stream a (put_next ?it' s) w) a (put_next ?it' s) ?it'"
    using curD(2)[OF assms(1)] by simp
  have "\<not> i_streamed ?it' > size_total info"
    using sum assms(3) by (simp add: word_less_nat_alt)
  moreover have "i_streamed ?it' = size_total info \<longleftrightarrow> unat (i_streamed it) + n = unat (size_total info)"
    using sum by (simp add: word_unat_eq_iff)
  ultimately show ?thesis
    using assms(2) by (simp add: after_io_def check_def check_not_def Let_def ret_def
        load_next_cur[OF assms(1)] store_next_cur[OF assms(1)] store_next_cur[OF cur'])
qed

subsection \<open>Reading a header\<close>

text \<open>The item after \<open>bs\<close> more bytes of its payload have arrived.\<close>

definition got_payload :: "nat \<Rightarrow> nat \<Rightarrow> byte list \<Rightarrow> stream_item \<Rightarrow> stream_item" where
  "got_payload tot off bs it =
     (let it' = it\<lparr>i_payload := overwrite off bs (i_payload it), i_streamed := i_streamed it + of_nat (length bs)\<rparr>
      in if off + length bs = tot then finish_part it' else it')"

lemma unat_diff_small: "unat (y :: u64) \<le> unat x \<Longrightarrow> unat (x - y) = unat x - unat y"
  by (simp add: unat_sub word_le_nat_alt)

lemma read_payload_step:
  assumes cur: "cur w a s it" and op: "i_op it = STREAM_OP_READING"
    and st: "i_state it \<noteq> STREAM_STREAMING_COMPLETE"
    and part: "i_type it = STREAM_TYPE_SOCKET \<and> i_state it \<noteq> STREAM_STREAMING_BODY \<and> tot = 16
       \<or> i_type it = STREAM_TYPE_DEVICE \<and> tot = 24"
    and off: "unat (i_streamed it) < tot" and len: "length (i_payload it) = 24"
    and bs: "bs = take (min n (tot - unat (i_streamed it))) (k_in w (s_fd s))" "bs \<noteq> []"
  shows "stream_stream a (Io n) w = (Ok (),
    put_stream a (put_next (got_payload tot (unat (i_streamed it)) bs it) s)
      (w\<lparr>k_in := (k_in w)(s_fd s := drop (length bs) (k_in w (s_fd s)))\<rparr>))"
proof -
  let ?off = "unat (i_streamed it)" and ?fd = "s_fd s"
  let ?info = "\<lparr>buffer_offset = In_payload ?off, size_total = of_nat tot :: u64,
      size_remaining = of_nat tot - i_streamed it\<rparr>"
  have tot: "tot = 16 \<or> tot = 24" using part by auto
  then have ut: "unat (of_nat tot :: u64) = tot" by auto
  have rem: "unat (of_nat tot - i_streamed it :: u64) = tot - ?off"
    using off ut by (simp add: unat_diff_small)
  have calc: "calc_stream_info a w = (Ok ?info, w)"
    using part by (auto simp: calc_stream_info_def check_def load_next_cur[OF cur] ret_def
        sizeof_header_def sizeof_event_def Let_def)
  let ?it1 = "it\<lparr>i_payload := overwrite ?off bs (i_payload it)\<rparr>"
  let ?w1 = "put_stream a (put_next ?it1 s) w"
  let ?w2 = "?w1\<lparr>k_in := (k_in w)(?fd := drop (length bs) (k_in w ?fd))\<rparr>"
  have fit: "?off + length bs \<le> tot" using bs(1) off by simp
  have store: "store_bytes a (In_payload ?off) bs w = (Ok (), ?w1)"
    using bs(2) fit tot len
    by (auto simp: store_bytes_def check_def load_next_cur[OF cur] store_next_cur[OF cur])
  have read: "sys_read ?fd a (In_payload ?off) (tot - ?off) (Io n) w = (Ok (Streamed (length bs)), ?w2)"
    using store bs(1) by (simp add: sys_read_def check_def gets_def modify_def ret_def)
  have cur2: "cur ?w2 a (put_next ?it1 s) ?it1"
    using curD(2)[OF cur] by (simp add: cur_def)
  have after: "after_io a ?info (Streamed (length bs)) ?w2 = (Ok (),
      put_stream a (put_next (got_payload tot ?off bs it) s) ?w2)"
    using after_io_streamed[OF cur2, of "length bs" ?info] bs(2) fit ut
    by (simp add: got_payload_def Let_def)
  have "stream_stream a (Io n) w = (Ok (), put_stream a (put_next (got_payload tot ?off bs it) s) ?w2)"
    using op st calc read after
    by (simp add: stream_stream_def on_err_def check_def check_not_def load_next_cur[OF cur]
        deref_cur[OF cur] rem)
  also have "put_stream a (put_next (got_payload tot ?off bs it) s) ?w2 =
    put_stream a (put_next (got_payload tot ?off bs it) s)
      (w\<lparr>k_in := (k_in w)(?fd := drop (length bs) (k_in w ?fd))\<rparr>)"
    by (simp add: put_stream_def)
  finally show ?thesis .
qed

subsection \<open>Reading a body\<close>

definition got_body :: "nat \<Rightarrow> nat \<Rightarrow> stream_item \<Rightarrow> stream_item" where
  "got_body off n it =
     (let it' = it\<lparr>i_streamed := i_streamed it + of_nat n\<rparr>
      in if off + n = unat (h_size (msg_header it)) then finish_part it' else it')"

text \<open>The step once the buffer exists.\<close>

lemma read_body_step_buffer:
  assumes cur: "cur w a s it" and op: "i_op it = STREAM_OP_READING"
    and ty: "i_type it = STREAM_TYPE_SOCKET" and st: "i_state it = STREAM_STREAMING_BODY"
    and off: "unat (i_streamed it) < unat (h_size (msg_header it))"
    and buf: "msg_buffer it \<noteq> 0" "m_bufs w (msg_buffer it) = Some blk"
      "length blk = unat (h_size (msg_header it))"
    and bs: "bs = take (min n (length blk - unat (i_streamed it))) (k_in w (s_fd s))" "bs \<noteq> []"
  shows "stream_stream a (Io n) w = (Ok (),
    put_stream a (put_next (got_body (unat (i_streamed it)) (length bs) it) s)
      (w\<lparr>m_bufs := (m_bufs w)(msg_buffer it \<mapsto> overwrite (unat (i_streamed it)) bs blk),
         k_in := (k_in w)(s_fd s := drop (length bs) (k_in w (s_fd s)))\<rparr>))"
proof -
  let ?off = "unat (i_streamed it)" and ?fd = "s_fd s" and ?b = "msg_buffer it"
  let ?info = "\<lparr>buffer_offset = In_buffer ?b ?off, size_total = h_size (msg_header it),
      size_remaining = h_size (msg_header it) - i_streamed it\<rparr>"
  have rem: "unat (h_size (msg_header it) - i_streamed it) = length blk - ?off"
    using off buf(3) by (simp add: unat_diff_small)
  have calc: "calc_stream_info a w = (Ok ?info, w)"
    using ty st buf(1) by (simp add: calc_stream_info_def check_def load_next_cur[OF cur] ret_def Let_def)
  let ?w2 = "w\<lparr>m_bufs := (m_bufs w)(?b \<mapsto> overwrite ?off bs blk),
         k_in := (k_in w)(?fd := drop (length bs) (k_in w ?fd))\<rparr>"
  have fit: "?off + length bs \<le> length blk" using bs(1) off buf(3) by simp
  have store: "store_bytes a (In_buffer ?b ?off) bs w =
      (Ok (), w\<lparr>m_bufs := (m_bufs w)(?b \<mapsto> overwrite ?off bs blk)\<rparr>)"
    using bs(2) buf(2) fit by (simp add: store_bytes_def)
  have read: "sys_read ?fd a (In_buffer ?b ?off) (length blk - ?off) (Io n) w = (Ok (Streamed (length bs)), ?w2)"
    using store by (simp add: sys_read_def check_def gets_def modify_def ret_def bs(1)[symmetric])
  have cur2: "cur ?w2 a s it" using cur by (simp add: cur_def)
  have after: "after_io a ?info (Streamed (length bs)) ?w2 = (Ok (),
      put_stream a (put_next (got_body ?off (length bs) it) s) ?w2)"
    using after_io_streamed[OF cur2, of "length bs" ?info] bs(2) fit buf(3)
    by (simp add: got_body_def Let_def)
  show ?thesis
    using op st calc read after
    by (simp add: stream_stream_def on_err_def check_def check_not_def load_next_cur[OF cur]
        deref_cur[OF cur] rem)
qed

text \<open>The first step of a body allocates the buffer.\<close>

lemma read_body_step_alloc:
  assumes cur: "cur w a s it" and op: "i_op it = STREAM_OP_READING"
    and ty: "i_type it = STREAM_TYPE_SOCKET" and st: "i_state it = STREAM_STREAMING_BODY"
    and buf: "msg_buffer it = 0" and len: "length (i_payload it) = 24"
    and alloc: "calloc_buffer (unat (h_size (msg_header it))) w = (b, w1)" "b \<noteq> 0"
      "m_streams w1 = m_streams w"
  shows "stream_stream a ans w =
    stream_stream a ans (put_stream a (put_next (set_buffer b it) s) w1)"
proof -
  let ?it1 = "set_buffer b it" and ?w2 = "put_stream a (put_next (set_buffer b it) s) w1"
  have cur1: "cur w1 a s it" using cur alloc(3) by (simp add: cur_def)
  have cur2: "cur ?w2 a (put_next ?it1 s) ?it1"
    using curD(2)[OF cur] by simp
  have "calc_stream_info a w = calc_stream_info a ?w2"
    using ty st buf op len alloc(1,2)
    by (simp add: calc_stream_info_def check_def load_next_cur[OF cur] load_next_cur[OF cur2] ret_def
        store_next_cur[OF cur1] Let_def)
  moreover obtain info where "calc_stream_info a ?w2 = (Ok info, ?w2)"
    using ty st len alloc(2)
    by (simp add: calc_stream_info_def check_def load_next_cur[OF cur2] ret_def Let_def)
  ultimately show ?thesis
    using op st by (simp add: stream_stream_def on_err_def check_def check_not_def
        load_next_cur[OF cur] load_next_cur[OF cur2] deref_cur[OF cur2])
qed

subsection \<open>Waiting and errors\<close>

lemma calc_stream_info_payload:
  assumes cur: "cur w a s it"
    and part: "i_type it = STREAM_TYPE_SOCKET \<and> i_state it \<noteq> STREAM_STREAMING_BODY \<and> tot = 16
       \<or> i_type it = STREAM_TYPE_DEVICE \<and> tot = 24"
  shows "calc_stream_info a w = (Ok \<lparr>buffer_offset = In_payload (unat (i_streamed it)),
    size_total = of_nat tot, size_remaining = of_nat tot - i_streamed it\<rparr>, w)"
  using part by (auto simp: calc_stream_info_def check_def load_next_cur[OF cur] ret_def
      sizeof_header_def sizeof_event_def Let_def)

lemma calc_stream_info_body:
  assumes cur: "cur w a s it" and "i_type it = STREAM_TYPE_SOCKET"
    and "i_state it = STREAM_STREAMING_BODY"
    and "i_op it = STREAM_OP_WRITING \<or> msg_buffer it \<noteq> 0"
  shows "calc_stream_info a w = (Ok \<lparr>buffer_offset = In_buffer (msg_buffer it) (unat (i_streamed it)),
    size_total = h_size (msg_header it), size_remaining = h_size (msg_header it) - i_streamed it\<rparr>, w)"
  using assms by (auto simp: calc_stream_info_def check_def load_next_cur[OF cur] ret_def Let_def)

text \<open>\<open>EAGAIN\<close> leaves the item as it is.\<close>

lemma stream_stream_again:
  assumes cur: "cur w a s it" and st: "i_state it \<noteq> STREAM_STREAMING_COMPLETE"
    and info: "calc_stream_info a w = (Ok info, w)"
  shows "stream_stream a Io_again w = (Ok (), w)"
  using st info by (cases "i_op it") (simp_all add: stream_stream_def on_err_def check_def check_not_def
      load_next_cur[OF cur] deref_cur[OF cur] sys_read_def sys_write_def after_io_def ret_def)

subsection \<open>Writing\<close>

lemma write_payload_step:
  assumes cur: "cur w a s it" and op: "i_op it = STREAM_OP_WRITING"
    and st: "i_state it \<noteq> STREAM_STREAMING_COMPLETE"
    and kind: "i_type it = STREAM_TYPE_SOCKET \<and> i_state it \<noteq> STREAM_STREAMING_BODY \<and> tot = 16
       \<or> i_type it = STREAM_TYPE_DEVICE \<and> tot = 24"
    and off: "unat (i_streamed it) < tot" and len: "length (i_payload it) = 24"
    and n: "m = min n (tot - unat (i_streamed it))" "0 < m"
  shows "stream_stream a (Io n) w = (Ok (),
    put_stream a (put_next
      (let it' = it\<lparr>i_streamed := i_streamed it + of_nat m\<rparr>
       in if unat (i_streamed it) + m = tot then finish_part it' else it') s)
      (w\<lparr>k_out := (k_out w)(s_fd s := k_out w (s_fd s) @ take m (drop (unat (i_streamed it)) (i_payload it)))\<rparr>))"
proof -
  let ?off = "unat (i_streamed it)" and ?fd = "s_fd s"
  let ?info = "\<lparr>buffer_offset = In_payload ?off, size_total = of_nat tot :: u64,
      size_remaining = of_nat tot - i_streamed it\<rparr>"
  have tot: "tot = 16 \<or> tot = 24" using kind by auto
  then have ut: "unat (of_nat tot :: u64) = tot" by auto
  have rem: "unat (of_nat tot - i_streamed it :: u64) = tot - ?off"
    using off ut by (simp add: unat_diff_small)
  obtain part where part: "part = take (tot - ?off) (drop ?off (i_payload it))" by simp
  have sent: "take n part = take m (drop ?off (i_payload it))"
    using n(1) part by simp
  have lsent: "length (take m (drop ?off (i_payload it))) = m"
    using n(1) tot len off by auto
  have load: "load_bytes a (In_payload ?off) (tot - ?off) w = (Ok part, w)"
    using tot len off part by (auto simp: load_bytes_def check_def load_next_cur[OF cur] ret_def)
  let ?w2 = "w\<lparr>k_out := (k_out w)(?fd := k_out w ?fd @ take m (drop ?off (i_payload it)))\<rparr>"
  have "sys_write ?fd a (In_payload ?off) (tot - ?off) (Io n) w = (Ok (Streamed m), ?w2)"
    using load sent lsent by (simp only: sys_write_def io_ans.case check_def modify_def ret_def
        prod.case res.case)
  moreover have cur2: "cur ?w2 a s it" using cur by (simp add: cur_def)
  moreover have "?off + m \<le> tot" using n(1) off by simp
  then have "after_io a ?info (Streamed m) ?w2 = (Ok (), put_stream a (put_next
      (let it' = it\<lparr>i_streamed := i_streamed it + of_nat m\<rparr>
       in if ?off + m = tot then finish_part it' else it') s) ?w2)"
    using after_io_streamed[OF cur2 n(2), of ?info] ut by (simp add: Let_def)
  ultimately show ?thesis
    using op st calc_stream_info_payload[OF cur kind]
    by (simp add: stream_stream_def on_err_def check_def check_not_def load_next_cur[OF cur]
        deref_cur[OF cur] rem)
qed

lemma write_body_step:
  assumes cur: "cur w a s it" and op: "i_op it = STREAM_OP_WRITING"
    and ty: "i_type it = STREAM_TYPE_SOCKET" and st: "i_state it = STREAM_STREAMING_BODY"
    and off: "unat (i_streamed it) < unat (h_size (msg_header it))"
    and buf: "m_bufs w (msg_buffer it) = Some blk" "length blk = unat (h_size (msg_header it))"
    and n: "m = min n (length blk - unat (i_streamed it))" "0 < m"
  shows "stream_stream a (Io n) w = (Ok (),
    put_stream a (put_next (got_body (unat (i_streamed it)) m it) s)
      (w\<lparr>k_out := (k_out w)(s_fd s := k_out w (s_fd s) @ take m (drop (unat (i_streamed it)) blk))\<rparr>))"
proof -
  let ?off = "unat (i_streamed it)" and ?fd = "s_fd s" and ?b = "msg_buffer it"
  let ?info = "\<lparr>buffer_offset = In_buffer ?b ?off, size_total = h_size (msg_header it),
      size_remaining = h_size (msg_header it) - i_streamed it\<rparr>"
  have rem: "unat (h_size (msg_header it) - i_streamed it) = length blk - ?off"
    using off buf(2) by (simp add: unat_diff_small)
  let ?w2 = "w\<lparr>k_out := (k_out w)(?fd := k_out w ?fd @ take m (drop ?off blk))\<rparr>"
  obtain part where part: "part = take (length blk - ?off) (drop ?off blk)" by simp
  have "take n part = take m (drop ?off blk)"
    using n(1) part by (simp add: take_min_length)
  moreover have "length (take m (drop ?off blk)) = m" using n(1) off buf(2) by auto
  moreover have "load_bytes a (In_buffer ?b ?off) (length blk - ?off) w = (Ok part, w)"
    using off buf part by (simp add: load_bytes_def)
  ultimately have "sys_write ?fd a (In_buffer ?b ?off) (length blk - ?off) (Io n) w = (Ok (Streamed m), ?w2)"
    by (simp only: sys_write_def io_ans.case check_def modify_def ret_def prod.case res.case)
  moreover have cur2: "cur ?w2 a s it" using cur by (simp add: cur_def)
  moreover have "?off + m \<le> length blk" using n(1) off buf(2) by simp
  then have "after_io a ?info (Streamed m) ?w2 = (Ok (), put_stream a (put_next (got_body ?off m it) s) ?w2)"
    using after_io_streamed[OF cur2 n(2), of ?info] buf(2) by (simp add: got_body_def Let_def)
  ultimately show ?thesis
    using op st calc_stream_info_body[OF cur ty st]
    by (simp add: stream_stream_def on_err_def check_def check_not_def load_next_cur[OF cur]
        deref_cur[OF cur] rem)
qed

end
