(* ===== verification/Rcn_Stream_Safe.thy ===== *)
theory Rcn_Stream_Safe
  imports Rcn_Stream_Lemmas
begin

section \<open>No step of a stream leaves its blocks\<close>

text \<open>
  Whatever the kernel answers and whatever sizes the other side announces, \<open>stream_stream\<close> on a
  well-formed item touches only live memory and leaves a well-formed (or closed) item.
\<close>

subsection \<open>Well-formed items\<close>

text \<open>The body of a socket message: not there yet, or a block of the announced size.\<close>

definition body_ok :: "(addr \<Rightarrow> byte list option) \<Rightarrow> stream_item \<Rightarrow> bool" where
  "body_ok bufs it \<longleftrightarrow> (\<exists>blk. bufs (msg_buffer it) = Some blk \<and> msg_buffer it \<noteq> 0 \<and>
     length blk = unat (h_size (msg_header it)))"

definition item_wf :: "(addr \<Rightarrow> byte list option) \<Rightarrow> stream_item \<Rightarrow> bool" where
  "item_wf bufs it \<longleftrightarrow> length (i_payload it) = 24 \<and> (case i_type it of
      STREAM_TYPE_DEVICE \<Rightarrow> unat (i_streamed it) \<le> 24 \<and>
        (i_state it = STREAM_STREAMING_HEADER \<longrightarrow> unat (i_streamed it) < 24)
    | STREAM_TYPE_SOCKET \<Rightarrow>
        (case i_state it of
           STREAM_STREAMING_HEADER \<Rightarrow> unat (i_streamed it) < 16 \<and>
             (i_op it = STREAM_OP_READING \<and> msg_buffer it = 0 \<or> i_op it = STREAM_OP_WRITING \<and> body_ok bufs it)
         | STREAM_STREAMING_BODY \<Rightarrow> unat (i_streamed it) < unat (h_size (msg_header it)) \<and>
             (i_op it = STREAM_OP_READING \<and> msg_buffer it = 0 \<or> body_ok bufs it)
         | _ \<Rightarrow> True))"

text \<open>The items \<open>stream_stream\<close> is called on: still being transferred.\<close>

definition in_transfer :: "(addr \<Rightarrow> byte list option) \<Rightarrow> stream_item \<Rightarrow> bool" where
  "in_transfer bufs it \<longleftrightarrow> item_wf bufs it \<and>
     (i_state it = STREAM_STREAMING_HEADER \<or>
      i_type it = STREAM_TYPE_SOCKET \<and> i_state it = STREAM_STREAMING_BODY)"

subsection \<open>Steps that end a transfer\<close>

lemma stream_stream_ends:
  assumes cur: "cur w a s it" and st: "i_state it \<noteq> STREAM_STREAMING_COMPLETE"
    and info: "calc_stream_info a w = (Ok info, w)"
    and io: "(case i_op it of
        STREAM_OP_READING \<Rightarrow> sys_read (s_fd s) a (buffer_offset info) (unat (size_remaining info)) ans
      | STREAM_OP_WRITING \<Rightarrow> sys_write (s_fd s) a (buffer_offset info) (unat (size_remaining info)) ans) w =
      (Ok r, w)" "r = Streamed 0 \<or> r = Err_nodev \<or> r = Err_other"
  shows "\<exists>r'. r' \<noteq> Undef \<and> stream_stream a ans w =
    (r', put_stream a (put_next (it\<lparr>i_state := STREAM_STREAMING_CLOSED\<rparr>) s) w)"
  using assms by (auto simp: stream_stream_def on_err_def check_def check_not_def after_io_def fail_def
      load_next_cur deref_cur set_state_cur split: stream_operation.splits)

lemma stream_stream_no_calc:
  assumes cur: "cur w a s it" and st: "i_state it \<noteq> STREAM_STREAMING_COMPLETE"
    and info: "calc_stream_info a w = (Fail, w)"
  shows "stream_stream a ans w =
    (Fail, put_stream a (put_next (it\<lparr>i_state := STREAM_STREAMING_CLOSED\<rparr>) s) w)"
  using assms by (simp add: stream_stream_def on_err_def check_def check_not_def load_next_cur set_state_cur)

lemma sys_read_none:
  assumes "take (min n count) (k_in w fd) = []"
  shows "sys_read fd a p count (Io n) w = (Ok (Streamed 0), w)"
proof -
  have "drop (length (take (min n count) (k_in w fd))) (k_in w fd) = k_in w fd"
    unfolding assms by simp
  then show ?thesis
    by (simp only: sys_read_def check_def gets_def modify_def ret_def store_bytes_def assms io_ans.case
        prod.case res.case if_True list.size) (simp add: ret_def)
qed

lemma sys_write_none:
  assumes "load_bytes a p count w = (Ok bs, w)"
  shows "sys_write fd a p count (Io 0) w = (Ok (Streamed 0), w)"
  using assms by (simp add: sys_write_def check_def modify_def ret_def)

subsection \<open>What a step preserves\<close>

definition stepped :: "addr \<Rightarrow> 'z mem_scheme \<Rightarrow> bool" where
  "stepped a w \<longleftrightarrow> (\<exists>s it. cur w a s it \<and>
     (i_state it = STREAM_STREAMING_CLOSED \<or> i_state it = STREAM_STREAMING_COMPLETE \<or> in_transfer (m_bufs w) it))"

lemma stepped_put:
  assumes "cur w a s it"
    and "i_state it' = STREAM_STREAMING_CLOSED \<or> i_state it' = STREAM_STREAMING_COMPLETE \<or> in_transfer (m_bufs w') it'"
    and "m_streams w' = (m_streams w)(a \<mapsto> put_next it' s)"
  shows "stepped a w'"
  unfolding stepped_def using cur_step[OF assms(1,3)] assms(2) by blast

lemma closed_step:
  "cur w a s it \<Longrightarrow> \<exists>r'. r' \<noteq> Undef \<and> stream_stream a ans w =
    (r', put_stream a (put_next (it\<lparr>i_state := STREAM_STREAMING_CLOSED\<rparr>) s) w) \<Longrightarrow>
   fst (stream_stream a ans w) \<noteq> Undef \<and> stepped a (snd (stream_stream a ans w))"
  by (auto intro!: stepped_put)

lemma finish_part_state:
  "i_state it \<noteq> STREAM_STREAMING_CLOSED \<Longrightarrow> i_type it = STREAM_TYPE_DEVICE \<or> i_state it = STREAM_STREAMING_BODY \<Longrightarrow>
    i_state (finish_part it) = STREAM_STREAMING_COMPLETE"
  by (auto simp: finish_part_def Let_def)

lemma no_transfer_step:
  assumes cur: "cur w a s it" and st: "i_state it \<noteq> STREAM_STREAMING_COMPLETE" "in_transfer (m_bufs w) it"
    and info: "calc_stream_info a w = (Ok info, w)"
    and ans: "ans = Io_again \<or> ans = Io_nodev \<or> ans = Io_error"
  shows "fst (stream_stream a ans w) \<noteq> Undef \<and> stepped a (snd (stream_stream a ans w))"
proof (cases "ans = Io_again")
  case True
  then show ?thesis using stream_stream_again[OF cur st(1) info] cur st(2) by (auto simp: stepped_def)
next
  case False
  obtain r where r: "r = (if ans = Io_nodev then Err_nodev else Err_other)" by simp
  have "(case i_op it of
        STREAM_OP_READING \<Rightarrow> sys_read (s_fd s) a (buffer_offset info) (unat (size_remaining info)) ans
      | STREAM_OP_WRITING \<Rightarrow> sys_write (s_fd s) a (buffer_offset info) (unat (size_remaining info)) ans) w =
      (Ok r, w)"
    using False ans by (auto simp: sys_read_def sys_write_def ret_def r split: stream_operation.splits)
  from closed_step[OF cur stream_stream_ends[OF cur st(1) info this]] r show ?thesis by simp
qed

lemma stepped_header:
  assumes cur: "cur w a s it" and streams: "m_streams w' = (m_streams w)(a \<mapsto> put_next it' s)"
    and it': "it' = (if k = 16 then finish_part it2 else it2)" and k: "k \<le> 16"
    and it2: "i_type it2 = STREAM_TYPE_SOCKET" "i_state it2 = STREAM_STREAMING_HEADER"
      "length (i_payload it2) = 24" "k < 16 \<Longrightarrow> unat (i_streamed it2) = k"
      "i_op it2 = STREAM_OP_READING \<and> msg_buffer it2 = 0 \<or> i_op it2 = STREAM_OP_WRITING \<and> body_ok (m_bufs w') it2"
  shows "stepped a w'"
proof (rule stepped_put[OF cur _ streams])
  show "i_state it' = STREAM_STREAMING_CLOSED \<or> i_state it' = STREAM_STREAMING_COMPLETE \<or> in_transfer (m_bufs w') it'"
  proof (cases "k = 16")
    case True
    then have "it' = it2\<lparr>i_streamed := 0, i_state := (if h_size (msg_header it2) = 0
       then STREAM_STREAMING_COMPLETE else STREAM_STREAMING_BODY)\<rparr>"
      using it' it2(1,2) by (simp add: finish_part_def msg_header_def Let_def)
    then show ?thesis using it2 by (auto simp: in_transfer_def item_wf_def body_ok_def msg_header_def msg_buffer_def unat_gt_0)
  next
    case False
    then show ?thesis using it' it2 k by (auto simp: in_transfer_def item_wf_def)
  qed
qed

lemma stepped_event:
  assumes cur: "cur w a s it" and streams: "m_streams w' = (m_streams w)(a \<mapsto> put_next it' s)"
    and it': "it' = (if k = 24 then finish_part it2 else it2)" and k: "k \<le> 24"
    and it2: "i_type it2 = STREAM_TYPE_DEVICE" "i_state it2 = STREAM_STREAMING_HEADER"
      "length (i_payload it2) = 24" "k < 24 \<Longrightarrow> unat (i_streamed it2) = k"
  shows "stepped a w'"
  by (rule stepped_put[OF cur _ streams])
    (use it' it2 k in \<open>auto simp: in_transfer_def item_wf_def finish_part_state\<close>)

lemma unat_of_nat_small: "n \<le> 24 \<Longrightarrow> unat (x :: u64) \<le> 24 \<Longrightarrow> unat (x + of_nat n) = unat x + n"
  by (subst unat_add_small) (simp_all add: unat_of_nat take_bit_nat_eq_self)

lemma header_step_safe:
  assumes cur: "cur w a s it" and tr: "in_transfer (m_bufs w) it"
    and st: "i_state it = STREAM_STREAMING_HEADER"
  shows "fst (stream_stream a ans w) \<noteq> Undef \<and> stepped a (snd (stream_stream a ans w))"
proof -
  define tot :: nat where "tot = (case i_type it of STREAM_TYPE_SOCKET \<Rightarrow> 16 | STREAM_TYPE_DEVICE \<Rightarrow> 24)"
  have part: "i_type it = STREAM_TYPE_SOCKET \<and> i_state it \<noteq> STREAM_STREAMING_BODY \<and> tot = 16
       \<or> i_type it = STREAM_TYPE_DEVICE \<and> tot = 24"
    using st by (cases "i_type it") (simp_all add: tot_def)
  have len: "length (i_payload it) = 24" and off: "unat (i_streamed it) < tot"
    using tr st by (auto simp: in_transfer_def item_wf_def tot_def split: stream_type.splits)
  have nc: "i_state it \<noteq> STREAM_STREAMING_COMPLETE" using st by simp
  note info = calc_stream_info_payload[OF cur part]
  have tot: "tot \<le> 24" "unat (of_nat tot :: u64) = tot" using part by auto
  have rem: "unat (of_nat tot - i_streamed it :: u64) = tot - unat (i_streamed it)"
    using off tot by (simp add: unat_diff_small)
  have body: "i_op it = STREAM_OP_READING \<and> msg_buffer it = 0 \<or> i_op it = STREAM_OP_WRITING \<and> body_ok (m_bufs w) it"
    if "i_type it = STREAM_TYPE_SOCKET"
    using tr st that by (simp add: in_transfer_def item_wf_def)
  show ?thesis
  proof (cases ans)
    case (Io n)
    show ?thesis
    proof (cases "i_op it")
      case STREAM_OP_READING
      obtain bs where bs: "bs = take (min n (tot - unat (i_streamed it))) (k_in w (s_fd s))" by simp
      show ?thesis
      proof (cases "bs = []")
        case True
        then have "sys_read (s_fd s) a p (tot - unat (i_streamed it)) (Io n) w = (Ok (Streamed 0), w)" for p
          using sys_read_none bs by metis
        then show ?thesis using STREAM_OP_READING rem Io
          by (intro closed_step[OF cur] stream_stream_ends[OF cur nc info, where r="Streamed 0"]) simp_all
      next
        case False
        note step = read_payload_step[OF cur STREAM_OP_READING nc part off len bs False]
        have k: "unat (i_streamed it) + length bs \<le> tot" using bs off by simp
        let ?it2 = "it\<lparr>i_payload := overwrite (unat (i_streamed it)) bs (i_payload it), i_streamed := i_streamed it + of_nat (length bs)\<rparr>"
        have str: "unat (i_streamed ?it2) = unat (i_streamed it) + length bs"
          using k tot off by (simp add: unat_of_nat_small)
        have len2: "length (i_payload ?it2) = 24" using k tot len by simp
        have it': "got_payload tot (unat (i_streamed it)) bs it = (if unat (i_streamed it) + length bs = tot then finish_part ?it2 else ?it2)"
          by (simp add: got_payload_def Let_def)
        from part show ?thesis
        proof
          assume p: "i_type it = STREAM_TYPE_SOCKET \<and> i_state it \<noteq> STREAM_STREAMING_BODY \<and> tot = 16"
          have mb: "msg_buffer ?it2 = msg_buffer it"
            using k p len by (simp add: msg_buffer_def drop_overwrite)
          show ?thesis unfolding Io step fst_conv snd_conv
            by (intro conjI stepped_header[OF cur, where ?it2.0="?it2" and k="unat (i_streamed it) + length bs"])
              (use p k st str len2 mb body STREAM_OP_READING in \<open>simp_all add: got_payload_def Let_def\<close>)
        next
          assume p: "i_type it = STREAM_TYPE_DEVICE \<and> tot = 24"
          show ?thesis unfolding Io step fst_conv snd_conv
            by (intro conjI stepped_event[OF cur, where ?it2.0="?it2" and k="unat (i_streamed it) + length bs"])
              (use p k st str len2 in \<open>simp_all add: got_payload_def Let_def\<close>)
        qed
      qed
    next
      case STREAM_OP_WRITING
      obtain m where m: "m = min n (tot - unat (i_streamed it))" by simp
      show ?thesis
      proof (cases "m = 0")
        case True
        then have n0: "n = 0" using m off by simp
        have "load_bytes a (In_payload (unat (i_streamed it))) (tot - unat (i_streamed it)) w =
            (Ok (take (tot - unat (i_streamed it)) (drop (unat (i_streamed it)) (i_payload it))), w)"
          using off tot len by (simp add: load_bytes_def check_def load_next_cur[OF cur] ret_def)
        from sys_write_none[OF this] STREAM_OP_WRITING rem Io n0 show ?thesis
          by (intro closed_step[OF cur] stream_stream_ends[OF cur nc info, where r="Streamed 0"]) simp_all
      next
        case False
        then have "0 < m" by simp
        note step = write_payload_step[OF cur STREAM_OP_WRITING nc part off len m this]
        have k: "unat (i_streamed it) + m \<le> tot" using m off by simp
        let ?it2 = "it\<lparr>i_streamed := i_streamed it + of_nat m\<rparr>"
        have str: "unat (i_streamed ?it2) = unat (i_streamed it) + m"
          using k tot off by (simp add: unat_of_nat_small)
        have mb: "msg_buffer ?it2 = msg_buffer it" "msg_header ?it2 = msg_header it"
          by (simp_all add: msg_buffer_def msg_header_def)
        from part show ?thesis
        proof
          assume p: "i_type it = STREAM_TYPE_SOCKET \<and> i_state it \<noteq> STREAM_STREAMING_BODY \<and> tot = 16"
          show ?thesis unfolding Io step fst_conv snd_conv Let_def
            by (intro conjI stepped_header[OF cur, where ?it2.0="?it2" and k="unat (i_streamed it) + m"
                  and it'="if unat (i_streamed it) + m = tot then finish_part ?it2 else ?it2"])
              (use p k st str len mb body STREAM_OP_WRITING in \<open>simp_all add: body_ok_def\<close>)
        next
          assume p: "i_type it = STREAM_TYPE_DEVICE \<and> tot = 24"
          show ?thesis unfolding Io step fst_conv snd_conv Let_def
            by (intro conjI stepped_event[OF cur, where ?it2.0="?it2" and k="unat (i_streamed it) + m"
                  and it'="if unat (i_streamed it) + m = tot then finish_part ?it2 else ?it2"])
              (use p k st str len in simp_all)
        qed
      qed
    qed
  qed (use no_transfer_step[OF cur nc tr info] in auto)
qed

lemma stepped_body:
  assumes cur: "cur w a s it" and streams: "m_streams w' = (m_streams w)(a \<mapsto> put_next it' s)"
    and it': "it' = got_body off n it" and st: "i_type it = STREAM_TYPE_SOCKET" "i_state it = STREAM_STREAMING_BODY"
    and off: "off = unat (i_streamed it)" "off + n \<le> unat (h_size (msg_header it))"
    and len: "length (i_payload it) = 24" and body: "body_ok (m_bufs w') it"
  shows "stepped a w'"
proof (rule stepped_put[OF cur _ streams])
  let ?it2 = "it\<lparr>i_streamed := i_streamed it + of_nat n\<rparr>"
  have "off + n < 2 ^ 64" using off(2) unat_less_2p[of "h_size (msg_header it)"] by simp
  then have "unat (i_streamed ?it2) = off + n"
    using off(1) by (simp add: unat_add_small unat_of_nat take_bit_nat_eq_self)
  then show "i_state it' = STREAM_STREAMING_CLOSED \<or> i_state it' = STREAM_STREAMING_COMPLETE \<or> in_transfer (m_bufs w') it'"
    using assms by (auto simp: got_body_def Let_def finish_part_state in_transfer_def item_wf_def body_ok_def
        msg_header_def msg_buffer_def)
qed

lemma buffer_step_safe:
  assumes cur: "cur w a s it" and tr: "in_transfer (m_bufs w) it"
    and st: "i_type it = STREAM_TYPE_SOCKET" "i_state it = STREAM_STREAMING_BODY" and body: "body_ok (m_bufs w) it"
  shows "fst (stream_stream a ans w) \<noteq> Undef \<and> stepped a (snd (stream_stream a ans w))"
proof -
  have nc: "i_state it \<noteq> STREAM_STREAMING_COMPLETE" using st by simp
  have len: "length (i_payload it) = 24" and off: "unat (i_streamed it) < unat (h_size (msg_header it))"
    using tr st by (simp_all add: in_transfer_def item_wf_def)
  obtain blk where blk: "m_bufs w (msg_buffer it) = Some blk" "msg_buffer it \<noteq> 0"
    "length blk = unat (h_size (msg_header it))" using body by (auto simp: body_ok_def)
  note info = calc_stream_info_body[OF cur st disjI2[OF blk(2)]]
  have rem: "unat (h_size (msg_header it) - i_streamed it) = length blk - unat (i_streamed it)"
    using off blk(3) by (simp add: unat_diff_small)
  show ?thesis
  proof (cases ans)
    case (Io n)
    show ?thesis
    proof (cases "i_op it")
      case STREAM_OP_READING
      obtain bs where bs: "bs = take (min n (length blk - unat (i_streamed it))) (k_in w (s_fd s))" by simp
      show ?thesis
      proof (cases "bs = []")
        case True
        then have "sys_read (s_fd s) a p (length blk - unat (i_streamed it)) (Io n) w = (Ok (Streamed 0), w)" for p
          using sys_read_none bs by metis
        then show ?thesis using STREAM_OP_READING rem Io
          by (intro closed_step[OF cur] stream_stream_ends[OF cur nc info, where r="Streamed 0"]) simp_all
      next
        case False
        note step = read_body_step_buffer[OF cur STREAM_OP_READING st off blk(2,1,3) bs False]
        have k: "unat (i_streamed it) + length bs \<le> length blk" using bs off blk(3) by simp
        show ?thesis unfolding Io step fst_conv snd_conv
          by (intro conjI stepped_body[OF cur, where off="unat (i_streamed it)" and n="length bs"])
            (use k st len blk in \<open>simp_all add: body_ok_def\<close>)
      qed
    next
      case STREAM_OP_WRITING
      obtain m where m: "m = min n (length blk - unat (i_streamed it))" by simp
      show ?thesis
      proof (cases "m = 0")
        case True
        then have n0: "n = 0" using m off blk(3) by simp
        have "load_bytes a (In_buffer (msg_buffer it) (unat (i_streamed it))) (length blk - unat (i_streamed it)) w =
            (Ok (take (length blk - unat (i_streamed it)) (drop (unat (i_streamed it)) blk)), w)"
          using off blk by (simp add: load_bytes_def)
        from sys_write_none[OF this] STREAM_OP_WRITING rem Io n0 show ?thesis
          by (intro closed_step[OF cur] stream_stream_ends[OF cur nc info, where r="Streamed 0"]) simp_all
      next
        case False
        then have "0 < m" by simp
        note step = write_body_step[OF cur STREAM_OP_WRITING st off blk(1,3) m this]
        have k: "unat (i_streamed it) + m \<le> length blk" using m off blk(3) by simp
        show ?thesis unfolding Io step fst_conv snd_conv
          by (intro conjI stepped_body[OF cur, where off="unat (i_streamed it)" and n=m])
            (use k st len blk in \<open>simp_all add: body_ok_def\<close>)
      qed
    qed
  qed (use no_transfer_step[OF cur nc tr info] in auto)
qed

lemma stream_stream_safe:
  assumes ok: "heap_ok w" and cur: "cur w a s it" and tr: "in_transfer (m_bufs w) it"
  shows "fst (stream_stream a ans w) \<noteq> Undef \<and> stepped a (snd (stream_stream a ans w))"
proof (cases "i_state it = STREAM_STREAMING_HEADER")
  case True
  with header_step_safe[OF cur tr] show ?thesis .
next
  case False
  then have st: "i_type it = STREAM_TYPE_SOCKET" "i_state it = STREAM_STREAMING_BODY"
    using tr by (auto simp: in_transfer_def)
  show ?thesis
  proof (cases "body_ok (m_bufs w) it")
    case True
    with buffer_step_safe[OF cur tr st] show ?thesis .
  next
    case False
    then have rd: "i_op it = STREAM_OP_READING" "msg_buffer it = 0" and len: "length (i_payload it) = 24"
      and off: "unat (i_streamed it) < unat (h_size (msg_header it))"
      using tr st by (simp_all add: in_transfer_def item_wf_def)
    obtain b w1 where b: "calloc_buffer (unat (h_size (msg_header it))) w = (b, w1)" by fastforce
    from ok b show ?thesis
    proof (cases rule: calloc_buffer_cases)
      case 1
      have "calc_stream_info a w = (Fail, w)"
        using st rd b 1 by (simp add: calc_stream_info_def check_def load_next_cur[OF cur] Let_def)
      from stream_stream_no_calc[OF cur _ this] st show ?thesis
        by (intro closed_step[OF cur]) auto
    next
      case 2
      let ?it1 = "set_buffer b it" and ?w2 = "put_stream a (put_next (set_buffer b it) s) w1"
      have eq: "stream_stream a ans w = stream_stream a ans ?w2"
        by (rule read_body_step_alloc[OF cur rd(1) st rd(2) len b]) (use 2 in simp_all)
      have cur2: "cur ?w2 a (put_next ?it1 s) ?it1" using curD(2)[OF cur] by simp
      have flds: "msg_buffer ?it1 = b" "msg_header ?it1 = msg_header it" "length (i_payload ?it1) = 24"
        using len by simp_all
      have body: "body_ok (m_bufs ?w2) ?it1" unfolding body_ok_def flds using 2 by simp
      have "in_transfer (m_bufs ?w2) ?it1"
        unfolding in_transfer_def item_wf_def using body st off flds by simp
      from buffer_step_safe[OF cur2 this _ _ body] st show ?thesis unfolding eq by simp
    qed
  qed
qed

subsection \<open>The heap stays well formed\<close>

text \<open>An operation that allocates through \<open>calloc\<close> and otherwise only writes to live blocks.\<close>

lemma keeps_deref [keeps_intros]: "keeps P (deref a)"
  by (simp add: keeps_def deref_def split: option.split)

lemma keeps_load_next [keeps_intros]: "keeps P (load_next a)"
  unfolding load_next_def by (auto intro!: keeps_intros split: option.split)

lemma heap_ok_put_stream: "heap_ok w \<Longrightarrow> m_streams w a \<noteq> None \<Longrightarrow> heap_ok (put_stream a s w)"
  by (auto simp: heap_ok_def put_stream_def)

lemma keeps_on_stream [keeps_intros]: "keeps heap_ok (on_stream a m)"
  by (auto simp: keeps_def on_stream_def heap_ok_put_stream split: option.split prod.split)

lemma keeps_calloc [keeps_intros]:
  fixes k :: "addr \<Rightarrow> ('a, 'z mem_scheme) op"
  assumes "\<And>b. keeps heap_ok (k b)"
  shows "keeps heap_ok (\<lambda>w. case calloc_buffer n w of (b, w') \<Rightarrow> if b = 0 then (Fail, w') else k b w')"
  unfolding keeps_def
proof (intro allI impI)
  fix w :: "'z mem_scheme" assume ok: "heap_ok w"
  obtain b w' where b: "calloc_buffer n w = (b, w')" by fastforce
  with ok have "heap_ok w'" by (auto elim: calloc_buffer_cases)
  with b assms show "heap_ok (snd (case calloc_buffer n w of (b, w') \<Rightarrow> if b = 0 then (Fail, w') else k b w'))"
    by (simp add: keeps_def)
qed

lemma heap_ok_kernel [simp]:
  "heap_ok (w\<lparr>k_in := i\<rparr>) = heap_ok w" "heap_ok (w\<lparr>k_out := out\<rparr>) = heap_ok w"
  "heap_ok (w\<lparr>k_epoll := e\<rparr>) = heap_ok w" "heap_ok (w\<lparr>k_open := f\<rparr>) = heap_ok w"
  by (simp_all add: heap_ok_def)

lemma heap_ok_buffer: "heap_ok w \<Longrightarrow> m_bufs w b \<noteq> None \<Longrightarrow> heap_ok (w\<lparr>m_bufs := (m_bufs w)(b \<mapsto> x)\<rparr>)"
  by (auto simp: heap_ok_def)

lemma keeps_store_next [keeps_intros]: "keeps heap_ok (store_next a it)"
  unfolding store_next_def by (rule keeps_on_stream)

lemma keeps_set_state [keeps_intros]: "keeps heap_ok (set_state a st)"
  unfolding set_state_def by (intro keeps_intros)

lemma keeps_calc_stream_info [keeps_intros]: "keeps heap_ok (calc_stream_info a)"
  unfolding calc_stream_info_def Let_def
  by (intro keeps_intros) (auto intro!: keeps_intros split: stream_type.split)

lemma keeps_load_bytes [keeps_intros]: "keeps P (load_bytes a p n)"
proof (cases p)
  case (In_payload off)
  then show ?thesis unfolding load_bytes_def by (auto intro!: keeps_intros)
qed (simp add: load_bytes_def keeps_def split: option.split)

lemma keeps_store_bytes [keeps_intros]: "keeps heap_ok (store_bytes a p bs)"
proof (cases "bs = []")
  case False
  then show ?thesis
  proof (cases p)
    case (In_payload off)
    then show ?thesis unfolding store_bytes_def by (auto intro!: keeps_intros)
  next
    case (In_buffer b off)
    with False show ?thesis by (simp add: store_bytes_def keeps_def heap_ok_buffer split: option.split)
  qed
qed (simp add: store_bytes_def keeps_intros)

lemma keeps_sys_read [keeps_intros]: "keeps heap_ok (sys_read fd a p n ans)"
  unfolding sys_read_def by (cases ans) (auto intro!: keeps_intros keeps_modify)

lemma keeps_sys_write [keeps_intros]: "keeps heap_ok (sys_write fd a p n ans)"
  unfolding sys_write_def by (cases ans) (auto intro!: keeps_intros keeps_modify)

lemma keeps_after_io [keeps_intros]: "keeps heap_ok (after_io a info r)"
  unfolding after_io_def by (cases r) (auto intro!: keeps_intros simp: Let_def)

lemma keeps_stream_stream [keeps_intros]: "keeps heap_ok (stream_stream a ans)"
  unfolding stream_stream_def
  by (intro keeps_intros) (auto intro!: keeps_intros split: stream_operation.split)

end
