(* ===== verification/Rcn_Transfer.thy ===== *)
theory Rcn_Transfer
  imports Rcn_Stream_Safe
begin

section \<open>Whole messages over a stream\<close>

text \<open>
  Repeated calls of \<open>stream_stream\<close>, however the kernel splits the bytes: the receiving end
  reassembles exactly the message that was sent, the sending end writes exactly its bytes, and
  neither leaves the block it works on.  The loop is that of \<open>relay_start\<close> (rcn_relay.c); the
  daemon's epoll loop makes the same calls, one per event.
\<close>

text \<open>\<open>True\<close>: the item is complete; \<open>False\<close>: the answers are used up and the loop waits in \<open>poll\<close>.\<close>

primrec relay_wait :: "io_ans list \<Rightarrow> addr \<Rightarrow> (bool, 'z mem_scheme) op" where
  "relay_wait [] a = ret False"
| "relay_wait (x # xs) a =
     check (stream_stream a x) (\<lambda>_. check (load_next a) (\<lambda>it.
       check_not (i_state it = STREAM_STREAMING_CLOSED)
         (if i_state it = STREAM_STREAMING_COMPLETE then ret True else relay_wait xs a)))"

text \<open>How many of the answers transfer something.\<close>

definition progressing :: "io_ans list \<Rightarrow> bool" where
  "progressing xs \<longleftrightarrow> list_all (\<lambda>x. x = Io_again \<or> (\<exists>n. x = Io (Suc n))) xs"

definition transfers :: "io_ans list \<Rightarrow> nat" where
  "transfers xs = length (filter (\<lambda>x. x \<noteq> Io_again) xs)"

lemma dec_header_take: "16 \<le> n \<Longrightarrow> dec_header (take n p) = dec_header p"
  by (simp add: dec_header_def min_def drop_take)

lemma msg_header_of_take: "take 16 (i_payload it) = hb \<Longrightarrow> msg_header it = dec_header hb"
  using dec_header_take[of 16 "i_payload it"] by (simp add: msg_header_def)

subsection \<open>Receiving\<close>

text \<open>
  \<open>rcv w a fd hb body rest k\<close>: the stream at \<open>a\<close> has taken \<open>k\<close> bytes of the message
  \<open>hb @ body\<close> from descriptor \<open>fd\<close>, behind which \<open>rest\<close> is waiting.
\<close>

definition rcv_item ::
  "'z mem_scheme \<Rightarrow> byte list \<Rightarrow> byte list \<Rightarrow> nat \<Rightarrow> stream_item \<Rightarrow> bool" where
  "rcv_item w hb body k it \<longleftrightarrow>
     i_op it = STREAM_OP_READING \<and> i_type it = STREAM_TYPE_SOCKET \<and> length (i_payload it) = 24 \<and>
     (if k < 16
      then i_state it = STREAM_STREAMING_HEADER \<and> unat (i_streamed it) = k \<and>
        take k (i_payload it) = take k hb \<and> msg_buffer it = 0 \<and> fresh (length body) w
      else if k < 16 + length body
      then i_state it = STREAM_STREAMING_BODY \<and> unat (i_streamed it) = k - 16 \<and>
        take 16 (i_payload it) = hb \<and>
        (k = 16 \<and> msg_buffer it = 0 \<and> fresh (length body) w \<or>
         msg_buffer it \<noteq> 0 \<and> (\<exists>blk. m_bufs w (msg_buffer it) = Some blk \<and>
           length blk = length body \<and> take (k - 16) blk = take (k - 16) body))
      else i_state it = STREAM_STREAMING_COMPLETE \<and> i_streamed it = 0 \<and>
        take 16 (i_payload it) = hb \<and>
        (if body = [] then msg_buffer it = 0
         else msg_buffer it \<noteq> 0 \<and> m_bufs w (msg_buffer it) = Some body))"

definition rcv ::
  "'z mem_scheme \<Rightarrow> addr \<Rightarrow> int \<Rightarrow> byte list \<Rightarrow> byte list \<Rightarrow> byte list \<Rightarrow> nat \<Rightarrow> bool" where
  "rcv w a fd hb body rest k \<longleftrightarrow> heap_ok w \<and> k \<le> 16 + length body \<and>
     k_in w fd = drop k (hb @ body @ rest) \<and>
     (\<exists>s it. cur w a s it \<and> s_fd s = fd \<and> rcv_item w hb body k it)"

lemma rcvI:
  "heap_ok w \<Longrightarrow> k \<le> 16 + length body \<Longrightarrow> k_in w fd = drop k (hb @ body @ rest) \<Longrightarrow>
   cur w a s it \<Longrightarrow> s_fd s = fd \<Longrightarrow> rcv_item w hb body k it \<Longrightarrow> rcv w a fd hb body rest k"
  unfolding rcv_def by blast

text \<open>A header that announces the body behind it.\<close>

definition announces :: "byte list \<Rightarrow> byte list \<Rightarrow> bool" where
  "announces hb body \<longleftrightarrow> length hb = 16 \<and> h_size (dec_header hb) = of_nat (length body) \<and>
     length body < 2 ^ 63"

lemma announces_size: "announces hb body \<Longrightarrow> unat (h_size (dec_header hb)) = length body"
  by (simp add: announces_def unat_of_nat take_bit_nat_eq_self)

lemma announces_zero: "announces hb body \<Longrightarrow> h_size (dec_header hb) = 0 \<longleftrightarrow> body = []"
  using announces_size[of hb body] by (auto simp: unat_eq_0[symmetric])

lemma finish_header:
  "i_type it = STREAM_TYPE_SOCKET \<Longrightarrow> i_state it = STREAM_STREAMING_HEADER \<Longrightarrow>
   finish_part it = it\<lparr>i_streamed := 0, i_state := (if h_size (msg_header it) = 0
     then STREAM_STREAMING_COMPLETE else STREAM_STREAMING_BODY)\<rparr>"
  by (simp add: finish_part_def msg_header_def Let_def)

lemma finish_body:
  "i_type it = STREAM_TYPE_SOCKET \<Longrightarrow> i_state it = STREAM_STREAMING_BODY \<Longrightarrow>
   finish_part it = it\<lparr>i_streamed := 0, i_state := STREAM_STREAMING_COMPLETE\<rparr>"
  by (simp add: finish_part_def Let_def)

lemma heap_ok_frame:
  "heap_ok w \<Longrightarrow> m_brk w' = m_brk w \<Longrightarrow>
   (\<And>x. m_streams w' x \<noteq> None \<Longrightarrow> m_streams w x \<noteq> None) \<Longrightarrow>
   (\<And>x. m_bufs w' x \<noteq> None \<Longrightarrow> m_bufs w x \<noteq> None) \<Longrightarrow> heap_ok w'"
  unfolding heap_ok_def by metis

lemma unat_streamed_add:
  "unat (x :: u64) + n \<le> 2 ^ 63 \<Longrightarrow> unat (x + of_nat n) = unat x + n"
  by (subst unat_add_small) (simp_all add: unat_of_nat take_bit_nat_eq_self)

lemma rcv_header_step:
  assumes rcv: "rcv w a fd hb body rest k" and k: "k < 16" and ann: "announces hb body"
  shows "\<exists>w' k'. stream_stream a (Io (Suc n)) w = (Ok (), w') \<and> k < k' \<and> rcv w' a fd hb body rest k'"
proof -
  from rcv obtain s it where ok: "heap_ok w" and kin: "k_in w fd = drop k (hb @ body @ rest)"
    and cur: "cur w a s it" and fd: "s_fd s = fd" and it: "rcv_item w hb body k it"
    by (auto simp: rcv_def)
  have st: "i_op it = STREAM_OP_READING" "i_type it = STREAM_TYPE_SOCKET" "length (i_payload it) = 24"
    "i_state it = STREAM_STREAMING_HEADER" "unat (i_streamed it) = k"
    "take k (i_payload it) = take k hb" "msg_buffer it = 0" "fresh (length body) w"
    using it k by (simp_all add: rcv_item_def)
  have hb: "length hb = 16" using ann by (simp add: announces_def)
  obtain m where m: "m = min (Suc n) (16 - k)" by simp
  obtain bs where bs_def: "bs = take m (drop k hb)" by simp
  have bounds: "0 < m" "k + m \<le> 16" and lbs: "length bs = m" and app: "take (k + m) hb = take k hb @ bs"
    using hb k by (simp_all add: m bs_def take_add)
  have bs: "bs = take (min (Suc n) (16 - unat (i_streamed it))) (k_in w (s_fd s))" "bs \<noteq> []"
    using hb k kin fd st(5) lbs bounds(1) by (auto simp: bs_def m)
  let ?it = "got_payload 16 k bs it"
  let ?w' = "put_stream a (put_next ?it s) (w\<lparr>k_in := (k_in w)(fd := drop m (k_in w fd))\<rparr>)"
  have step: "stream_stream a (Io (Suc n)) w = (Ok (), ?w')"
    using read_payload_step[OF cur st(1) _ _ _ st(3) bs] st k fd lbs by simp
  let ?p = "overwrite k bs (i_payload it)"
  have len: "length ?p = 24" using st(3) bounds lbs by simp
  have pre: "take (k + m) ?p = take (k + m) hb"
    using take_overwrite[of k "i_payload it" bs] st(3,6) k lbs app by simp
  have buf: "msg_buffer j = 0" if "i_payload j = ?p" for j
    using st(7) drop_overwrite[of k bs 16 "i_payload it"] st(3) bounds lbs that by (simp add: msg_buffer_def)
  have sum: "unat (i_streamed it + of_nat (length bs)) = k + m"
    using unat_streamed_add[of "i_streamed it" "length bs"] st(5) bounds lbs by simp
  have item: "rcv_item ?w' hb body (k + m) ?it"
  proof (cases "k + m = 16")
    case False
    with bounds have "k + m < 16" by simp
    then show ?thesis
      using st len pre buf sum lbs False
      by (simp add: rcv_item_def got_payload_def Let_def fresh_def)
  next
    case True
    then have t16: "take 16 ?p = hb" using pre hb by simp
    have "msg_header (it\<lparr>i_payload := ?p, i_streamed := x\<rparr>) = dec_header hb" for x
      using dec_header_take[of 16 ?p] t16 by (simp add: msg_header_def)
    then have it16: "?it = it\<lparr>i_payload := ?p, i_streamed := 0,
        i_state := (if body = [] then STREAM_STREAMING_COMPLETE else STREAM_STREAMING_BODY)\<rparr>"
      using True lbs st(2,4) announces_zero[OF ann]
      by (simp add: got_payload_def finish_header)
    then show ?thesis
      using st(1,2,8) len buf t16 True by (simp add: rcv_item_def fresh_def)
  qed
  have "k_in ?w' fd = drop m (k_in w fd)" by simp
  then have kin': "k_in ?w' fd = drop (k + m) (hb @ body @ rest)"
    unfolding kin by (simp only: drop_drop add.commute)
  have ok': "heap_ok ?w'"
    using curD(1)[OF cur] by (intro heap_ok_frame[OF ok]) (auto split: if_splits)
  have cur': "cur ?w' a (put_next ?it s) ?it" using curD(2)[OF cur] by simp
  have "rcv ?w' a fd hb body rest (k + m)"
    by (rule rcvI[OF ok' _ kin' cur' _ item]) (use fd bounds in simp_all)
  with step bounds(1) show ?thesis by (intro exI[of _ ?w'] exI[of _ "k + m"]) simp
qed

text \<open>The buffer of a body, allocated by the first \<open>stream_stream\<close> after the header.\<close>

lemma rcv_body_buffer:
  assumes rcv: "rcv w a fd hb body rest k" and k: "16 \<le> k" "k < 16 + length body"
    and ann: "announces hb body"
  shows "\<exists>w' s it blk. heap_ok w' \<and> k_in w' fd = drop k (hb @ body @ rest) \<and> cur w' a s it \<and>
    s_fd s = fd \<and> i_op it = STREAM_OP_READING \<and> i_type it = STREAM_TYPE_SOCKET \<and>
    length (i_payload it) = 24 \<and> i_state it = STREAM_STREAMING_BODY \<and>
    unat (i_streamed it) = k - 16 \<and> take 16 (i_payload it) = hb \<and> msg_buffer it \<noteq> 0 \<and>
    m_bufs w' (msg_buffer it) = Some blk \<and> length blk = length body \<and>
    take (k - 16) blk = take (k - 16) body \<and>
    (\<forall>ans. stream_stream a ans w = stream_stream a ans w')"
proof -
  from rcv obtain s it where ok: "heap_ok w" and kin: "k_in w fd = drop k (hb @ body @ rest)"
    and cur: "cur w a s it" and fd: "s_fd s = fd" and it: "rcv_item w hb body k it"
    by (auto simp: rcv_def)
  have st: "i_op it = STREAM_OP_READING" "i_type it = STREAM_TYPE_SOCKET" "length (i_payload it) = 24"
    "i_state it = STREAM_STREAMING_BODY" "unat (i_streamed it) = k - 16" "take 16 (i_payload it) = hb"
    using it k by (simp_all add: rcv_item_def)
  have sz: "unat (h_size (msg_header it)) = length body"
    using announces_size[OF ann] msg_header_of_take[OF st(6)] by simp
  show ?thesis
  proof (cases "msg_buffer it = 0")
    case False
    then obtain blk where "m_bufs w (msg_buffer it) = Some blk" "length blk = length body"
      "take (k - 16) blk = take (k - 16) body" using it k by (auto simp: rcv_item_def)
    with False ok kin cur fd st show ?thesis by blast
  next
    case True
    then have fresh: "fresh (length body) w" and k16: "k = 16" using it k by (auto simp: rcv_item_def)
    obtain b w1 where cb: "calloc_buffer (length body) w = (b, w1)" by fastforce
    have b: "b \<noteq> 0" "heap_ok w1"
      and w1: "w1 = w\<lparr>m_bufs := (m_bufs w)(b \<mapsto> replicate (length body) 0), m_brk := m_brk w + 16\<rparr>"
      using calloc_buffer_cases[OF ok cb] fresh cb heap_ok_unused[OF ok]
      by (auto simp: calloc_buffer_def)
    let ?it = "set_buffer b it" and ?w = "put_stream a (put_next (set_buffer b it) s) w1"
    have "stream_stream a ans w = stream_stream a ans ?w" for ans
      using read_body_step_alloc[OF cur st(1,2,4) True st(3) _ b(1), of w1] cb sz w1 by simp
    moreover have "heap_ok ?w"
      using curD(1)[OF cur] w1 by (intro heap_ok_frame[OF b(2)]) (auto split: if_splits)
    moreover have "cur ?w a (put_next ?it s) ?it" using curD(2)[OF cur] by simp
    moreover have "take 16 (i_payload ?it) = hb"
      using st(3,6) by (auto simp: set_buffer_def)
    ultimately show ?thesis
      using kin fd st b(1) w1 k16
      by (intro exI[of _ ?w] exI[of _ "put_next ?it s"] exI[of _ ?it]
          exI[of _ "replicate (length body) 0"]) simp
  qed
qed

lemma rcv_body_step:
  assumes rcv: "rcv w a fd hb body rest k" and k: "16 \<le> k" "k < 16 + length body"
    and ann: "announces hb body"
  shows "\<exists>w' k'. stream_stream a (Io (Suc n)) w = (Ok (), w') \<and> k < k' \<and> rcv w' a fd hb body rest k'"
proof -
  obtain w0 s it blk where ok: "heap_ok w0" and kin: "k_in w0 fd = drop k (hb @ body @ rest)"
    and cur: "cur w0 a s it" and fd: "s_fd s = fd"
    and st: "i_op it = STREAM_OP_READING" "i_type it = STREAM_TYPE_SOCKET" "length (i_payload it) = 24"
      "i_state it = STREAM_STREAMING_BODY" "unat (i_streamed it) = k - 16" "take 16 (i_payload it) = hb"
    and buf: "msg_buffer it \<noteq> 0" "m_bufs w0 (msg_buffer it) = Some blk" "length blk = length body"
      "take (k - 16) blk = take (k - 16) body"
    and same: "\<forall>ans. stream_stream a ans w = stream_stream a ans w0"
    using rcv_body_buffer[OF assms] by blast
  have hb: "length hb = 16" using ann by (simp add: announces_def)
  have sz: "unat (h_size (msg_header it)) = length body"
    using announces_size[OF ann] msg_header_of_take[OF st(6)] by simp
  obtain j where j: "k = 16 + j" "j < length body" using k by (metis le_Suc_ex nat_add_left_cancel_less)
  have kin0: "k_in w0 fd = drop j body @ rest" using kin hb j by simp
  obtain m where m: "m = min (Suc n) (length body - j)" by simp
  obtain bs where bs_def: "bs = take m (drop j body)" by simp
  have bounds: "0 < m" "j + m \<le> length body" and lbs: "length bs = m"
    and app: "take (j + m) body = take j body @ bs"
    using j by (simp_all add: m bs_def take_add)
  have bs: "bs = take (min (Suc n) (length blk - unat (i_streamed it))) (k_in w0 (s_fd s))" "bs \<noteq> []"
    using j kin0 fd st(5) buf(3) lbs bounds(1) by (auto simp: bs_def m)
  let ?it = "got_body j (length bs) it"
  let ?w1 = "w0\<lparr>m_bufs := (m_bufs w0)(msg_buffer it \<mapsto> overwrite j bs blk),
      k_in := (k_in w0)(fd := drop m (k_in w0 fd))\<rparr>"
  let ?w' = "put_stream a (put_next ?it s) ?w1"
  have step: "stream_stream a (Io (Suc n)) w0 = (Ok (), ?w')"
    using read_body_step_buffer[OF cur st(1,2,4) _ buf(1,2) _ bs] sz buf(3) st(5) j fd lbs by simp
  have len: "length (overwrite j bs blk) = length body" using buf(3) bounds lbs by simp
  have pre: "take (j + m) (overwrite j bs blk) = take (j + m) body"
    using take_overwrite[of j blk bs] buf(3,4) j lbs app by simp
  have sum: "unat (i_streamed it + of_nat m) = j + m"
    using unat_streamed_add[of "i_streamed it" m] st(5) bounds j ann by (simp add: announces_def)
  have item: "rcv_item ?w' hb body (k + m) ?it"
  proof (cases "j + m = length body")
    case False
    then show ?thesis using st buf(1) len pre sum lbs bounds j sz
      by (simp add: rcv_item_def got_body_def Let_def msg_buffer_def)
  next
    case True
    then have "?it = it\<lparr>i_streamed := 0, i_state := STREAM_STREAMING_COMPLETE\<rparr>"
      using lbs sz st(2,4) by (simp add: got_body_def finish_body)
    moreover have "overwrite j bs blk = body" using pre len True by simp
    moreover have "body \<noteq> []" using j by auto
    ultimately show ?thesis using st buf(1) j True by (simp add: rcv_item_def msg_buffer_def)
  qed
  have "k_in ?w' fd = drop m (k_in w0 fd)" by simp
  then have kin': "k_in ?w' fd = drop (k + m) (hb @ body @ rest)"
    unfolding kin by (simp only: drop_drop add.commute)
  have ok': "heap_ok ?w'"
    using curD(1)[OF cur] buf(2) by (intro heap_ok_frame[OF ok]) (auto split: if_splits)
  have cur': "cur ?w' a (put_next ?it s) ?it" using curD(2)[OF cur] by simp
  have "rcv ?w' a fd hb body rest (k + m)"
    by (rule rcvI[OF ok' _ kin' cur' _ item]) (use fd bounds j in simp_all)
  with step same bounds(1) show ?thesis by (intro exI[of _ ?w'] exI[of _ "k + m"]) simp
qed

lemma rcv_again:
  assumes rcv: "rcv w a fd hb body rest k" and k: "k < 16 + length body" and ann: "announces hb body"
  shows "\<exists>w'. stream_stream a Io_again w = (Ok (), w') \<and> rcv w' a fd hb body rest k"
proof (cases "k < 16")
  case True
  from rcv obtain s it where cur: "cur w a s it" and it: "rcv_item w hb body k it"
    by (auto simp: rcv_def)
  have st: "i_type it = STREAM_TYPE_SOCKET" "i_state it = STREAM_STREAMING_HEADER"
    using it True by (simp_all add: rcv_item_def)
  have "stream_stream a Io_again w = (Ok (), w)"
    by (rule stream_stream_again[OF cur _ calc_stream_info_payload[OF cur, of 16]]) (simp_all add: st)
  with rcv show ?thesis by blast
next
  case False
  obtain w0 s it blk where ok: "heap_ok w0" and kin: "k_in w0 fd = drop k (hb @ body @ rest)"
    and cur: "cur w0 a s it" and fd: "s_fd s = fd"
    and st: "i_op it = STREAM_OP_READING" "i_type it = STREAM_TYPE_SOCKET" "length (i_payload it) = 24"
      "i_state it = STREAM_STREAMING_BODY" "unat (i_streamed it) = k - 16" "take 16 (i_payload it) = hb"
    and buf: "msg_buffer it \<noteq> 0" "m_bufs w0 (msg_buffer it) = Some blk" "length blk = length body"
      "take (k - 16) blk = take (k - 16) body"
    and same: "\<forall>ans. stream_stream a ans w = stream_stream a ans w0"
    using rcv_body_buffer[OF rcv _ k ann] False by auto
  have "stream_stream a Io_again w0 = (Ok (), w0)"
    by (rule stream_stream_again[OF cur _ calc_stream_info_body[OF cur st(2,4)]]) (simp_all add: st buf)
  moreover have "rcv_item w0 hb body k it"
    using st buf False k by (simp add: rcv_item_def)
  then have "rcv w0 a fd hb body rest k"
    using rcvI[OF ok _ kin cur fd] k by simp
  ultimately show ?thesis using same by auto
qed

text \<open>One more answer: the loop goes on from a state further in the message.\<close>

lemma rcv_step:
  assumes "rcv w a fd hb body rest k" and "k < 16 + length body" and "announces hb body"
    and "x = Io_again \<or> (\<exists>n. x = Io (Suc n))"
  shows "\<exists>w' k'. stream_stream a x w = (Ok (), w') \<and> rcv w' a fd hb body rest k' \<and>
    k + (if x = Io_again then 0 else 1) \<le> k'"
proof (cases "x = Io_again")
  case True
  with rcv_again[OF assms(1-3)] show ?thesis by auto
next
  case False
  with assms(4) obtain n where x: "x = Io (Suc n)" by blast
  have "\<exists>w' k'. stream_stream a (Io (Suc n)) w = (Ok (), w') \<and> k < k' \<and> rcv w' a fd hb body rest k'"
    using rcv_header_step[OF assms(1) _ assms(3)] rcv_body_step[OF assms(1) _ assms(2,3)]
    by (cases "k < 16") auto
  with x show ?thesis by (auto simp: Suc_le_eq)
qed

subsection \<open>Sending\<close>

text \<open>\<open>k\<close> bytes of \<open>hb @ body\<close> have been written behind \<open>out\<close>.\<close>

definition snd_item ::
  "'z mem_scheme \<Rightarrow> byte list \<Rightarrow> byte list \<Rightarrow> nat \<Rightarrow> stream_item \<Rightarrow> bool" where
  "snd_item w hb body k it \<longleftrightarrow>
     i_op it = STREAM_OP_WRITING \<and> i_type it = STREAM_TYPE_SOCKET \<and> length (i_payload it) = 24 \<and>
     take 16 (i_payload it) = hb \<and> m_bufs w (msg_buffer it) = Some body \<and>
     (if k < 16 then i_state it = STREAM_STREAMING_HEADER \<and> unat (i_streamed it) = k
      else if k < 16 + length body
      then i_state it = STREAM_STREAMING_BODY \<and> unat (i_streamed it) = k - 16
      else i_state it = STREAM_STREAMING_COMPLETE \<and> i_streamed it = 0)"

definition snd_at ::
  "'z mem_scheme \<Rightarrow> addr \<Rightarrow> int \<Rightarrow> byte list \<Rightarrow> byte list \<Rightarrow> byte list \<Rightarrow> nat \<Rightarrow> bool" where
  "snd_at w a fd out hb body k \<longleftrightarrow> k \<le> 16 + length body \<and>
     k_out w fd = out @ take k (hb @ body) \<and>
     (\<exists>s it. cur w a s it \<and> s_fd s = fd \<and> snd_item w hb body k it)"

lemma snd_atI:
  "k \<le> 16 + length body \<Longrightarrow> k_out w fd = out @ take k (hb @ body) \<Longrightarrow>
   cur w a s it \<Longrightarrow> s_fd s = fd \<Longrightarrow> snd_item w hb body k it \<Longrightarrow> snd_at w a fd out hb body k"
  unfolding snd_at_def by blast

lemma snd_header_step:
  assumes snd: "snd_at w a fd out hb body k" and k: "k < 16" and ann: "announces hb body"
  shows "\<exists>w' k'. stream_stream a (Io (Suc n)) w = (Ok (), w') \<and> k < k' \<and> snd_at w' a fd out hb body k'"
proof -
  from snd obtain s it where kout: "k_out w fd = out @ take k (hb @ body)"
    and cur: "cur w a s it" and fd: "s_fd s = fd" and it: "snd_item w hb body k it"
    by (auto simp: snd_at_def)
  have st: "i_op it = STREAM_OP_WRITING" "i_type it = STREAM_TYPE_SOCKET" "length (i_payload it) = 24"
    "take 16 (i_payload it) = hb" "m_bufs w (msg_buffer it) = Some body"
    "i_state it = STREAM_STREAMING_HEADER" "unat (i_streamed it) = k"
    using it k by (simp_all add: snd_item_def)
  obtain m where m: "m = min (Suc n) (16 - unat (i_streamed it))" by simp
  have bounds: "0 < m" "k + m \<le> 16" using m k st(7) by simp_all
  have hb: "length hb = 16" using ann by (simp add: announces_def)
  let ?it' = "it\<lparr>i_streamed := i_streamed it + of_nat m\<rparr>"
  let ?it = "if k + m = 16 then finish_part ?it' else ?it'"
  let ?w' = "put_stream a (put_next ?it s)
      (w\<lparr>k_out := (k_out w)(fd := k_out w fd @ take m (drop k (i_payload it)))\<rparr>)"
  have step: "stream_stream a (Io (Suc n)) w = (Ok (), ?w')"
    using write_payload_step[OF cur st(1) _ _ _ st(3) m bounds(1)] st k fd by (simp add: Let_def)
  have "take m (drop k (i_payload it)) = take m (drop k hb)"
    unfolding st(4)[symmetric] using bounds(2) by (simp add: drop_take min_def)
  moreover have "take (k + m) hb = take k hb @ take m (drop k hb)" by (rule take_add)
  ultimately have sent: "take k (hb @ body) @ take m (drop k (i_payload it)) = take (k + m) (hb @ body)"
    using hb bounds(2) k by simp
  have kout': "k_out ?w' fd = out @ take (k + m) (hb @ body)"
    using kout sent by simp
  have sum: "unat (i_streamed it + of_nat m) = k + m"
    using unat_streamed_add[of "i_streamed it" m] st(7) bounds by simp
  have hdr: "msg_header it = dec_header hb" by (rule msg_header_of_take[OF st(4)])
  have buf: "m_bufs w (msg_buffer j) = Some body" if "i_payload j = i_payload it" for j
    using st(5) that by (simp add: msg_buffer_def)
  have item: "snd_item ?w' hb body (k + m) ?it"
  proof (cases "k + m = 16")
    case True
    then have "?it = it\<lparr>i_streamed := 0,
        i_state := (if body = [] then STREAM_STREAMING_COMPLETE else STREAM_STREAMING_BODY)\<rparr>"
      using st(2,6) announces_zero[OF ann] hdr by (simp add: finish_header msg_header_def)
    then show ?thesis using st(1-4) True buf by (simp add: snd_item_def)
  next
    case False
    with bounds have "k + m < 16" by simp
    then show ?thesis using st sum False buf by (simp add: snd_item_def)
  qed
  have cur': "cur ?w' a (put_next ?it s) ?it" using curD(2)[OF cur] by simp
  have "snd_at ?w' a fd out hb body (k + m)"
    by (rule snd_atI[OF _ kout' cur' _ item]) (use fd bounds in simp_all)
  with step bounds(1) show ?thesis by (intro exI[of _ ?w'] exI[of _ "k + m"]) simp
qed

lemma snd_body_step:
  assumes snd: "snd_at w a fd out hb body k" and k: "16 \<le> k" "k < 16 + length body"
    and ann: "announces hb body"
  shows "\<exists>w' k'. stream_stream a (Io (Suc n)) w = (Ok (), w') \<and> k < k' \<and> snd_at w' a fd out hb body k'"
proof -
  from snd obtain s it where kout: "k_out w fd = out @ take k (hb @ body)"
    and cur: "cur w a s it" and fd: "s_fd s = fd" and it: "snd_item w hb body k it"
    by (auto simp: snd_at_def)
  have st: "i_op it = STREAM_OP_WRITING" "i_type it = STREAM_TYPE_SOCKET" "length (i_payload it) = 24"
    "take 16 (i_payload it) = hb" "m_bufs w (msg_buffer it) = Some body"
    "i_state it = STREAM_STREAMING_BODY" "unat (i_streamed it) = k - 16"
    using it k by (simp_all add: snd_item_def)
  have hb: "length hb = 16" using ann by (simp add: announces_def)
  have sz: "unat (h_size (msg_header it)) = length body"
    using announces_size[OF ann] msg_header_of_take[OF st(4)] by simp
  obtain j where j: "k = 16 + j" "j < length body"
    using k by (metis le_Suc_ex nat_add_left_cancel_less)
  obtain m where m: "m = min (Suc n) (length body - unat (i_streamed it))" by simp
  have stj: "unat (i_streamed it) = j" using st(7) j(1) by simp
  have bounds: "0 < m" "j + m \<le> length body" using m j(2) stj by simp_all
  let ?it = "got_body j m it"
  let ?w' = "put_stream a (put_next ?it s)
      (w\<lparr>k_out := (k_out w)(fd := k_out w fd @ take m (drop j body))\<rparr>)"
  have step: "stream_stream a (Io (Suc n)) w = (Ok (), ?w')"
    using write_body_step[OF cur st(1,2,6) _ st(5) sz[symmetric] m bounds(1)] j(2)
    unfolding sz stj fd by blast
  have kout': "k_out ?w' fd = out @ take (k + m) (hb @ body)"
  proof -
    have "take (j + m) body = take j body @ take m (drop j body)" by (rule take_add)
    then show ?thesis using kout hb j by simp
  qed
  have sum: "unat (i_streamed it + of_nat m) = j + m"
    using unat_streamed_add[of "i_streamed it" m] st(7) bounds j ann by (simp add: announces_def)
  have buf: "m_bufs w (msg_buffer x) = Some body" if "i_payload x = i_payload it" for x
    using st(5) that by (simp add: msg_buffer_def)
  have item: "snd_item ?w' hb body (k + m) ?it"
  proof (cases "j + m = length body")
    case True
    then have "?it = it\<lparr>i_streamed := 0, i_state := STREAM_STREAMING_COMPLETE\<rparr>"
      using sz st(2,6) by (simp add: got_body_def finish_body)
    then show ?thesis using st(1-4) True j buf by (simp add: snd_item_def)
  next
    case False
    then show ?thesis using st sum bounds j buf sz by (simp add: snd_item_def got_body_def Let_def)
  qed
  have cur': "cur ?w' a (put_next ?it s) ?it" using curD(2)[OF cur] by simp
  have "snd_at ?w' a fd out hb body (k + m)"
    by (rule snd_atI[OF _ kout' cur' _ item]) (use fd bounds j in simp_all)
  with step bounds(1) show ?thesis by (intro exI[of _ ?w'] exI[of _ "k + m"]) simp
qed

lemma snd_again:
  assumes snd: "snd_at w a fd out hb body k" and k: "k < 16 + length body"
  shows "stream_stream a Io_again w = (Ok (), w)"
proof -
  from snd obtain s it where cur: "cur w a s it" and it: "snd_item w hb body k it"
    by (auto simp: snd_at_def)
  have st: "i_type it = STREAM_TYPE_SOCKET" "i_op it = STREAM_OP_WRITING"
    "i_state it = (if k < 16 then STREAM_STREAMING_HEADER else STREAM_STREAMING_BODY)"
    using it k by (auto simp: snd_item_def)
  show ?thesis
  proof (cases "k < 16")
    case True
    show ?thesis
      by (rule stream_stream_again[OF cur _ calc_stream_info_payload[OF cur, of 16]])
        (simp_all add: st True)
  next
    case False
    show ?thesis
      by (rule stream_stream_again[OF cur _ calc_stream_info_body[OF cur st(1)]])
        (simp_all add: st False)
  qed
qed

lemma snd_step:
  assumes "snd_at w a fd out hb body k" and "k < 16 + length body" and "announces hb body"
    and "x = Io_again \<or> (\<exists>n. x = Io (Suc n))"
  shows "\<exists>w' k'. stream_stream a x w = (Ok (), w') \<and> snd_at w' a fd out hb body k' \<and>
    k + (if x = Io_again then 0 else 1) \<le> k'"
proof (cases "x = Io_again")
  case True
  with snd_again[OF assms(1,2)] assms(1) show ?thesis by auto
next
  case False
  with assms(4) obtain n where x: "x = Io (Suc n)" by blast
  have "\<exists>w' k'. stream_stream a (Io (Suc n)) w = (Ok (), w') \<and> k < k' \<and> snd_at w' a fd out hb body k'"
    using snd_header_step[OF assms(1) _ assms(3)] snd_body_step[OF assms(1) _ assms(2,3)]
    by (cases "k < 16") auto
  with x show ?thesis by (auto simp: Suc_le_eq)
qed

subsection \<open>The loop\<close>

text \<open>
  Both directions make progress in the same way: an answer that transfers something moves the
  transfer on, and the item is complete exactly at the end.  The loop lemma is proved once.
\<close>

locale transfer_progress =
  fixes at :: "'z mem_scheme \<Rightarrow> nat \<Rightarrow> bool"
    and a :: addr
    and len :: nat
  assumes step_law: "at w k \<Longrightarrow> k < len \<Longrightarrow> x = Io_again \<or> (\<exists>n. x = Io (Suc n)) \<Longrightarrow>
      \<exists>w' k'. stream_stream a x w = (Ok (), w') \<and> at w' k' \<and> k + (if x = Io_again then 0 else 1) \<le> k'"
    and item_law: "at w k \<Longrightarrow> k \<le> len \<and> (\<exists>s it. cur w a s it \<and>
      i_state it \<noteq> STREAM_STREAMING_CLOSED \<and> (i_state it = STREAM_STREAMING_COMPLETE \<longleftrightarrow> k = len))"
begin

lemma loop:
  assumes "at w k" and "k < len" and "progressing xs"
  shows "\<exists>done w' k'. relay_wait xs a w = (Ok done, w') \<and> at w' k' \<and>
    (done \<longleftrightarrow> k' = len) \<and> (done \<or> k + transfers xs \<le> k')"
  using assms
proof (induction xs arbitrary: w k)
  case Nil
  then show ?case by (auto simp: ret_def transfers_def)
next
  case (Cons x xs)
  have x: "x = Io_again \<or> (\<exists>n. x = Io (Suc n))" and xs: "progressing xs"
    using Cons.prems(3) by (simp_all add: progressing_def)
  obtain w1 k1 where w1: "stream_stream a x w = (Ok (), w1)" "at w1 k1"
    and k1: "k + (if x = Io_again then 0 else 1) \<le> k1"
    using step_law[OF Cons.prems(1,2) x] by blast
  obtain s it where cur: "cur w1 a s it" and live: "i_state it \<noteq> STREAM_STREAMING_CLOSED"
    and fin: "i_state it = STREAM_STREAMING_COMPLETE \<longleftrightarrow> k1 = len" and le: "k1 \<le> len"
    using item_law[OF w1(2)] by blast
  show ?case
  proof (cases "k1 = len")
    case True
    then have "relay_wait (x # xs) a w = (Ok True, w1)"
      using w1(1) live fin by (simp add: check_def check_not_def load_next_cur[OF cur] ret_def)
    with True w1(2) show ?thesis by blast
  next
    case False
    with le have "k1 < len" by simp
    then obtain d w' k' where ih: "relay_wait xs a w1 = (Ok d, w')" "at w' k'"
      "d \<longleftrightarrow> k' = len" "d \<or> k1 + transfers xs \<le> k'"
      using Cons.IH[OF w1(2) _ xs] by blast
    have "relay_wait (x # xs) a w = (Ok d, w')"
      using w1(1) live fin False ih(1)
      by (simp add: check_def check_not_def load_next_cur[OF cur] ret_def)
    moreover have "d \<or> k + transfers (x # xs) \<le> k'"
      using ih(4) k1 by (auto simp: transfers_def split: if_splits)
    ultimately show ?thesis using ih(2,3) by blast
  qed
qed

text \<open>Enough transferring answers finish the message.\<close>

lemma finishes:
  assumes "at w k" and "k < len" and "progressing xs" and "len \<le> k + transfers xs"
  shows "\<exists>w'. relay_wait xs a w = (Ok True, w') \<and> at w' len"
proof -
  obtain d w' k' where r: "relay_wait xs a w = (Ok d, w')" "at w' k'" "d \<longleftrightarrow> k' = len"
    "d \<or> k + transfers xs \<le> k'"
    using loop[OF assms(1-3)] by blast
  moreover have "k' \<le> len" using item_law[OF r(2)] by blast
  ultimately have "k' = len" using assms(4) by auto
  with r show ?thesis by auto
qed

end

interpretation rx: transfer_progress
  "\<lambda>w k. rcv w a fd hb body rest k \<and> announces hb body" a "16 + length body"
  for a :: addr and fd :: int and hb body rest :: "byte list"
proof
  fix w :: "'z mem_scheme" and k x
  assume at: "rcv w a fd hb body rest k \<and> announces hb body"
  show "k < 16 + length body \<Longrightarrow> x = Io_again \<or> (\<exists>n. x = Io (Suc n)) \<Longrightarrow>
      \<exists>w' k'. stream_stream a x w = (Ok (), w') \<and> (rcv w' a fd hb body rest k' \<and> announces hb body) \<and>
        k + (if x = Io_again then 0 else 1) \<le> k'"
    using rcv_step[of w a fd hb body rest k x] at by blast
  from at obtain s it where "cur w a s it" "rcv_item w hb body k it" "k \<le> 16 + length body"
    by (auto simp: rcv_def)
  then show "k \<le> 16 + length body \<and> (\<exists>s it. cur w a s it \<and>
      i_state it \<noteq> STREAM_STREAMING_CLOSED \<and> (i_state it = STREAM_STREAMING_COMPLETE \<longleftrightarrow> k = 16 + length body))"
    by (intro conjI exI[of _ s] exI[of _ it]) (auto simp: rcv_item_def split: if_splits)
qed

interpretation tx: transfer_progress
  "\<lambda>w k. snd_at w a fd out hb body k \<and> announces hb body" a "16 + length body"
  for a :: addr and fd :: int and out hb body :: "byte list"
proof
  fix w :: "'z mem_scheme" and k x
  assume at: "snd_at w a fd out hb body k \<and> announces hb body"
  show "k < 16 + length body \<Longrightarrow> x = Io_again \<or> (\<exists>n. x = Io (Suc n)) \<Longrightarrow>
      \<exists>w' k'. stream_stream a x w = (Ok (), w') \<and> (snd_at w' a fd out hb body k' \<and> announces hb body) \<and>
        k + (if x = Io_again then 0 else 1) \<le> k'"
    using snd_step[of w a fd out hb body k x] at by blast
  from at obtain s it where "cur w a s it" "snd_item w hb body k it" "k \<le> 16 + length body"
    by (auto simp: snd_at_def)
  then show "k \<le> 16 + length body \<and> (\<exists>s it. cur w a s it \<and>
      i_state it \<noteq> STREAM_STREAMING_CLOSED \<and> (i_state it = STREAM_STREAMING_COMPLETE \<longleftrightarrow> k = 16 + length body))"
    by (intro conjI exI[of _ s] exI[of _ it]) (auto simp: snd_item_def split: if_splits)
qed

subsection \<open>Whatever arrives\<close>

lemma relay_wait_safe:
  assumes "heap_ok w" and "stepped a w"
    and "\<And>s it. cur w a s it \<Longrightarrow> i_state it \<noteq> STREAM_STREAMING_CLOSED \<and> i_state it \<noteq> STREAM_STREAMING_COMPLETE"
  shows "fst (relay_wait xs a w) \<noteq> Undef"
  using assms
proof (induction xs arbitrary: w)
  case Nil
  then show ?case by (simp add: ret_def)
next
  case (Cons x xs)
  then obtain s it where cur: "cur w a s it" "in_transfer (m_bufs w) it" by (auto simp: stepped_def)
  obtain r w1 where r: "stream_stream a x w = (r, w1)" by fastforce
  have step: "r \<noteq> Undef" "stepped a w1" using stream_stream_safe[OF Cons.prems(1) cur, of x] r by auto
  have ok: "heap_ok w1" using keepsD[OF keeps_stream_stream Cons.prems(1) r] .
  obtain s1 it1 where cur1: "cur w1 a s1 it1" using step(2) by (auto simp: stepped_def)
  have uniq: "it' = it1" if "cur w1 a s' it'" for s' it' using that cur1 by (simp add: cur_def)
  show ?case
  proof (cases "r = Ok () \<and> i_state it1 \<noteq> STREAM_STREAMING_CLOSED \<and> i_state it1 \<noteq> STREAM_STREAMING_COMPLETE")
    case True
    then have "fst (relay_wait xs a w1) \<noteq> Undef"
      using Cons.IH[OF ok step(2)] uniq by blast
    with True r show ?thesis by (simp add: check_def check_not_def load_next_cur[OF cur1])
  next
    case False
    with r step(1) show ?thesis
      by (cases r) (auto simp: check_def check_not_def load_next_cur[OF cur1] ret_def fail_def)
  qed
qed

end
