(* ===== verification/Rcn_Outbox.thy ===== *)
theory Rcn_Outbox
  imports Rcn_Transfer
begin

section \<open>What is waiting to be sent\<close>

text \<open>
  The abstract view of the queueing half of the stream layer: every live stream has an outbox,
  the list of messages and events in its queue.  The invariant \<open>mem_ok\<close> says that the queue and
  the pointer \<open>next\<close> of every stream agree and that every queued message owns a live buffer.
  The locale \<open>mailbox\<close> is the contract the relay and peer handlers use: sending appends one entry
  to one outbox and changes nothing else.
\<close>

subsection \<open>Well-formed streams\<close>

definition stream_ok :: "epoll_stream \<Rightarrow> bool" where
  "stream_ok s \<longleftrightarrow> q_inv (s_queue s) \<and> (s_next s = At_head \<longleftrightarrow> q_items (s_queue s) \<noteq> []) \<and>
     (\<forall>it \<in> set (s_fallback s # q_items (s_queue s)). length (i_payload it) = 24)"

lemma arr_data_elems:
  assumes "arr_inv arr" and "elems arr = x # xs"
  shows "\<exists>cs. arr_data arr = Some (Some x # cs)"
proof -
  obtain cs where cs: "arr_data arr = Some cs" "\<forall>k < unat (arr_length arr). cs ! k \<noteq> None"
    "elems arr = map the (take (unat (arr_length arr)) cs)"
    using assms(1) by (rule arr_invE)
  have "0 < unat (arr_length arr)" using length_elems[OF assms(1)] assms(2) by simp
  moreover from this obtain c cs' where "cs = c # cs'" using cs(3) assms(2) by (cases cs) auto
  ultimately show ?thesis using cs assms(2)
    by (cases "unat (arr_length arr)") (auto dest: spec[of _ 0])
qed

lemma queue_head_items:
  "q_inv (s_queue s) \<Longrightarrow> q_items (s_queue s) = x # xs \<Longrightarrow> queue_head s = Some x"
  using arr_data_elems[of "q_array (s_queue s)" x xs]
  by (auto simp: queue_head_def q_inv_def q_items_def)

lemma next_item_ok:
  assumes "stream_ok s"
  shows "next_item s = Some (case q_items (s_queue s) of [] \<Rightarrow> s_fallback s | x # _ \<Rightarrow> x)"
proof (cases "q_items (s_queue s)")
  case Nil
  then have "s_next s = At_fallback" using assms by (cases "s_next s") (simp_all add: stream_ok_def)
  with Nil show ?thesis by (simp add: next_item_def)
next
  case (Cons x xs)
  then have "s_next s = At_head" using assms by (simp add: stream_ok_def)
  with Cons assms show ?thesis by (simp add: next_item_def queue_head_items stream_ok_def)
qed

lemma put_head_items:
  assumes "q_inv (s_queue s)" and "q_items (s_queue s) = x # xs"
  shows "q_inv (s_queue (put_head it s)) \<and> q_items (s_queue (put_head it s)) = it # xs"
proof -
  let ?arr = "q_array (s_queue s)"
  have inv: "arr_inv ?arr" and el: "elems ?arr = x # xs"
    using assms by (simp_all add: q_inv_def q_items_def)
  obtain cs where cs: "arr_data ?arr = Some (Some x # cs)" using arr_data_elems[OF inv el] by blast
  have len: "0 < unat (arr_length ?arr)" using length_elems[OF inv] el by simp
  then have "map the (take (unat (arr_length ?arr)) (Some y # cs)) = y # xs" for y
    using el cs by (cases "unat (arr_length ?arr)") (auto simp: elems_def)
  moreover have "arr_inv (?arr\<lparr>arr_data := Some (Some it # cs)\<rparr>)"
    using inv cs len by (auto simp: arr_inv_def nth_Cons split: nat.splits)
  ultimately show ?thesis using assms(1) cs
    by (simp add: put_head_def q_inv_def q_items_def elems_def)
qed

lemma put_next_ok:
  assumes "stream_ok s" and "length (i_payload it) = 24"
  shows "stream_ok (put_next it s) \<and> q_items (s_queue (put_next it s)) =
    (case q_items (s_queue s) of [] \<Rightarrow> [] | _ # xs \<Rightarrow> it # xs)"
proof (cases "q_items (s_queue s)")
  case Nil
  then have "s_next s = At_fallback" using assms by (cases "s_next s") (simp_all add: stream_ok_def)
  with Nil assms show ?thesis by (simp add: put_next_def stream_ok_def)
next
  case (Cons x xs)
  then have "s_next s = At_head" using assms by (simp add: stream_ok_def)
  moreover have "s_next (put_head it s) = s_next s" "s_fallback (put_head it s) = s_fallback s"
    by (simp_all add: put_head_def)
  ultimately show ?thesis using Cons assms put_head_items[of s x xs it]
    by (auto simp: put_next_def stream_ok_def)
qed

subsection \<open>Outboxes\<close>

datatype out_entry = Msg u32 "byte list" | Evt input_event

definition item_out :: "(addr \<Rightarrow> byte list option) \<Rightarrow> stream_item \<Rightarrow> out_entry" where
  "item_out bufs it = (if i_type it = STREAM_TYPE_SOCKET
     then Msg (h_value (msg_header it)) (the (bufs (msg_buffer it)))
     else Evt (item_event it))"

definition outbox :: "addr \<Rightarrow> 'z mem_scheme \<Rightarrow> out_entry list" where
  "outbox a w = (case m_streams w a of None \<Rightarrow> []
     | Some s \<Rightarrow> map (item_out (m_bufs w)) (q_items (s_queue s)))"

lemma outbox_cong: "m_streams w' a = m_streams w a \<Longrightarrow> m_bufs w' = m_bufs w \<Longrightarrow> outbox a w' = outbox a w"
  by (simp add: outbox_def split: option.split)

text \<open>A queued message is a complete, unsent item with a buffer of its announced size.\<close>

definition item_ok :: "(addr \<Rightarrow> byte list option) \<Rightarrow> stream_item \<Rightarrow> bool" where
  "item_ok bufs it \<longleftrightarrow> (i_type it = STREAM_TYPE_SOCKET \<longrightarrow>
     (\<exists>bs. bufs (msg_buffer it) = Some bs \<and> unat (h_size (msg_header it)) = length bs))"

definition mem_ok :: "'z mem_scheme \<Rightarrow> bool" where
  "mem_ok w \<longleftrightarrow> heap_ok w \<and> (\<forall>a s. m_streams w a = Some s \<longrightarrow>
     stream_ok s \<and> list_all (item_ok (m_bufs w)) (q_items (s_queue s)))"

lemma mem_okD:
  "mem_ok w \<Longrightarrow> heap_ok w"
  "mem_ok w \<Longrightarrow> m_streams w a = Some s \<Longrightarrow> stream_ok s"
  "mem_ok w \<Longrightarrow> m_streams w a = Some s \<Longrightarrow> list_all (item_ok (m_bufs w)) (q_items (s_queue s))"
  by (simp_all add: mem_ok_def)

text \<open>A live stream whose descriptor is open and registered.\<close>

definition connected :: "addr \<Rightarrow> 'z mem_scheme \<Rightarrow> bool" where
  "connected a w \<longleftrightarrow> (\<exists>s. m_streams w a = Some s \<and> k_open w (s_fd s) \<and> k_epoll w (s_fd s) \<noteq> None)"

text \<open>What no queueing operation changes.\<close>

definition same_base :: "'z mem_scheme \<Rightarrow> 'z mem_scheme \<Rightarrow> bool" where
  "same_base w w' \<longleftrightarrow> mem.more w' = mem.more w \<and> m_av w' = m_av w \<and> k_in w' = k_in w \<and>
     k_out w' = k_out w \<and> k_open w' = k_open w \<and> (\<forall>fd. k_epoll w' fd = None \<longleftrightarrow> k_epoll w fd = None) \<and>
     (\<forall>a. map_option s_fd (m_streams w' a) = map_option s_fd (m_streams w a)) \<and>
     (\<forall>a. map_option s_fd_type (m_streams w' a) = map_option s_fd_type (m_streams w a))"

lemma same_base_refl [simp]: "same_base w w"
  by (simp add: same_base_def)

lemma same_base_trans: "same_base w1 w2 \<Longrightarrow> same_base w2 w3 \<Longrightarrow> same_base w1 w3"
  by (simp add: same_base_def)

lemma same_base_connected: "same_base w w' \<Longrightarrow> connected a w' \<longleftrightarrow> connected a w"
proof -
  assume b: "same_base w w'"
  then have "map_option s_fd (m_streams w' a) = map_option s_fd (m_streams w a)"
    by (simp add: same_base_def)
  with b show ?thesis unfolding connected_def same_base_def
    by (cases "m_streams w a"; cases "m_streams w' a") auto
qed

lemma same_base_put:
  "m_streams w a = Some s \<Longrightarrow> s_fd s' = s_fd s \<Longrightarrow> s_fd_type s' = s_fd_type s \<Longrightarrow>
    same_base w (put_stream a s' w)"
  by (simp add: same_base_def put_stream_def)

subsection \<open>Queueing an item\<close>

lemma push_item_spec:
  assumes s: "m_streams w a = Some s" "stream_ok s" and it: "length (i_payload it) = 24"
    and r: "push_item a it w = (r, w')"
  shows "\<exists>s'. w' = put_stream a s' w \<and> stream_ok s' \<and> s_fd s' = s_fd s \<and>
    s_fd_type s' = s_fd_type s \<and> s_fallback s' = s_fallback s \<and>
    s_default_op s' = s_default_op s \<and> s_default_type s' = s_default_type s \<and>
    (r = Ok () \<and> q_items (s_queue s') = q_items (s_queue s) @ [it] \<or>
     r = Fail \<and> q_items (s_queue s') = q_items (s_queue s))"
proof -
  have inv: "q_inv (s_queue s)" using s(2) by (simp add: stream_ok_def)
  obtain r1 q1 where q1: "u_queue_push (m_av w) it (s_queue s) = (r1, q1)" by fastforce
  note spec = u_queue_push_spec[OF inv q1]
  show ?thesis
  proof (cases r1)
    case (Ok u)
    with spec have items: "q_items q1 = q_items (s_queue s) @ [it]" "q_inv q1" by auto
    then have "u_queue_peek q1 = (Ok 0, q1)" by (simp add: u_queue_peek_spec)
    with q1 Ok r s(1) have "r = Ok ()" "w' = put_stream a (s\<lparr>s_queue := q1, s_next := At_head\<rparr>) w"
      by (auto simp: push_item_def check_def gets_def on_stream_def zoom_def modify_def)
    then show ?thesis using items s(2) it
      by (intro exI[of _ "s\<lparr>s_queue := q1, s_next := At_head\<rparr>"]) (simp add: stream_ok_def)
  next
    case Fail
    with q1 r s(1) have "r = Fail" "w' = put_stream a (s\<lparr>s_queue := q1\<rparr>) w"
      by (auto simp: push_item_def check_def gets_def on_stream_def zoom_def modify_def)
    then show ?thesis using Fail spec s(2)
      by (intro exI[of _ "s\<lparr>s_queue := q1\<rparr>"]) (simp add: stream_ok_def)
  qed (use spec in auto)
qed

definition mask_of :: "stream_item \<Rightarrow> ep_mask" where
  "mask_of it = (if i_op it = STREAM_OP_WRITING then EPOLLOUT else EPOLLIN)"

lemma sync_spec:
  assumes "cur w a s it" and "k_open w (s_fd s)" and "k_epoll w (s_fd s) \<noteq> None"
  shows "e_epoll_sync_stream a w =
    (Ok (), w\<lparr>k_epoll := (k_epoll w)(s_fd s \<mapsto> (mask_of it, a))\<rparr>)"
  using assms(2,3) by (simp add: e_epoll_sync_stream_def check_def load_next_cur[OF assms(1)]
      deref_cur[OF assms(1)] epoll_ctl_mod_def mask_of_def)

text \<open>Replacing one stream by a well-formed one keeps the invariant.\<close>

lemma mem_ok_put_stream:
  assumes "mem_ok w" and "m_streams w a = Some s" and "stream_ok s'"
    and "list_all (item_ok (m_bufs w)) (q_items (s_queue s'))"
  shows "mem_ok (put_stream a s' w)"
proof -
  have "heap_ok (put_stream a s' w)"
    using mem_okD(1)[OF assms(1)] assms(2) by (rule_tac heap_ok_frame) (auto split: if_splits)
  then show ?thesis using assms by (auto simp: mem_ok_def)
qed

lemma mem_ok_epoll [simp]: "mem_ok (w\<lparr>k_epoll := e\<rparr>) \<longleftrightarrow> mem_ok w"
  by (simp add: mem_ok_def heap_ok_def)

lemma item_ok_upd: "item_ok bufs it \<Longrightarrow> bufs b = None \<Longrightarrow> item_ok (bufs(b := x)) it"
  by (auto simp: item_ok_def)

lemma item_out_upd: "item_ok bufs it \<Longrightarrow> bufs b = None \<Longrightarrow> item_out (bufs(b := x)) it = item_out bufs it"
  by (auto simp: item_ok_def item_out_def)

lemma mem_ok_new_buffer:
  assumes "mem_ok w" and "m_bufs w b = None" and "heap_ok w'"
    and "w' = w\<lparr>m_bufs := (m_bufs w)(b \<mapsto> bs), m_brk := k\<rparr>"
  shows "mem_ok w' \<and> (\<forall>a. outbox a w' = outbox a w)"
proof -
  have "list_all (item_ok (m_bufs w')) (q_items (s_queue s))" if "m_streams w a = Some s" for a s
    using mem_okD(3)[OF assms(1) that] assms(2,4) by (auto simp: list_all_iff intro: item_ok_upd)
  moreover have "outbox a w' = outbox a w" for a
  proof (cases "m_streams w a")
    case (Some s)
    have "map (item_out ((m_bufs w)(b \<mapsto> bs))) (q_items (s_queue s)) =
        map (item_out (m_bufs w)) (q_items (s_queue s))"
      using mem_okD(3)[OF assms(1) Some] assms(2) by (auto simp: list_all_iff intro: item_out_upd)
    with Some assms(4) show ?thesis by (simp add: outbox_def)
  qed (simp add: outbox_def assms(4))
  ultimately show ?thesis using assms by (auto simp: mem_ok_def)
qed

text \<open>Pushing an item whose buffer (if any) is live, then synchronising.\<close>

text \<open>A push cannot fail while the queue has not used up its capacity.\<close>

lemma u_array_add_room:
  "arr_inv arr \<Longrightarrow> unat (arr_length arr) < unat (arr_capacity arr) \<Longrightarrow> fst (u_array_add av x arr) = Ok ()"
  by (auto simp: u_array_add_def check_def ret_def store_cell_ok modify_def dest: arr_inv_data)

definition has_room :: "addr \<Rightarrow> 'z mem_scheme \<Rightarrow> bool" where
  "has_room a w \<longleftrightarrow> (\<exists>s. m_streams w a = Some s \<and>
     unat (arr_length (q_array (s_queue s))) < unat (arr_capacity (q_array (s_queue s))))"

lemma push_item_room:
  assumes "stream_ok s" "m_streams w a = Some s" "has_room a w"
  shows "fst (push_item a it w) = Ok ()"
proof -
  have inv: "q_inv (s_queue s)" using assms(1) by (simp add: stream_ok_def)
  have "fst (u_array_add (m_av w) it (q_array (s_queue s))) = Ok ()"
    using assms inv by (intro u_array_add_room) (auto simp: has_room_def q_inv_def)
  then have "fst (u_queue_push (m_av w) it (s_queue s)) = Ok ()"
    by (cases "u_array_add (m_av w) it (q_array (s_queue s))") (simp add: u_queue_push_def op_simps)
  then obtain q1 where q1: "u_queue_push (m_av w) it (s_queue s) = (Ok (), q1)" by (metis prod.collapse)
  then have "u_queue_peek q1 = (Ok 0, q1)" using u_queue_push_spec[OF inv q1] by (simp add: u_queue_peek_spec)
  with q1 assms(2) show ?thesis
    by (simp add: push_item_def check_def gets_def on_stream_def zoom_def modify_def)
qed

definition queued :: "addr \<Rightarrow> stream_item \<Rightarrow> 'z mem_scheme \<Rightarrow> 'z mem_scheme \<Rightarrow> bool" where
  "queued a it w w' \<longleftrightarrow> (\<exists>s s'. m_streams w a = Some s \<and> m_streams w' a = Some s' \<and> stream_ok s' \<and>
     s_fd s' = s_fd s \<and> q_items (s_queue s') = q_items (s_queue s) @ [it])"

lemma push_and_sync:
  assumes ok: "mem_ok w" and con: "connected a w" and it: "length (i_payload it) = 24"
    and item: "item_ok (m_bufs w) it"
    and r: "check (push_item a it) (\<lambda>_. check (e_epoll_sync_stream a) (\<lambda>_. ret ())) w = (r, w')"
  shows "mem_ok w' \<and> same_base w w' \<and> m_bufs w' = m_bufs w \<and> (\<forall>b. b \<noteq> a \<longrightarrow> outbox b w' = outbox b w) \<and>
    (r = Ok () \<and> outbox a w' = outbox a w @ [item_out (m_bufs w) it] \<or>
     r = Fail \<and> outbox a w' = outbox a w) \<and> (r = Ok () \<longrightarrow> queued a it w w') \<and> (has_room a w \<longrightarrow> r = Ok ())"
proof -
  from con obtain s where s: "m_streams w a = Some s" "k_open w (s_fd s)" "k_epoll w (s_fd s) \<noteq> None"
    by (auto simp: connected_def)
  have sok: "stream_ok s" "list_all (item_ok (m_bufs w)) (q_items (s_queue s))"
    using mem_okD[OF ok] s(1) by auto
  obtain r1 w1 where r1: "push_item a it w = (r1, w1)" by fastforce
  obtain s' where s': "w1 = put_stream a s' w" "stream_ok s'" "s_fd s' = s_fd s" "s_fd_type s' = s_fd_type s"
    "r1 = Ok () \<and> q_items (s_queue s') = q_items (s_queue s) @ [it] \<or>
     r1 = Fail \<and> q_items (s_queue s') = q_items (s_queue s)"
    using push_item_spec[OF s(1) sok(1) it r1] by blast
  have all: "list_all (item_ok (m_bufs w)) (q_items (s_queue s'))"
    using s'(5) sok(2) item by auto
  have ok1: "mem_ok w1" using mem_ok_put_stream[OF ok s(1) s'(2) all] s'(1) by simp
  have base1: "same_base w w1" using same_base_put[OF s(1) s'(3,4)] s'(1) by simp
  have others: "outbox b w1 = outbox b w" if "b \<noteq> a" for b
    using that by (intro outbox_cong) (simp_all add: s'(1))
  have out: "outbox a w1 = map (item_out (m_bufs w)) (q_items (s_queue s'))" "outbox a w = map (item_out (m_bufs w)) (q_items (s_queue s))"
    using s(1) by (simp_all add: outbox_def s'(1))
  show ?thesis
  proof (cases "r1 = Ok ()")
    case True
    let ?nx = "case q_items (s_queue s') of [] \<Rightarrow> s_fallback s' | x # _ \<Rightarrow> x"
    have cur: "cur w1 a s' ?nx" using next_item_ok[OF s'(2)] by (simp add: cur_def s'(1))
    have "e_epoll_sync_stream a w1 = (Ok (), w1\<lparr>k_epoll := (k_epoll w1)(s_fd s' \<mapsto> (mask_of ?nx, a))\<rparr>)"
      using sync_spec[OF cur] s s'(1,3) by simp
    then have w': "r = Ok ()" "w' = w1\<lparr>k_epoll := (k_epoll w1)(s_fd s' \<mapsto> (mask_of ?nx, a))\<rparr>"
      using r r1 True by (auto simp: check_def ret_def)
    have "same_base w1 w'" using s s'(1,3) by (simp add: same_base_def w'(2))
    moreover have "outbox b w' = outbox b w1" for b by (rule outbox_cong) (simp_all add: w'(2))
    moreover have "queued a it w w'"
      using s'(2,3,5) s(1) True unfolding queued_def by (simp add: w'(2) s'(1))
    ultimately show ?thesis
      using ok1 base1 others out s'(5) True w' same_base_trans[OF base1]
      by (auto simp: s'(1) put_stream_def)
  next
    case False
    then have "r = Fail" "w' = w1" using r r1 s'(5) by (auto simp: check_def)
    moreover have "\<not> has_room a w" using push_item_room[OF sok(1) s(1), of it] r1 False by auto
    ultimately show ?thesis using ok1 base1 others out s'(5) False by (auto simp: s'(1) put_stream_def)
  qed
qed

subsection \<open>Sending\<close>

text \<open>\<open>stream_queue_writing_socket\<close> and \<open>stream_queue_writing_device\<close> as operations on outboxes.\<close>

lemma send_socket_cases:
  assumes ok: "mem_ok w" and con: "connected a w" and src: "unat sz \<le> length bytes"
    and r: "stream_queue_writing_socket a v sz bytes w = (r, w')"
  obtains "r = Fail" "w' = w" "\<not> fresh (unat sz) w"
  | w2 it where "mem_ok w2" "connected a w2" "same_base w w2" "\<forall>b. outbox b w2 = outbox b w"
    "m_streams w2 = m_streams w" "length (i_payload it) = 24" "i_type it = STREAM_TYPE_SOCKET"
    "i_op it = STREAM_OP_WRITING" "i_state it = STREAM_STREAMING_HEADER" "i_streamed it = 0"
    "take 16 (i_payload it) = enc_header \<lparr>h_size = sz, h_value = v\<rparr>"
    "m_bufs w2 (msg_buffer it) = Some (take (unat sz) bytes)" "unat sz < 2 ^ 63"
    "check (push_item a it) (\<lambda>_. check (e_epoll_sync_stream a) (\<lambda>_. ret ())) w2 = (r, w')"
proof -
  obtain b w1 where b: "calloc_buffer (unat sz) w = (b, w1)" by fastforce
  from mem_okD(1)[OF ok] b show thesis
  proof (cases rule: calloc_buffer_cases)
    case 1
    then have "r = Fail" "w' = w"
      using r b by (auto simp: stream_queue_writing_socket_def Let_def check_def)
    moreover have "\<not> fresh (unat sz) w"
      using 1 b mem_okD(1)[OF ok] by (auto simp: calloc_buffer_def dest: heap_ok_unused)
    ultimately show thesis by (rule that(1))
  next
    case 2
    let ?bs = "take (unat sz) bytes"
    let ?w2 = "w1\<lparr>m_bufs := (m_bufs w1)(b \<mapsto> ?bs)\<rparr>"
    let ?it0 = "set_header \<lparr>h_size = sz, h_value = v\<rparr> (zero_item\<lparr>i_state := STREAM_STREAMING_HEADER,
         i_op := STREAM_OP_WRITING, i_type := STREAM_TYPE_SOCKET, i_streamed := 0\<rparr>)"
    have len0: "length (i_payload ?it0) = 24" by (simp add: set_header_def zero_item_def)
    have w2: "?w2 = w\<lparr>m_bufs := (m_bufs w)(b \<mapsto> ?bs), m_brk := m_brk w + 16\<rparr>" using 2 by simp
    have "heap_ok ?w2" using 2 by (rule_tac heap_ok_frame[of w1]) (auto split: if_splits)
    note fresh = mem_ok_new_buffer[OF ok 2(2) this w2]
    have con2: "connected a ?w2" using con unfolding w2 by (simp add: connected_def)
    have base2: "same_base w ?w2" unfolding w2 by (simp add: same_base_def)
    have hdr: "take 16 (i_payload (set_buffer b ?it0)) = enc_header \<lparr>h_size = sz, h_value = v\<rparr>"
      by (simp add: set_buffer_def set_header_def)
    have "check (push_item a (set_buffer b ?it0)) (\<lambda>_. check (e_epoll_sync_stream a) (\<lambda>_. ret ())) ?w2 = (r, w')"
      using r b 2(1) src by (simp add: stream_queue_writing_socket_def Let_def check_def fill_buffer_def)
    moreover have "unat sz < 2 ^ 63"
      using b 2(1) by (auto simp: calloc_buffer_def fresh_def granted_def split: if_splits)
    ultimately show thesis
      using that(2)[OF conjunct1[OF fresh] con2 base2 conjunct2[OF fresh] _ _ _ _ _ _ hdr] len0
      by (simp add: w2)
  qed
qed

lemma send_socket_spec:
  assumes ok: "mem_ok w" and con: "connected a w" and src: "unat sz \<le> length bytes"
    and r: "stream_queue_writing_socket a v sz bytes w = (r, w')"
  shows "mem_ok w' \<and> same_base w w' \<and> (\<forall>b. b \<noteq> a \<longrightarrow> outbox b w' = outbox b w) \<and>
    (r = Ok () \<and> outbox a w' = outbox a w @ [Msg v (take (unat sz) bytes)] \<or>
     r = Fail \<and> outbox a w' = outbox a w)"
  using assms
proof (cases rule: send_socket_cases)
  case 1
  with ok show ?thesis by simp
next
  case (2 w2 it)
  have hdr: "msg_header it = \<lparr>h_size = sz, h_value = v\<rparr>"
    using msg_header_of_take[OF 2(11)] dec_enc_header[of _ "[]"] by simp
  have "item_ok (m_bufs w2) it" unfolding item_ok_def hdr using 2(12) src by simp
  from push_and_sync[OF 2(1,2,6) this 2(14)] show ?thesis
    using 2(3,4,7,12) same_base_trans by (auto simp: item_out_def hdr)
qed

text \<open>The item of a message that has been queued: all of it is still to be sent.\<close>

lemma send_socket_queued:
  assumes ok: "mem_ok w" and con: "connected a w" and src: "unat sz \<le> length bytes"
    and r: "stream_queue_writing_socket a v sz bytes w = (Ok (), w')"
  obtains it where "queued a it w w'" "length (i_payload it) = 24" "i_type it = STREAM_TYPE_SOCKET"
    "i_op it = STREAM_OP_WRITING" "i_state it = STREAM_STREAMING_HEADER" "i_streamed it = 0"
    "take 16 (i_payload it) = enc_header \<lparr>h_size = sz, h_value = v\<rparr>"
    "m_bufs w' (msg_buffer it) = Some (take (unat sz) bytes)" "unat sz < 2 ^ 63"
  using assms
proof (cases rule: send_socket_cases)
  case (2 w2 it)
  have hdr: "msg_header it = \<lparr>h_size = sz, h_value = v\<rparr>"
    using msg_header_of_take[OF 2(11)] dec_enc_header[of _ "[]"] by simp
  have "item_ok (m_bufs w2) it" unfolding item_ok_def hdr using 2(12) src by simp
  from push_and_sync[OF 2(1,2,6) this 2(14)] have "queued a it w2 w'" "m_bufs w' = m_bufs w2" by auto
  with 2 show thesis by (intro that[of it]) (simp_all add: queued_def)
qed simp

text \<open>With memory and room, queueing a message succeeds.\<close>

lemma send_succeeds:
  assumes ok: "mem_ok w" and con: "connected a w" and src: "unat sz \<le> length bytes"
    and mem: "fresh (unat sz) w" and room: "has_room a w"
  shows "\<exists>w'. stream_queue_writing_socket a v sz bytes w = (Ok (), w')"
proof -
  obtain r w' where r: "stream_queue_writing_socket a v sz bytes w = (r, w')" by fastforce
  from ok con src r have "r = Ok ()"
  proof (cases rule: send_socket_cases)
    case (2 w2 it)
    have hdr: "msg_header it = \<lparr>h_size = sz, h_value = v\<rparr>"
      using msg_header_of_take[OF 2(11)] dec_enc_header[of _ "[]"] by simp
    have "item_ok (m_bufs w2) it" unfolding item_ok_def hdr using 2(12) src by simp
    from push_and_sync[OF 2(1,2,6) this 2(14)] show ?thesis using room 2(5) by (simp add: has_room_def)
  qed (use mem in simp)
  with r show ?thesis by blast
qed

lemma send_device_spec:
  assumes ok: "mem_ok w" and con: "connected a w"
    and r: "stream_queue_writing_device a e w = (r, w')"
  shows "mem_ok w' \<and> same_base w w' \<and> (\<forall>b. b \<noteq> a \<longrightarrow> outbox b w' = outbox b w) \<and>
    (r = Ok () \<and> outbox a w' = outbox a w @ [Evt e] \<or> r = Fail \<and> outbox a w' = outbox a w)"
proof -
  let ?it = "set_event e (zero_item\<lparr>i_state := STREAM_STREAMING_HEADER,
         i_op := STREAM_OP_WRITING, i_type := STREAM_TYPE_DEVICE\<rparr>)"
  have "check (push_item a ?it) (\<lambda>_. check (e_epoll_sync_stream a) (\<lambda>_. ret ())) w = (r, w')"
    using r by (simp add: stream_queue_writing_device_def Let_def)
  from push_and_sync[OF ok con _ _ this] show ?thesis by (auto simp: item_ok_def item_out_def)
qed

subsection \<open>The mailbox contract\<close>

text \<open>
  Sending one kind of entry: it reaches exactly one outbox, keeps the invariant \<open>inv\<close>, and
  preserves which addresses can be sent to.
\<close>

locale mailbox =
  fixes inv :: "'w \<Rightarrow> bool"
    and can_send :: "addr \<Rightarrow> 'w \<Rightarrow> bool"
    and box :: "addr \<Rightarrow> 'w \<Rightarrow> 'e list"
    and frame :: "'w \<Rightarrow> 'w \<Rightarrow> bool"
    and send :: "addr \<Rightarrow> 'm \<Rightarrow> (unit, 'w) op"
    and entry :: "'m \<Rightarrow> 'e"
    and sendable :: "'m \<Rightarrow> bool"
  assumes frame_refl: "frame w w"
    and frame_trans: "frame u v \<Longrightarrow> frame v w \<Longrightarrow> frame u w"
    and frame_can_send: "frame v w \<Longrightarrow> can_send a w = can_send a v"
    and send_law: "inv w \<Longrightarrow> can_send a w \<Longrightarrow> sendable m \<Longrightarrow> send a m w = (r, w') \<Longrightarrow>
      inv w' \<and> frame w w' \<and> (\<forall>b. b \<noteq> a \<longrightarrow> box b w' = box b w) \<and>
      (r = Ok () \<and> box a w' = box a w @ [entry m] \<or> r = Fail \<and> box a w' = box a w)"
begin

lemma send_safe: "inv w \<Longrightarrow> can_send a w \<Longrightarrow> sendable m \<Longrightarrow> fst (send a m w) \<noteq> Undef"
  using send_law[of w a m] by (cases "send a m w") auto

text \<open>Sending the same message to several addresses: one entry per occurrence.\<close>

lemma broadcast:
  assumes "inv w" and "\<forall>a \<in> set as. can_send a w" and "sendable m"
    and "for_each (\<lambda>a. send a m) as w = (r, w')"
  shows "inv w' \<and> frame w w' \<and> r \<noteq> Undef \<and> (\<forall>b. b \<notin> set as \<longrightarrow> box b w' = box b w) \<and>
    (r = Ok () \<longrightarrow> (\<forall>b. box b w' = box b w @ replicate (count_list as b) (entry m)))"
  using assms
proof (induction as arbitrary: w)
  case Nil
  then show ?case by (auto simp: ret_def frame_refl)
next
  case (Cons a as)
  obtain r1 w1 where r1: "send a m w = (r1, w1)" by fastforce
  note law = send_law[OF Cons.prems(1) _ Cons.prems(3) r1]
  have can: "can_send a w" using Cons.prems(2) by simp
  show ?case
  proof (cases "r1 = Ok ()")
    case True
    have rest: "for_each (\<lambda>a. send a m) as w1 = (r, w')"
      using Cons.prems(4) r1 True by (simp add: check_def)
    have "\<forall>x \<in> set as. can_send x w1"
      using Cons.prems(2) law[OF can] frame_can_send by auto
    from Cons.IH[OF _ this Cons.prems(3) rest] law[OF can] True show ?thesis
      by (auto intro: frame_trans)
  next
    case False
    then have "r = Fail" "w' = w1" using Cons.prems(4) r1 law[OF can] by (auto simp: check_def)
    with law[OF can] show ?thesis by auto
  qed
qed

text \<open>Sending several messages to one address: they queue up in order.\<close>

lemma send_sequence:
  assumes "inv w" and "can_send a w" and "\<forall>m \<in> set ms. sendable m"
    and "for_each (send a) ms w = (r, w')"
  shows "inv w' \<and> frame w w' \<and> r \<noteq> Undef \<and> (\<forall>b. b \<noteq> a \<longrightarrow> box b w' = box b w) \<and>
    (r = Ok () \<longrightarrow> box a w' = box a w @ map entry ms)"
  using assms
proof (induction ms arbitrary: w)
  case Nil
  then show ?case by (auto simp: ret_def frame_refl)
next
  case (Cons m ms)
  obtain r1 w1 where r1: "send a m w = (r1, w1)" by fastforce
  have law: "inv w1 \<and> frame w w1 \<and> (\<forall>b. b \<noteq> a \<longrightarrow> box b w1 = box b w) \<and>
      (r1 = Ok () \<and> box a w1 = box a w @ [entry m] \<or> r1 = Fail \<and> box a w1 = box a w)"
    using send_law[OF Cons.prems(1,2) _ r1] Cons.prems(3) by simp
  show ?case
  proof (cases "r1 = Ok ()")
    case True
    have rest: "for_each (send a) ms w1 = (r, w')"
      using Cons.prems(4) r1 True by (simp add: check_def)
    have "can_send a w1" using law Cons.prems(2) frame_can_send by blast
    from Cons.IH[OF _ this _ rest] law True Cons.prems(3) show ?thesis
      by (auto intro: frame_trans)
  next
    case False
    then have "r = Fail" "w' = w1" using Cons.prems(4) r1 law by (auto simp: check_def)
    with law show ?thesis by auto
  qed
qed

end

text \<open>The two senders of the stream layer.\<close>

interpretation msgs: mailbox mem_ok connected outbox same_base
  "\<lambda>a (v, sz, bytes). stream_queue_writing_socket a v sz bytes"
  "\<lambda>(v, sz, bytes). Msg v (take (unat sz) bytes)" "\<lambda>(v, sz, bytes). unat sz \<le> length bytes"
proof
  fix w w' :: "'z mem_scheme" and a m r
  assume "mem_ok w" "connected a w" "(\<lambda>(v, sz, bytes). unat sz \<le> length bytes) m"
    "(\<lambda>(v, sz, bytes). stream_queue_writing_socket a v sz bytes) m w = (r, w')"
  then show "mem_ok w' \<and> same_base w w' \<and> (\<forall>b. b \<noteq> a \<longrightarrow> outbox b w' = outbox b w) \<and>
      (r = Ok () \<and> outbox a w' = outbox a w @ [case m of (v, sz, bytes) \<Rightarrow> Msg v (take (unat sz) bytes)] \<or>
       r = Fail \<and> outbox a w' = outbox a w)"
    using send_socket_spec[of w a "fst (snd m)" "snd (snd m)" "fst m" r w'] by (simp add: case_prod_beta)
qed (simp_all add: same_base_connected same_base_trans)

interpretation evts: mailbox mem_ok connected outbox same_base
  stream_queue_writing_device Evt "\<lambda>_. True"
proof
  fix w w' :: "'z mem_scheme" and a e r
  assume "mem_ok w" "connected a w" "stream_queue_writing_device a e w = (r, w')"
  then show "mem_ok w' \<and> same_base w w' \<and> (\<forall>b. b \<noteq> a \<longrightarrow> outbox b w' = outbox b w) \<and>
      (r = Ok () \<and> outbox a w' = outbox a w @ [Evt e] \<or> r = Fail \<and> outbox a w' = outbox a w)"
    by (rule send_device_spec)
qed (simp_all add: same_base_connected same_base_trans)

end
