(* ===== verification/Rcn_Wire.thy ===== *)
theory Rcn_Wire
  imports Rcn_Outbox
begin

section \<open>Messages on the wire\<close>

text \<open>
  The stream layer as its users see it: a message queued on one end of a connection is what the
  other end collects, in order and complete, however the kernel cuts the byte stream; and what
  \<open>stream_collect\<close> and \<open>e_epoll_reset_stream\<close> do to the items of a stream in between.
\<close>

subsection \<open>One message, end to end\<close>

text \<open>A socket stream that waits for a message: nothing queued, the fallback item reset for reading.\<close>

definition idle_reader :: "addr \<Rightarrow> int \<Rightarrow> 'z mem_scheme \<Rightarrow> bool" where
  "idle_reader a fd w \<longleftrightarrow> (\<exists>s. m_streams w a = Some s \<and> stream_ok s \<and> s_fd s = fd \<and>
     q_items (s_queue s) = [] \<and> i_op (s_fallback s) = STREAM_OP_READING \<and>
     i_type (s_fallback s) = STREAM_TYPE_SOCKET \<and> i_state (s_fallback s) = STREAM_STREAMING_HEADER \<and>
     i_streamed (s_fallback s) = 0 \<and> msg_buffer (s_fallback s) = 0)"

text \<open>The current item is a complete message with value \<open>v\<close> and this body.\<close>

definition holds_message :: "addr \<Rightarrow> u32 \<Rightarrow> byte list \<Rightarrow> 'z mem_scheme \<Rightarrow> bool" where
  "holds_message a v body w \<longleftrightarrow> (\<exists>s it. cur w a s it \<and> i_type it = STREAM_TYPE_SOCKET \<and>
     i_op it = STREAM_OP_READING \<and> i_state it = STREAM_STREAMING_COMPLETE \<and>
     h_value (msg_header it) = v \<and> unat (h_size (msg_header it)) = length body \<and>
     (if body = [] then msg_buffer it = 0 else m_bufs w (msg_buffer it) = Some body))"

abbreviation wire :: "u32 \<Rightarrow> byte list \<Rightarrow> byte list" where
  "wire v body \<equiv> enc_header \<lparr>h_size = of_nat (length body), h_value = v\<rparr> @ body"

lemma announces_wire: "length body < 2 ^ 63 \<Longrightarrow>
    announces (enc_header \<lparr>h_size = of_nat (length body), h_value = v\<rparr>) body"
  using dec_enc_header[of _ "[]"] by (simp add: announces_def)

lemma idle_rcv:
  assumes "heap_ok w" "idle_reader a fd w" "k_in w fd = wire v body @ rest" and "fresh (length body) w"
  shows "rcv w a fd (enc_header \<lparr>h_size = of_nat (length body), h_value = v\<rparr>) body rest 0 \<and>
    announces (enc_header \<lparr>h_size = of_nat (length body), h_value = v\<rparr>) body"
proof -
  obtain s where s: "m_streams w a = Some s" "stream_ok s" "s_fd s = fd" "q_items (s_queue s) = []"
    and it: "i_op (s_fallback s) = STREAM_OP_READING" "i_type (s_fallback s) = STREAM_TYPE_SOCKET"
      "i_state (s_fallback s) = STREAM_STREAMING_HEADER" "i_streamed (s_fallback s) = 0" "msg_buffer (s_fallback s) = 0"
    using assms(2) by (auto simp: idle_reader_def)
  have len: "length body < 2 ^ 63" using assms(4) by (simp add: fresh_def granted_def)
  have cur: "cur w a s (s_fallback s)" using s next_item_ok[OF s(2)] by (simp add: cur_def)
  have "length (i_payload (s_fallback s)) = 24" using s(2) by (simp add: stream_ok_def)
  then have "rcv_item w (enc_header \<lparr>h_size = of_nat (length body), h_value = v\<rparr>) body 0 (s_fallback s)"
    using it assms(4) by (simp add: rcv_item_def)
  then show ?thesis using assms(1,3) s(3) cur announces_wire[OF len] by (intro conjI rcvI) simp_all
qed

text \<open>What has been received at the end.\<close>

lemma rcv_end:
  assumes "rcv w a fd (enc_header \<lparr>h_size = of_nat (length body), h_value = v\<rparr>) body rest (16 + length body)" "length body < 2 ^ 63"
  obtains s it where "cur w a s it" "s_fd s = fd" "k_in w fd = rest" "heap_ok w" "i_type it = STREAM_TYPE_SOCKET"
    "i_op it = STREAM_OP_READING" "i_state it = STREAM_STREAMING_COMPLETE" "length (i_payload it) = 24"
    "h_value (msg_header it) = v" "h_size (msg_header it) = of_nat (length body)" "unat (h_size (msg_header it)) = length body"
    "if body = [] then msg_buffer it = 0 else msg_buffer it \<noteq> 0 \<and> m_bufs w (msg_buffer it) = Some body"
proof -
  let ?hb = "enc_header \<lparr>h_size = of_nat (length body), h_value = v\<rparr>"
  obtain s it where fin: "k_in w fd = rest" "cur w a s it" "s_fd s = fd" "heap_ok w"
      "rcv_item w ?hb body (16 + length body) it"
    using assms(1) by (auto simp: rcv_def)
  have "msg_header it = dec_header ?hb" using fin(5) by (intro msg_header_of_take) (simp add: rcv_item_def)
  then have h: "msg_header it = \<lparr>h_size = of_nat (length body), h_value = v\<rparr>"
    using dec_enc_header[of _ "[]"] by simp
  show thesis
    by (rule that[OF fin(2,3,1,4)]) (use fin(5) h assms(2) in \<open>simp_all add: rcv_item_def unat_of_nat take_bit_nat_eq_self split: if_splits\<close>)
qed

lemma receive_message:
  assumes "heap_ok w" "idle_reader a fd w" "k_in w fd = wire v body @ rest"
    and "fresh (length body) w" and "progressing xs" "16 + length body \<le> transfers xs"
  shows "\<exists>w'. relay_wait xs a w = (Ok True, w') \<and> holds_message a v body w' \<and> k_in w' fd = rest"
proof -
  have len: "length body < 2 ^ 63" using assms(4) by (simp add: fresh_def granted_def)
  from rx.finishes[OF idle_rcv[OF assms(1-4)] _ assms(5)] assms(6) obtain w' where
    w': "relay_wait xs a w = (Ok True, w')"
    "rcv w' a fd (enc_header \<lparr>h_size = of_nat (length body), h_value = v\<rparr>) body rest (16 + length body)" by auto
  from w'(2) len have "holds_message a v body w' \<and> k_in w' fd = rest"
  proof (rule rcv_end)
    fix s it assume e: "cur w' a s it" "i_type it = STREAM_TYPE_SOCKET" "i_op it = STREAM_OP_READING"
      "i_state it = STREAM_STREAMING_COMPLETE" "h_value (msg_header it) = v" "unat (h_size (msg_header it)) = length body"
      "k_in w' fd = rest" "if body = [] then msg_buffer it = 0 else msg_buffer it \<noteq> 0 \<and> m_bufs w' (msg_buffer it) = Some body"
    then show ?thesis by (auto simp: holds_message_def intro!: exI[of _ s] exI[of _ it])
  qed
  with w'(1) show ?thesis by blast
qed

lemma send_message:
  assumes "mem_ok w" "connected a w" "outbox a w = []" "m_streams w a = Some s"
    and "unat sz \<le> length bytes" "stream_queue_writing_socket a v sz bytes w = (Ok (), w1)"
    and "progressing xs" "16 + unat sz \<le> transfers xs"
  shows "\<exists>w2. relay_wait xs a w1 = (Ok True, w2) \<and>
    k_out w2 (s_fd s) = k_out w (s_fd s) @ wire v (take (unat sz) bytes)"
proof -
  let ?body = "take (unat sz) bytes"
  obtain it where q: "queued a it w w1" and it: "length (i_payload it) = 24" "i_type it = STREAM_TYPE_SOCKET"
    "i_op it = STREAM_OP_WRITING" "i_state it = STREAM_STREAMING_HEADER" "i_streamed it = 0"
    "take 16 (i_payload it) = enc_header \<lparr>h_size = sz, h_value = v\<rparr>"
    "m_bufs w1 (msg_buffer it) = Some ?body" and small: "unat sz < 2 ^ 63"
    by (rule send_socket_queued[OF assms(1,2,5,6)])
  have lb: "length ?body = unat sz" using assms(5) by simp
  then have sz: "sz = of_nat (length ?body)" by simp
  note ann = announces_wire[of ?body v, folded sz]
  have "q_items (s_queue s) = []" using assms(3,4) by (simp add: outbox_def)
  with q assms(4) obtain s' where s': "m_streams w1 a = Some s'" "stream_ok s'" "s_fd s' = s_fd s"
    "q_items (s_queue s') = [it]" by (auto simp: queued_def)
  have cur: "cur w1 a s' it" using s' next_item_ok[OF s'(2)] by (simp add: cur_def)
  have out: "k_out w1 = k_out w" using send_socket_spec[OF assms(1,2,5,6)] by (simp add: same_base_def)
  have "snd_at w1 a (s_fd s) (k_out w (s_fd s)) (enc_header \<lparr>h_size = sz, h_value = v\<rparr>) ?body 0"
    by (rule snd_atI[OF _ _ cur]) (use out s'(3) it in \<open>simp_all add: snd_item_def\<close>)
  from tx.finishes[OF conjI[OF this ann] _ assms(7)] assms(8) lb small obtain w2 where
    w2: "relay_wait xs a w1 = (Ok True, w2)"
    "snd_at w2 a (s_fd s) (k_out w (s_fd s)) (enc_header \<lparr>h_size = sz, h_value = v\<rparr>) ?body (16 + length ?body)"
    by auto
  then have "k_out w2 (s_fd s) = k_out w (s_fd s) @
      take (16 + length ?body) (enc_header \<lparr>h_size = sz, h_value = v\<rparr> @ ?body)"
    unfolding snd_at_def by blast
  with w2(1) show ?thesis using sz min_absorb2[OF assms(5)] by simp
qed

subsection \<open>Collecting a finished item\<close>

lemma stream_collect_spec:
  assumes s: "m_streams w a = Some s" "stream_ok s" and items: "q_items (s_queue s) = x # xs"
  shows "\<exists>s'. stream_collect a w = (Ok (), put_stream a s' w) \<and> stream_ok s' \<and>
    q_items (s_queue s') = xs \<and> s_fallback s' = x \<and> s_fd s' = s_fd s \<and> s_fd_type s' = s_fd_type s \<and>
    s_default_op s' = s_default_op s \<and> s_default_type s' = s_default_type s"
proof -
  have inv: "q_inv (s_queue s)" using s(2) by (simp add: stream_ok_def)
  obtain q where q: "u_queue_pop (s_queue s) = (Ok x, q)" "q_inv q" "q_items q = xs"
    using u_queue_pop_spec[OF inv] items by auto
  let ?s1 = "s\<lparr>s_queue := q, s_fallback := x\<rparr>"
  let ?s' = "?s1\<lparr>s_next := if xs = [] then At_fallback else At_head\<rparr>"
  have ne: "\<not> q_is_empty (s_queue s)" using q_empty_iff[OF inv] items by simp
  have "stream_collect a w = (Ok (), put_stream a ?s' w)"
  proof (cases "xs = []")
    case True
    then have "q_is_empty q" using q_empty_iff[OF q(2)] q(3) by simp
    then show ?thesis using s(1) q(1) ne True
      by (simp add: stream_collect_def check_def deref_def on_stream_def zoom_def modify_def)
  next
    case False
    then have "\<not> q_is_empty q" "u_queue_peek q = (Ok 0, q)"
      using q_empty_iff[OF q(2)] q(2,3) by (simp_all add: u_queue_peek_spec)
    then show ?thesis using s(1) q(1) ne False
      by (simp add: stream_collect_def check_def deref_def on_stream_def zoom_def modify_def)
        (cases s, simp)
  qed
  moreover have "stream_ok ?s'" using s(2) items q by (auto simp: stream_ok_def)
  ultimately show ?thesis using q(3) by (intro exI[of _ ?s']) simp
qed

lemma stream_clear_fallback_spec:
  assumes s: "m_streams w a = Some s" and a: "a \<noteq> 0" and len: "length (i_payload (s_fallback s)) = 24"
    and buf: "i_type (s_fallback s) = STREAM_TYPE_SOCKET \<Longrightarrow> msg_buffer (s_fallback s) \<noteq> 0 \<Longrightarrow>
      m_bufs w (msg_buffer (s_fallback s)) \<noteq> None"
  shows "\<exists>f bufs. stream_clear_fallback a w = (Ok (), put_stream a (s\<lparr>s_fallback := f\<rparr>) (w\<lparr>m_bufs := bufs\<rparr>)) \<and>
    i_streamed f = 0 \<and> i_state f = STREAM_STREAMING_HEADER \<and> i_op f = s_default_op s \<and> i_type f = s_default_type s \<and>
    length (i_payload f) = 24 \<and> (i_type (s_fallback s) = STREAM_TYPE_SOCKET \<longrightarrow> msg_buffer f = 0) \<and>
    (\<forall>b. b \<noteq> msg_buffer (s_fallback s) \<longrightarrow> bufs b = m_bufs w b) \<and> (\<forall>b. bufs b \<noteq> None \<longrightarrow> bufs b = m_bufs w b)"
proof (cases "i_type (s_fallback s) = STREAM_TYPE_SOCKET \<and> msg_buffer (s_fallback s) \<noteq> 0")
  case True
  let ?f = "(set_buffer 0 (s_fallback s))\<lparr>i_streamed := 0, i_state := STREAM_STREAMING_HEADER,
             i_op := s_default_op s, i_type := s_default_type s\<rparr>"
  have "stream_clear_fallback a w = (Ok (), put_stream a (s\<lparr>s_fallback := ?f\<rparr>)
      (w\<lparr>m_bufs := (m_bufs w)(msg_buffer (s_fallback s) := None)\<rparr>))"
    using True s a buf by (simp add: stream_clear_fallback_def stream_set_default_def check_def check_not_def
        deref_def free_buffer_def on_stream_def modify_def put_stream_def Let_def)
  moreover have "msg_buffer ?f = 0" using len by (simp add: msg_buffer_def set_buffer_def)
  ultimately show ?thesis using len by (intro exI[of _ ?f] exI conjI) (auto split: if_splits)
next
  case False
  let ?f = "(s_fallback s)\<lparr>i_streamed := 0, i_state := STREAM_STREAMING_HEADER,
             i_op := s_default_op s, i_type := s_default_type s\<rparr>"
  have "stream_clear_fallback a w = (Ok (), put_stream a (s\<lparr>s_fallback := ?f\<rparr>) (w\<lparr>m_bufs := m_bufs w\<rparr>))"
    using False s a by (auto simp: stream_clear_fallback_def stream_set_default_def check_def check_not_def
        deref_def on_stream_def modify_def put_stream_def Let_def ret_def)
  moreover have "i_type (s_fallback s) = STREAM_TYPE_SOCKET \<longrightarrow> msg_buffer ?f = 0"
    using False by (auto simp: msg_buffer_def)
  ultimately show ?thesis using len by (intro exI[of _ ?f] exI conjI) auto
qed

subsection \<open>Concrete memories\<close>

text \<open>A stream with an empty queue of capacity ten, and a memory of such streams, for the examples.\<close>

definition fresh_stream :: "stream_operation \<Rightarrow> stream_type \<Rightarrow> fd_type \<Rightarrow> int \<Rightarrow> epoll_stream" where
  "fresh_stream sop ty ft fd = \<lparr>s_fallback = zero_item\<lparr>i_op := sop, i_type := ty\<rparr>, s_next = At_fallback,
     s_queue = \<lparr>q_is_empty = True, q_array = array_of 48 10 []\<rparr>,
     s_default_op = sop, s_default_type = ty, s_fd_type = ft, s_fd = fd\<rparr>"

definition mem_of :: "(addr \<times> epoll_stream) list \<Rightarrow> (int \<Rightarrow> byte list) \<Rightarrow> mem" where
  "mem_of ss input = \<lparr>m_streams = map_of ss, m_bufs = Map.empty, m_brk = 4096, m_av = (\<lambda>_. True),
     k_in = input, k_out = (\<lambda>_. []), k_open = (\<lambda>_. True), k_epoll = (\<lambda>_. Some (EPOLLIN, 0))\<rparr>"

lemma fresh_stream_ok [simp]:
  "stream_ok (fresh_stream sop ty ft fd)" "q_items (s_queue (fresh_stream sop ty ft fd)) = []"
  "s_fallback (fresh_stream sop ty ft fd) = zero_item\<lparr>i_op := sop, i_type := ty\<rparr>"
  "s_fd (fresh_stream sop ty ft fd) = fd"
proof -
  let ?q = "\<lparr>q_is_empty = True, q_array = array_of 48 10 ([] :: stream_item list)\<rparr>"
  have q: "q_inv ?q" "q_items ?q = []"
    by (simp_all add: q_inv_def q_items_def array_of_inv) (simp add: array_of_def)
  then show "stream_ok (fresh_stream sop ty ft fd)" "q_items (s_queue (fresh_stream sop ty ft fd)) = []"
    by (simp_all add: stream_ok_def fresh_stream_def zero_item_def)
qed (simp_all add: fresh_stream_def)

lemma mem_of_ok:
  assumes "\<forall>(a, s) \<in> set ss. 0 < a \<and> a < 4096 \<and> (\<exists>sop ty ft fd. s = fresh_stream sop ty ft fd)"
  shows "mem_ok (mem_of ss input)"
proof -
  have "0 < a \<and> a < 4096 \<and> stream_ok s \<and> q_items (s_queue s) = []" if "map_of ss a = Some s" for a s
    using assms map_of_SomeD[OF that] by fastforce
  then show ?thesis
    by (fastforce simp: mem_ok_def heap_ok_def mem_of_def word_less_nat_alt)
qed

subsection \<open>Properties\<close>

text \<open>C2: End-to-end delivery.  A message queued on an idle connection is written to the socket by
  repeated \<open>stream_stream\<close> calls, and the other end, reading those bytes with its own calls, ends up
  with a complete item that has exactly the header value and body that were queued and leaves the
  bytes behind the message unread.  This holds for every way the two kernels split the transfer
  (\<open>xs\<close>, \<open>ys\<close>: partial reads and writes of any size, interspersed with \<open>EAGAIN\<close>), provided there are
  enough transferring answers.\<close>

theorem message_delivered:
  assumes "mem_ok w" "connected a w" "outbox a w = []" "m_streams w a = Some s"
    and "unat sz \<le> length bytes" "stream_queue_writing_socket a v sz bytes w = (Ok (), w1)"
    and "progressing xs" "16 + unat sz \<le> transfers xs"
    and "heap_ok u" "idle_reader b fd u" "fresh (unat sz) u"
    and "progressing ys" "16 + unat sz \<le> transfers ys"
  shows "\<exists>w2. relay_wait xs a w1 = (Ok True, w2) \<and>
    (let sent = drop (length (k_out w (s_fd s))) (k_out w2 (s_fd s)) in
     \<exists>u2. relay_wait ys b (u\<lparr>k_in := (k_in u)(fd := sent @ rest)\<rparr>) = (Ok True, u2) \<and>
       holds_message b v (take (unat sz) bytes) u2 \<and> k_in u2 fd = rest)"
proof -
  from send_message[OF assms(1-8)] obtain w2 where w2: "relay_wait xs a w1 = (Ok True, w2)"
    "k_out w2 (s_fd s) = k_out w (s_fd s) @ wire v (take (unat sz) bytes)" by auto
  obtain sent where sent: "sent = drop (length (k_out w (s_fd s))) (k_out w2 (s_fd s))" by simp
  let ?u = "u\<lparr>k_in := (k_in u)(fd := sent @ rest)\<rparr>"
  have "\<exists>u2. relay_wait ys b ?u = (Ok True, u2) \<and> holds_message b v (take (unat sz) bytes) u2 \<and> k_in u2 fd = rest"
    by (rule receive_message[OF _ _ _ _ assms(12)])
      (use w2 sent assms(5,9,10,11,13) in \<open>simp_all add: idle_reader_def fresh_def\<close>)
  with w2(1) show ?thesis unfolding Let_def sent by blast
qed

theorem message_delivered_witness:
  "\<exists>w1 w2. stream_queue_writing_socket 16 2 3 [7, 8, 9] (mem_of
       [(16, fresh_stream STREAM_OP_READING STREAM_TYPE_SOCKET FD_PEER 5)] (\<lambda>_. [])) = (Ok (), w1) \<and>
    relay_wait (replicate 19 (Io 1)) 16 w1 = (Ok True, w2)"
proof -
  let ?w = "mem_of [(16, fresh_stream STREAM_OP_READING STREAM_TYPE_SOCKET FD_PEER 5)] (\<lambda>_. [])"
  let ?s = "fresh_stream STREAM_OP_READING STREAM_TYPE_SOCKET FD_PEER 5"
  have ok: "mem_ok ?w" by (rule mem_of_ok) auto
  have s: "m_streams ?w 16 = Some ?s" by (simp add: mem_of_def)
  have con: "connected 16 ?w" using s by (simp add: connected_def mem_of_def)
  have box: "outbox 16 ?w = []" using s by (simp add: outbox_def)
  have idle: "idle_reader 16 5 ?w" using s by (simp add: idle_reader_def zero_item_def msg_buffer_def)
  have fr: "fresh 3 ?w" by (simp add: fresh_def granted_def mem_of_def)
  have room: "has_room 16 ?w" using s by (simp add: has_room_def fresh_stream_def array_of_def)
  have p: "progressing (replicate 19 (Io 1))" "transfers (replicate 19 (Io 1)) = 19"
    by (simp_all add: progressing_def transfers_def list_all_iff)
  have "fst (stream_queue_writing_socket 16 2 3 [7, 8, 9] ?w) = Ok ()"
    using send_succeeds[OF ok con, of 3 "[7, 8, 9]" 2] fr room by fastforce
  then obtain w1 where w1: "stream_queue_writing_socket 16 2 3 [7, 8, 9] ?w = (Ok (), w1)"
    by (metis prod.collapse)
  have "\<exists>w2. relay_wait (replicate 19 (Io 1)) 16 w1 = (Ok True, w2)"
    using message_delivered[OF ok con box s _ w1 p(1) _ mem_okD(1)[OF ok] idle _ p(1), of "[]"] fr p(2)
    by auto
  with w1 show ?thesis by blast
qed

text \<open>C17: Reassembly with other data behind the message: a stream that waits for a message
  completes exactly when header and body have arrived, whatever follows on the socket stays in the
  kernel's buffer, and no answer sequence with enough transfers can leave it waiting.\<close>

theorem message_received:
  assumes "heap_ok w" "idle_reader a fd w" "k_in w fd = wire v body @ rest"
    and "fresh (length body) w" and "progressing xs" "16 + length body \<le> transfers xs"
  shows "\<exists>w'. relay_wait xs a w = (Ok True, w') \<and> holds_message a v body w' \<and> k_in w' fd = rest"
  using assms by (rule receive_message)

theorem message_received_witness:
  "\<exists>w'. relay_wait (Io_again # replicate 18 (Io 3)) 16 (mem_of
      [(16, fresh_stream STREAM_OP_READING STREAM_TYPE_SOCKET FD_RELAY 5)] (\<lambda>_. wire 3 [7, 8] @ [1])) = (Ok True, w') \<and>
    holds_message 16 3 [7, 8] w' \<and> k_in w' 5 = [1]"
proof -
  let ?w = "mem_of [(16, fresh_stream STREAM_OP_READING STREAM_TYPE_SOCKET FD_RELAY 5)] (\<lambda>_. wire 3 [7, 8] @ [1])"
  have "mem_ok ?w" by (rule mem_of_ok) auto
  then have ok: "heap_ok ?w" by (rule mem_okD)
  show ?thesis
    by (rule message_received[OF ok]) (simp_all add: idle_reader_def mem_of_def zero_item_def msg_buffer_def
        fresh_def granted_def progressing_def transfers_def list_all_iff)
qed

text \<open>C7: No undefined behaviour in a transfer: whatever the kernel answers (any sizes, end of
  file, errors, in any order) and whatever size a received header announces, the transfer of an item
  never touches memory outside its own live blocks.\<close>

theorem transfer_never_undefined:
  assumes "heap_ok w" and "cur w a s it" and "in_transfer (m_bufs w) it"
  shows "fst (relay_wait xs a w) \<noteq> Undef"
proof (rule relay_wait_safe[OF assms(1)])
  show "stepped a w" using assms(2,3) by (auto simp: stepped_def)
  show "i_state it' \<noteq> STREAM_STREAMING_CLOSED \<and> i_state it' \<noteq> STREAM_STREAMING_COMPLETE" if "cur w a s' it'" for s' it'
    using that assms(2,3) by (auto simp: cur_def in_transfer_def)
qed

theorem transfer_never_undefined_witness:
  "fst (relay_wait [Io 16, Io 5, Io_again, Io_error] 16 (mem_of
      [(16, fresh_stream STREAM_OP_READING STREAM_TYPE_SOCKET FD_RELAY 5)] (\<lambda>_. replicate 40 255))) \<noteq> Undef"
proof (rule transfer_never_undefined)
  let ?w = "mem_of [(16, fresh_stream STREAM_OP_READING STREAM_TYPE_SOCKET FD_RELAY 5)] (\<lambda>_. replicate 40 255)"
  have "mem_ok ?w" by (rule mem_of_ok) auto
  then show "heap_ok ?w" by (rule mem_okD)
  show "cur ?w 16 (fresh_stream STREAM_OP_READING STREAM_TYPE_SOCKET FD_RELAY 5)
      (zero_item\<lparr>i_op := STREAM_OP_READING, i_type := STREAM_TYPE_SOCKET\<rparr>)"
    by (simp add: cur_def mem_of_def next_item_ok)
  show "in_transfer (m_bufs ?w) (zero_item\<lparr>i_op := STREAM_OP_READING, i_type := STREAM_TYPE_SOCKET\<rparr>)"
    by (simp add: in_transfer_def item_wf_def zero_item_def msg_buffer_def)
qed

text \<open>C18: Messages to one stream queue up in the order they were sent.  As long as every call
  succeeds, the outbox of the stream grows by exactly the messages, each with its own header value and
  a private copy of the caller's bytes; no other stream's outbox, no descriptor and no byte already on
  a socket changes, and the streams stay well formed even when a call fails half way.\<close>

theorem messages_queue_in_order:
  assumes "mem_ok w" and "connected a w" and "\<forall>(v, sz, bytes) \<in> set ms. unat sz \<le> length bytes"
    and "for_each (\<lambda>(v, sz, bytes). stream_queue_writing_socket a v sz bytes) ms w = (r, w')"
  shows "mem_ok w' \<and> same_base w w' \<and> r \<noteq> Undef \<and> (\<forall>b. b \<noteq> a \<longrightarrow> outbox b w' = outbox b w) \<and>
    (r = Ok () \<longrightarrow> outbox a w' = outbox a w @ map (\<lambda>(v, sz, bytes). Msg v (take (unat sz) bytes)) ms)"
  using msgs.send_sequence[OF assms(1,2), of ms r w'] assms(3,4) by (simp add: case_prod_beta)

theorem messages_queue_in_order_witness:
  "let w = mem_of [(16, fresh_stream STREAM_OP_READING STREAM_TYPE_SOCKET FD_PEER 5)] (\<lambda>_. []) in
   \<exists>r w'. for_each (\<lambda>(v, sz, bytes). stream_queue_writing_socket 16 v sz bytes) [(1, 0, []), (2, 1, [9])] w = (r, w') \<and>
     mem_ok w' \<and> (r = Ok () \<longrightarrow> outbox 16 w' = [Msg 1 [], Msg 2 [9]])"
proof -
  let ?w = "mem_of [(16, fresh_stream STREAM_OP_READING STREAM_TYPE_SOCKET FD_PEER 5)] (\<lambda>_. [])"
  obtain r w' where r: "for_each (\<lambda>(v, sz, bytes). stream_queue_writing_socket 16 v sz bytes) [(1, 0, []), (2, 1, [9])] ?w = (r, w')"
    by fastforce
  have ok: "mem_ok ?w" by (rule mem_of_ok) auto
  have con: "connected 16 ?w" and box: "outbox 16 ?w = []" by (simp_all add: connected_def mem_of_def outbox_def)
  from messages_queue_in_order[OF ok con _ r] box r show ?thesis by (auto simp: Let_def)
qed

text \<open>What collecting a finished write does to a message that has only been read in part.
  The finished item is copied over the fallback item and then reset, so the bytes of an incoming
  message that had already been taken from the socket are forgotten: the stream starts again at
  offset 0 of a header while the kernel's buffer is positioned in the middle of the message.\<close>

theorem partial_read_discarded:
  assumes "mem_ok w" and "m_streams w a = Some s" and "q_items (s_queue s) = x # xs"
    and "0 < unat (i_streamed (s_fallback s))"
  shows "\<exists>w' s'. check (stream_collect a) (\<lambda>_. stream_clear_fallback a) w = (Ok (), w') \<and>
    m_streams w' a = Some s' \<and> i_streamed (s_fallback s') = 0 \<and>
    i_state (s_fallback s') = STREAM_STREAMING_HEADER \<and> i_op (s_fallback s') = s_default_op s \<and>
    q_items (s_queue s') = xs \<and> k_in w' = k_in w"
proof -
  have ok: "stream_ok s" "list_all (item_ok (m_bufs w)) (x # xs)"
    using mem_okD(2,3)[OF assms(1,2)] assms(3) by simp_all
  obtain s1 where s1: "stream_collect a w = (Ok (), put_stream a s1 w)" "stream_ok s1"
    "q_items (s_queue s1) = xs" "s_fallback s1 = x" "s_default_op s1 = s_default_op s"
    using stream_collect_spec[OF assms(2) ok(1) assms(3)] by blast
  have "a \<noteq> 0" using mem_okD(1)[OF assms(1)] assms(2) by (force simp: heap_ok_def)
  moreover have "length (i_payload (s_fallback s1)) = 24" using s1(2) by (simp add: stream_ok_def)
  moreover have "m_bufs w (msg_buffer (s_fallback s1)) \<noteq> None" if "i_type (s_fallback s1) = STREAM_TYPE_SOCKET"
    using ok(2) s1(4) that by (auto simp: item_ok_def)
  ultimately obtain f bufs where f: "stream_clear_fallback a (put_stream a s1 w) =
      (Ok (), put_stream a (s1\<lparr>s_fallback := f\<rparr>) ((put_stream a s1 w)\<lparr>m_bufs := bufs\<rparr>))"
    "i_streamed f = 0" "i_state f = STREAM_STREAMING_HEADER" "i_op f = s_default_op s1"
    using stream_clear_fallback_spec[of "put_stream a s1 w" a s1] by auto
  show ?thesis
    by (intro exI[of _ "put_stream a (s1\<lparr>s_fallback := f\<rparr>) ((put_stream a s1 w)\<lparr>m_bufs := bufs\<rparr>)"]
        exI[of _ "s1\<lparr>s_fallback := f\<rparr>"]) (simp add: check_def s1 f)
qed

theorem partial_read_discarded_witness:
  "let f = zero_item\<lparr>i_op := STREAM_OP_READING, i_streamed := 5\<rparr>;
       x = zero_item\<lparr>i_type := STREAM_TYPE_DEVICE\<rparr>;
       s = (fresh_stream STREAM_OP_READING STREAM_TYPE_SOCKET FD_PEER 5)\<lparr>s_fallback := f, s_next := At_head,
         s_queue := \<lparr>q_is_empty = False, q_array = array_of 48 10 [x]\<rparr>\<rparr>
   in \<exists>w' s'. check (stream_collect 16) (\<lambda>_. stream_clear_fallback 16) (mem_of [(16, s)] (\<lambda>_. [1])) = (Ok (), w') \<and>
     m_streams w' 16 = Some s' \<and> i_streamed (s_fallback s') = 0 \<and> k_in w' 5 = [1]"
proof -
  let ?f = "zero_item\<lparr>i_op := STREAM_OP_READING, i_streamed := 5\<rparr>"
  let ?x = "zero_item\<lparr>i_type := STREAM_TYPE_DEVICE\<rparr>"
  let ?q = "\<lparr>q_is_empty = False, q_array = array_of 48 10 [?x]\<rparr>"
  let ?s = "(fresh_stream STREAM_OP_READING STREAM_TYPE_SOCKET FD_PEER 5)\<lparr>s_fallback := ?f, s_next := At_head, s_queue := ?q\<rparr>"
  let ?w = "mem_of [(16, ?s)] (\<lambda>_. [1])"
  have q: "q_inv ?q" "q_items ?q = [?x]"
    by (simp_all add: q_inv_def q_items_def array_of_inv) (simp add: array_of_def)
  then have ok: "mem_ok ?w"
    by (auto simp: mem_ok_def heap_ok_def mem_of_def stream_ok_def item_ok_def zero_item_def split: if_splits)
  from partial_read_discarded[OF ok, of 16 ?s ?x "[]"] q show ?thesis
    by (auto simp: Let_def mem_of_def)
qed

end
