(* ===== verification/Rcn_Post.thy ===== *)
theory Rcn_Post
  imports Rcn_Wire
begin

section \<open>What an operation posts\<close>

text \<open>
  Handlers act on other streams only by queueing entries.  \<open>posted w w' ps\<close> says that exactly the
  entries \<open>ps\<close> have been queued, each at the outbox it names, in order; \<open>sends ps m w\<close> is the contract
  of an operation that posts \<open>ps\<close>: it is never undefined, posts all of \<open>ps\<close> when it returns and a
  first part of them when it fails.  The rules below compute the posts of composed operations.
\<close>

definition posts_at :: "addr \<Rightarrow> (addr \<times> out_entry) list \<Rightarrow> out_entry list" where
  "posts_at b ps = map snd (filter (\<lambda>p. fst p = b) ps)"

definition posted :: "'z mem_scheme \<Rightarrow> 'z mem_scheme \<Rightarrow> (addr \<times> out_entry) list \<Rightarrow> bool" where
  "posted w w' ps \<longleftrightarrow> mem_ok w' \<and> same_base w w' \<and> (\<forall>b. outbox b w' = outbox b w @ posts_at b ps)"

definition sends :: "(addr \<times> out_entry) list \<Rightarrow> (unit, 'z mem_scheme) op \<Rightarrow> 'z mem_scheme \<Rightarrow> bool" where
  "sends ps m w \<longleftrightarrow> (case m w of
      (Ok _, w') \<Rightarrow> posted w w' ps | (Fail, w') \<Rightarrow> \<exists>n. posted w w' (take n ps) | (Undef, _) \<Rightarrow> False)"

named_theorems sends_intros \<open>what composed operations post\<close>

lemma posts_at_append [simp]: "posts_at b (ps @ qs) = posts_at b ps @ posts_at b qs"
  by (simp add: posts_at_def)

lemma posts_at_Nil [simp]: "posts_at b [] = []"
  by (simp add: posts_at_def)

lemma posts_at_Cons: "posts_at b (p # ps) = (if fst p = b then snd p # posts_at b ps else posts_at b ps)"
  by (simp add: posts_at_def)

lemma posts_at_none: "b \<notin> fst ` set ps \<Longrightarrow> posts_at b ps = []"
  by (auto simp: posts_at_def filter_empty_conv)

lemma posts_at_all: "\<forall>p \<in> set ps. fst p = b \<Longrightarrow> posts_at b ps = map snd ps"
  by (simp add: posts_at_def)

lemma posts_at_concat: "posts_at b (concat pss) = concat (map (posts_at b) pss)"
  by (induction pss) simp_all

lemma posted_refl: "mem_ok w \<Longrightarrow> posted w w []"
  by (simp add: posted_def)

lemma posted_trans: "posted u v ps \<Longrightarrow> posted v w qs \<Longrightarrow> posted u w (ps @ qs)"
  unfolding posted_def using same_base_trans by (metis append.assoc posts_at_append)

lemma postedD:
  "posted w w' ps \<Longrightarrow> mem_ok w'" "posted w w' ps \<Longrightarrow> same_base w w'"
  "posted w w' ps \<Longrightarrow> outbox b w' = outbox b w @ posts_at b ps"
  "posted w w' ps \<Longrightarrow> connected a w' = connected a w"
  by (simp_all add: posted_def same_base_connected)

lemma sendsI:
  assumes "m w = (r, w')" and "r \<noteq> Undef" and "r = Ok () \<Longrightarrow> posted w w' ps"
    and "r = Fail \<Longrightarrow> \<exists>n. posted w w' (take n ps)"
  shows "sends ps m w"
  using assms by (cases r) (simp_all add: sends_def)

lemma sendsD:
  assumes "sends ps m w" and "m w = (r, w')"
  shows "r \<noteq> Undef" "r = Ok () \<Longrightarrow> posted w w' ps" "r = Fail \<Longrightarrow> \<exists>n. posted w w' (take n ps)"
  using assms by (auto simp: sends_def)

lemma sends_safe: "sends ps m w \<Longrightarrow> fst (m w) \<noteq> Undef"
  by (cases "m w") (auto dest: sendsD)

lemma sends_mem_ok: "sends ps m w \<Longrightarrow> m w = (r, w') \<Longrightarrow> mem_ok w' \<and> same_base w w'"
  by (cases r) (auto dest: sendsD simp: posted_def)

lemma sends_ret [sends_intros]: "mem_ok w \<Longrightarrow> sends [] (ret ()) w"
  by (simp add: sends_def ret_def posted_refl)

lemma sends_check:
  assumes "sends ps m w" and "\<And>w'. posted w w' ps \<Longrightarrow> sends qs (k ()) w'"
  shows "sends (ps @ qs) (check m k) w"
proof -
  obtain r w1 where r: "m w = (r, w1)" by fastforce
  show ?thesis
  proof (cases "r = Ok ()")
    case True
    note first = sendsD(2)[OF assms(1) r True]
    obtain r2 w2 where r2: "k () w1 = (r2, w2)" by fastforce
    note rest = sendsD[OF assms(2)[OF first] r2]
    show ?thesis
    proof (rule sendsI)
      show "check m k w = (r2, w2)" using r r2 True by (simp add: check_def)
      show "posted w w2 (ps @ qs)" if "r2 = Ok ()" using posted_trans[OF first rest(2)[OF that]] .
      show "\<exists>n. posted w w2 (take n (ps @ qs))" if fl: "r2 = Fail"
      proof -
        obtain n where "posted w1 w2 (take n qs)" using rest(3)[OF fl] by blast
        from posted_trans[OF first this] have "posted w w2 (take (length ps + n) (ps @ qs))" by simp
        then show ?thesis by blast
      qed
    qed (rule rest(1))
  next
    case False
    then have "r = Fail" using sendsD(1)[OF assms(1) r] by (cases r) auto
    with sendsD(3)[OF assms(1) r] obtain n where n: "posted w w1 (take n ps)" by blast
    have "posted w w1 (take (min n (length ps)) (ps @ qs))" using n by (cases "n \<le> length ps") (simp_all add: min_def)
    then have "\<exists>n. posted w w1 (take n (ps @ qs))" by blast
    moreover have "check m k w = (Fail, w1)" using r \<open>r = Fail\<close> by (simp add: check_def)
    ultimately show ?thesis by (intro sendsI[of "check m k" w Fail w1]) simp_all
  qed
qed

lemma sends_check_gets:
  "sends ps (k (f w)) w \<Longrightarrow> sends ps (check (gets f) k) w"
  by (simp add: sends_def check_def gets_def)

lemma sends_for_each:
  assumes "mem_ok w" and "\<And>x w'. x \<in> set xs \<Longrightarrow> mem_ok w' \<Longrightarrow> same_base w w' \<Longrightarrow> sends (f x) (g x) w'"
  shows "sends (concat (map f xs)) (for_each g xs) w"
  using assms
proof (induction xs arbitrary: w)
  case Nil
  then show ?case by (simp add: sends_ret)
next
  case (Cons x xs)
  have "sends (f x) (g x) w" using Cons.prems by simp
  then show ?case unfolding for_each.simps list.map concat.simps
  proof (rule sends_check)
    fix w' assume p: "posted w w' (f x)"
    then show "sends (concat (map f xs)) (for_each g xs) w'"
      using Cons.prems(2) by (intro Cons.IH) (auto dest: postedD intro: same_base_trans)
  qed
qed

text \<open>The two senders of the stream layer.\<close>

lemma sends_socket [sends_intros]:
  assumes "mem_ok w" "connected a w" "unat sz \<le> length bytes"
  shows "sends [(a, Msg v (take (unat sz) bytes))] (stream_queue_writing_socket a v sz bytes) w"
proof -
  obtain r w' where r: "stream_queue_writing_socket a v sz bytes w = (r, w')" by fastforce
  note law = send_socket_spec[OF assms r]
  show ?thesis
  proof (rule sendsI[of "stream_queue_writing_socket a v sz bytes" _ r w'])
    show "posted w w' [(a, Msg v (take (unat sz) bytes))]" if "r = Ok ()"
      using law that by (auto simp: posted_def posts_at_Cons)
    show "\<exists>n. posted w w' (take n [(a, Msg v (take (unat sz) bytes))])" if "r = Fail"
    proof -
      have "outbox b w' = outbox b w" for b using law that by (cases "b = a") auto
      then show ?thesis using law by (intro exI[of _ 0]) (simp add: posted_def)
    qed
  qed (use r law in auto)
qed

lemma sends_device [sends_intros]:
  assumes "mem_ok w" "connected a w"
  shows "sends [(a, Evt e)] (stream_queue_writing_device a e) w"
proof -
  obtain r w' where r: "stream_queue_writing_device a e w = (r, w')" by fastforce
  note law = send_device_spec[OF assms r]
  show ?thesis
  proof (rule sendsI[of "stream_queue_writing_device a e" _ r w'])
    show "posted w w' [(a, Evt e)]" if "r = Ok ()"
      using law that by (auto simp: posted_def posts_at_Cons)
    show "\<exists>n. posted w w' (take n [(a, Evt e)])" if "r = Fail"
    proof -
      have "outbox b w' = outbox b w" for b using law that by (cases "b = a") auto
      then show ?thesis using law by (intro exI[of _ 0]) (simp add: posted_def)
    qed
  qed (use r law in auto)
qed

end
