(* ===== verification/Rcn_Epoll.thy ===== *)
theory Rcn_Epoll
  imports Rcn_Post
begin

section \<open>The epoll context (rcn_epoll.c)\<close>

text \<open>
  \<open>struct epoll_context\<close> is the table of all streams of the daemon next to the epoll instance:
  every descriptor in the interest list carries the pointer of its stream, and the same pointer is
  in the array \<open>stream_ptrs\<close>.  The context extends the memory, so that one state is passed through,
  as the C code passes \<open>ep_ctx\<close>.
\<close>

record ep = mem +
  stream_ptrs :: "addr u_array"
  ep_open :: bool

abbreviation on_ptrs :: "('a, addr u_array) op \<Rightarrow> ('a, 'z ep_scheme) op" where
  "on_ptrs \<equiv> zoom stream_ptrs (\<lambda>p w. w\<lparr>stream_ptrs := p\<rparr>)"

definition sizeof_ptr :: u64 where "sizeof_ptr = 8"

text \<open>\<open>epoll_create1\<close> may fail; \<open>created\<close> is its answer.\<close>

definition e_init_epoll_ctx :: "bool \<Rightarrow> (unit, 'z ep_scheme) op" where
  "e_init_epoll_ctx created =
     check_not (\<not> created)
     (check (modify (\<lambda>w. w\<lparr>ep_open := True\<rparr>)) (\<lambda>_.
      check (gets m_av) (\<lambda>av. on_ptrs (u_array_init av sizeof_ptr rcn_std_capacity))))"

text \<open>\<open>TRY(calloc(1, sizeof(struct epoll_stream)), NULL)\<close>\<close>

definition new_stream :: "(addr, 'z ep_scheme) op" where
  "new_stream w = (case calloc_stream w of (a, w') \<Rightarrow> if a = 0 then (Fail, w') else (Ok a, w'))"

definition ep_add_in :: "int \<Rightarrow> addr \<Rightarrow> (unit, 'z ep_scheme) op" where
  "ep_add_in fd a w = (case epoll_ctl_add fd EPOLLIN a w of
      (Ep_ok, w') \<Rightarrow> (Ok (), w') | (_, w') \<Rightarrow> (Fail, w'))"

definition e_epoll_add_getr :: "int \<Rightarrow> fd_type \<Rightarrow> (addr, 'z ep_scheme) op" where
  "e_epoll_add_getr fd ty =
     check new_stream (\<lambda>a.
     check (on_stream a (modify (\<lambda>s. s\<lparr>s_fd_type := ty\<rparr>))) (\<lambda>_.
     check (stream_init a fd ty) (\<lambda>_.
     check (gets m_av) (\<lambda>av.
     check (on_ptrs (u_array_add av a)) (\<lambda>_.
     check (ep_add_in fd a) (\<lambda>_. ret a))))))"

definition e_epoll_add :: "int \<Rightarrow> fd_type \<Rightarrow> (unit, 'z ep_scheme) op" where
  "e_epoll_add fd ty = check (e_epoll_add_getr fd ty) (\<lambda>_. ret ())"

text \<open>The result is the pointer that \<open>device->stream\<close> is set to.\<close>

definition e_epoll_add_device :: "int \<Rightarrow> fd_type \<Rightarrow> (addr, 'z ep_scheme) op" where
  "e_epoll_add_device fd ty =
     check new_stream (\<lambda>a.
     check (stream_init a fd ty) (\<lambda>_.
     check (gets m_av) (\<lambda>av.
     check (on_ptrs (u_array_add av a)) (\<lambda>_.
     check (on_stream a (modify (\<lambda>s. s\<lparr>s_fd_type := ty\<rparr>))) (\<lambda>_.
     check (ep_add_in fd a) (\<lambda>_. ret a))))))"

definition e_epoll_reset_stream :: "addr \<Rightarrow> (unit, 'z ep_scheme) op" where
  "e_epoll_reset_stream a = check (stream_clear_fallback a) (\<lambda>_. e_epoll_sync_stream a)"

text \<open>\<open>res == -1 && errno != ENOENT\<close>: descriptors that are not registered are fine.\<close>

definition ep_del :: "int \<Rightarrow> (unit, 'z ep_scheme) op" where
  "ep_del fd w = (case epoll_ctl_del fd w of
      (Ep_ok, w') \<Rightarrow> (Ok (), w') | (Ep_noent, w') \<Rightarrow> (Ok (), w') | (_, w') \<Rightarrow> (Fail, w'))"

definition e_epoll_close_remove_simple :: "addr \<Rightarrow> (unit, 'z ep_scheme) op" where
  "e_epoll_close_remove_simple a =
     on_err
       (check (deref a) (\<lambda>s.
        check (ep_del (s_fd s)) (\<lambda>_.
        check (on_ptrs (u_array_find_index a)) (\<lambda>index.
        check (on_ptrs (u_array_remove index)) (\<lambda>_.
        check (stream_close a) (\<lambda>_. free_stream a))))))
       (check (deref a) (\<lambda>s. modify (sys_close (s_fd s))))"

text \<open>
  The loop of \<open>e_close_epoll_ctx\<close>: each round takes the first pointer out of the array or fails,
  so as many rounds as there are elements are enough.
\<close>

primrec close_streams :: "nat \<Rightarrow> (unit, 'z ep_scheme) op" where
  "close_streams 0 = ret ()"
| "close_streams (Suc n) =
     check (gets (\<lambda>w. arr_length (stream_ptrs w))) (\<lambda>len.
       if len > 0
       then check (on_ptrs (u_array_getv 0)) (\<lambda>e_stream.
            check (e_epoll_close_remove_simple e_stream) (\<lambda>_. close_streams n))
       else ret ())"

definition e_close_epoll_ctx :: "(unit, 'z ep_scheme) op" where
  "e_close_epoll_ctx =
     check (gets (\<lambda>w. arr_length (stream_ptrs w))) (\<lambda>len.
     check (close_streams (unat len)) (\<lambda>_.
     check (on_ptrs u_array_free) (\<lambda>_.
       modify (\<lambda>w. w\<lparr>ep_open := False\<rparr>))))"

subsection \<open>Closing a stream\<close>

text \<open>The pointers \<open>stream_close\<close> frees: bytes 16--23 of every queued item and of the fallback item.\<close>

definition live_ptrs :: "stream_item list \<Rightarrow> addr list" where
  "live_ptrs its = filter (\<lambda>b. b \<noteq> 0) (map msg_buffer its)"

definition owned :: "epoll_stream \<Rightarrow> addr list" where
  "owned s = live_ptrs (q_items (s_queue s) @ [s_fallback s])"

definition without :: "addr list \<Rightarrow> 'z mem_scheme \<Rightarrow> 'z mem_scheme" where
  "without bs w = w\<lparr>m_bufs := m_bufs w |` (- set bs)\<rparr>"

lemma without_frame [simp]:
  "m_streams (without bs w) = m_streams w" "m_brk (without bs w) = m_brk w"
  "k_open (without bs w) = k_open w" "k_epoll (without bs w) = k_epoll w"
  "m_bufs (without bs w) b = (if b \<in> set bs then None else m_bufs w b)"
  "without [] w = w" "put_stream a s (without bs w) = without bs (put_stream a s w)"
  by (simp_all add: without_def put_stream_def restrict_map_def)

lemma without_without [simp]: "without bs (without cs w) = without (cs @ bs) w"
  by (simp add: without_def Int_commute)

lemma free_buffer_ok: "m_bufs w b \<noteq> None \<Longrightarrow> b \<noteq> 0 \<Longrightarrow> free_buffer b w = (Ok (), without [b] w)"
  by (auto simp: free_buffer_def without_def restrict_map_def fun_upd_def
      intro!: arg_cong[where f="\<lambda>m. w\<lparr>m_bufs := m\<rparr>"])

lemma close_items_spec:
  assumes "m_streams w a = Some s" "q_inv (s_queue s)" "length (q_items (s_queue s)) < n"
    and "distinct (live_ptrs (q_items (s_queue s)))"
    and "\<forall>b \<in> set (live_ptrs (q_items (s_queue s))). m_bufs w b \<noteq> None"
  shows "\<exists>q. close_items n a w = (Ok (), without (live_ptrs (q_items (s_queue s))) (put_stream a (s\<lparr>s_queue := q\<rparr>) w)) \<and>
    q_inv q \<and> q_items q = []"
  using assms
proof (induction n arbitrary: w s)
  case 0
  then show ?case by simp
next
  case (Suc n)
  show ?case
  proof (cases "q_items (s_queue s)")
    case Nil
    then have "q_is_empty (s_queue s)" using q_empty_iff Suc.prems(2) by blast
    moreover have "put_stream a (s\<lparr>s_queue := s_queue s\<rparr>) w = w"
      using Suc.prems(1) by (simp add: put_stream_def fun_upd_idem)
    ultimately show ?thesis using Nil Suc.prems(1,2)
      by (intro exI[of _ "s_queue s"]) (simp add: check_def deref_def ret_def live_ptrs_def)
  next
    case (Cons it xs)
    then have ne: "\<not> q_is_empty (s_queue s)" using q_empty_iff[OF Suc.prems(2)] by simp
    obtain q where q: "u_queue_pop (s_queue s) = (Ok it, q)" "q_inv q" "q_items q = xs"
      using u_queue_pop_spec[OF Suc.prems(2)] Cons by auto
    let ?bs = "if msg_buffer it \<noteq> 0 then [msg_buffer it] else []"
    let ?w1 = "without ?bs (put_stream a (s\<lparr>s_queue := q\<rparr>) w)"
    have ptrs: "live_ptrs (it # xs) = ?bs @ live_ptrs xs" by (simp add: live_ptrs_def)
    have live: "\<forall>b \<in> set (?bs @ live_ptrs xs). m_bufs w b \<noteq> None" and dist: "distinct (?bs @ live_ptrs xs)"
      using Suc.prems(4,5) unfolding Cons ptrs by blast+
    have free: "(if msg_buffer it \<noteq> 0 then free_buffer (msg_buffer it) else ret ()) (put_stream a (s\<lparr>s_queue := q\<rparr>) w) = (Ok (), ?w1)"
      using live by (auto simp: free_buffer_ok ret_def)
    have s1: "m_streams ?w1 a = Some (s\<lparr>s_queue := q\<rparr>)" by simp
    have rest: "length xs < n" using Suc.prems(3) Cons by simp
    have "distinct (live_ptrs xs)" "\<forall>b \<in> set (live_ptrs xs). m_bufs ?w1 b \<noteq> None"
      using live dist by (auto split: if_splits)
    with Suc.IH[OF s1] q(2,3) rest obtain q' where q': "q_inv q'" "q_items q' = []"
      "close_items n a ?w1 = (Ok (), without (live_ptrs xs) (put_stream a (s\<lparr>s_queue := q, s_queue := q'\<rparr>) ?w1))"
      by auto
    have "close_items (Suc n) a w = close_items n a ?w1"
      using Suc.prems(1) ne q(1) free
      by (simp add: check_def deref_def on_stream_def zoom_def)
    also have "\<dots> = (Ok (), without (live_ptrs (it # xs)) (put_stream a (s\<lparr>s_queue := q'\<rparr>) w))"
      unfolding q'(3) ptrs by simp
    finally show ?thesis using q' unfolding Cons by blast
  qed
qed

lemma stream_close_spec:
  assumes s: "m_streams w a = Some s" "stream_ok s" and own: "distinct (owned s)" "\<forall>b \<in> set (owned s). m_bufs w b \<noteq> None"
  shows "\<exists>s'. stream_close a w = (Ok (), sys_close (s_fd s) (without (owned s) (put_stream a s' w)))"
proof -
  have inv: "q_inv (s_queue s)" using s(2) by (simp add: stream_ok_def)
  let ?items = "q_items (s_queue s)" and ?f = "s_fallback s"
  let ?bs = "if msg_buffer ?f \<noteq> 0 then [msg_buffer ?f] else []"
  have own_eq: "owned s = live_ptrs ?items @ ?bs" by (simp add: owned_def live_ptrs_def)
  have len: "length ?items < Suc (unat (arr_length (q_array (s_queue s))))"
    using inv length_elems[of "q_array (s_queue s)"] by (simp add: q_inv_def q_items_def)
  obtain q where q: "close_items (Suc (unat (arr_length (q_array (s_queue s))))) a w =
      (Ok (), without (live_ptrs ?items) (put_stream a (s\<lparr>s_queue := q\<rparr>) w))"
    using close_items_spec[OF s(1) inv len] own unfolding own_eq by auto
  let ?s1 = "s\<lparr>s_queue := q\<lparr>q_array := (q_array q)\<lparr>arr_data := None\<rparr>\<rparr>\<rparr>"
  let ?w1 = "without (live_ptrs ?items) (put_stream a ?s1 w)"
  have free: "m_bufs ?w1 (msg_buffer ?f) \<noteq> None" if "msg_buffer ?f \<noteq> 0"
    using own that unfolding own_eq by auto
  show ?thesis
  proof (cases "msg_buffer ?f = 0")
    case True
    have "stream_close a w = (Ok (), sys_close (s_fd s) (without (owned s) (put_stream a (?s1\<lparr>s_fd := - 1\<rparr>) w)))"
      unfolding stream_close_def check_def deref_def s(1) option.case prod.case res.case q own_eq using True s(1)
      by (simp add: on_stream_def zoom_def u_queue_free_def ret_def modify_def)
        (cases w, simp add: sys_close_def put_stream_def without_def modify_def)
    then show ?thesis by blast
  next
    case False
    let ?s2 = "?s1\<lparr>s_fallback := set_buffer 0 ?f, s_fd := - 1\<rparr>"
    have "stream_close a w = (Ok (), sys_close (s_fd s) (without (owned s) (put_stream a ?s2 w)))"
      unfolding stream_close_def check_def deref_def s(1) option.case prod.case res.case q own_eq using False s(1) free
      by (simp add: on_stream_def zoom_def u_queue_free_def ret_def modify_def free_buffer_ok)
        (cases w, simp add: sys_close_def put_stream_def without_def modify_def)
    then show ?thesis by blast
  qed
qed

subsection \<open>Removing a stream from the context\<close>

abbreviation ptrs :: "'z ep_scheme \<Rightarrow> addr list" where
  "ptrs w \<equiv> elems (stream_ptrs w)"

text \<open>The stream at \<open>a\<close> is gone with its blocks, its descriptor and its place in the table; nothing else.\<close>

definition stream_gone :: "addr \<Rightarrow> epoll_stream \<Rightarrow> 'z ep_scheme \<Rightarrow> 'z ep_scheme \<Rightarrow> bool" where
  "stream_gone a s w w' \<longleftrightarrow> m_streams w' = (m_streams w)(a := None) \<and>
     m_bufs w' = m_bufs w |` (- set (owned s)) \<and> m_brk w' = m_brk w \<and> m_av w' = m_av w \<and>
     k_in w' = k_in w \<and> k_out w' = k_out w \<and> k_open w' = (k_open w)(s_fd s := False) \<and>
     k_epoll w' = (k_epoll w)(s_fd s := None) \<and> arr_inv (stream_ptrs w') \<and>
     ptrs w' = remove1 a (ptrs w) \<and> ep_open w' = ep_open w \<and> ep.more w' = ep.more w"

lemma ep_del_open: "k_open w fd \<Longrightarrow> ep_del fd w = (Ok (), w\<lparr>k_epoll := (k_epoll w)(fd := None)\<rparr>)"
  by (auto simp: ep_del_def epoll_ctl_del_def fun_upd_idem)

lemma find_remove_check:
  assumes "arr_inv arr"
  shows "\<exists>arr'. (if a \<in> set (elems arr)
    then \<exists>i. u_array_find_index a arr = (Ok i, arr) \<and> u_array_remove i arr = (Ok (), arr')
    else u_array_find_index a arr = (Fail, arr)) \<and> arr_inv arr' \<and> elems arr' = remove1 a (elems arr)"
proof (cases "a \<in> set (elems arr)")
  case True
  from ua.find_law[OF assms, of a] True obtain i where i: "u_array_find_index a arr = (Ok i, arr)"
    "unat i = index_of a (elems arr)" by auto
  with ua.remove_law[OF assms, of i] index_of_less[OF True] obtain arr' where
    "arr_inv arr'" "u_array_remove i arr = (Ok (), arr')" "elems arr' = drop_nth (unat i) (elems arr)" by auto
  with True i show ?thesis by (intro exI[of _ arr']) (simp add: drop_index_of)
next
  case False
  with ua.find_law[OF assms, of a] assms show ?thesis by (intro exI[of _ arr]) (simp add: remove1_idem)
qed

lemma close_remove_spec:
  fixes w :: "'z ep_scheme"
  assumes s: "m_streams w a = Some s" "stream_ok s" "a \<noteq> 0" and own: "distinct (owned s)" "\<forall>b \<in> set (owned s). m_bufs w b \<noteq> None"
    and arr: "arr_inv (stream_ptrs w)" and opn: "k_open w (s_fd s)" and mem: "a \<in> set (ptrs w)"
  shows "\<exists>w'. e_epoll_close_remove_simple a w = (Ok (), w') \<and> stream_gone a s w w'"
proof -
  obtain p i where p: "u_array_find_index a (stream_ptrs w) = (Ok i, stream_ptrs w)"
    "u_array_remove i (stream_ptrs w) = (Ok (), p)" "arr_inv p" "elems p = remove1 a (ptrs w)"
    using find_remove_check[OF arr, of a] mem by auto
  let ?w1 = "w\<lparr>k_epoll := (k_epoll w)(s_fd s := None), stream_ptrs := p\<rparr>"
  have "m_streams ?w1 a = Some s" "\<forall>b \<in> set (owned s). m_bufs ?w1 b \<noteq> None" using s own by auto
  from stream_close_spec[OF this(1) s(2) own(1) this(2)] obtain s' where
    s': "stream_close a ?w1 = (Ok (), sys_close (s_fd s) (without (owned s) (put_stream a s' ?w1)))" by blast
  let ?w' = "(sys_close (s_fd s) (without (owned s) (put_stream a s' ?w1)))\<lparr>m_streams := (m_streams w)(a := None)\<rparr>"
  have "e_epoll_close_remove_simple a w = (Ok (), ?w')"
    using s p s' unfolding e_epoll_close_remove_simple_def on_err_def
    by (simp add: check_def deref_def ep_del_open[OF opn] zoom_def)
      (simp add: free_stream_def sys_close_def put_stream_def without_def)
  moreover have "stream_gone a s w ?w'"
    using p(3,4) by (simp add: stream_gone_def sys_close_def put_stream_def without_def)
  ultimately show ?thesis by blast
qed

lemma close_remove_absent:
  assumes s: "m_streams w a = Some s" and arr: "arr_inv (stream_ptrs w)" and opn: "k_open w (s_fd s)" and mem: "a \<notin> set (ptrs w)"
  shows "\<exists>w'. e_epoll_close_remove_simple a w = (Fail, w') \<and> m_streams w' = m_streams w \<and> ptrs w' = ptrs w \<and>
    k_open w' = (k_open w)(s_fd s := False)"
proof -
  have "u_array_find_index a (stream_ptrs w) = (Fail, stream_ptrs w)"
    using find_remove_check[OF arr, of a] mem by auto
  then show ?thesis using s
    by (simp add: e_epoll_close_remove_simple_def on_err_def check_def deref_def ep_del_open[OF opn] zoom_def
        modify_def sys_close_def)
qed

subsection \<open>Adding a stream to the context\<close>

text \<open>The direction and kind of item a stream falls back to, by the type of its descriptor.\<close>

definition fd_default :: "fd_type \<Rightarrow> stream_operation \<times> stream_type" where
  "fd_default ty = (case ty of
      FD_PEER \<Rightarrow> (STREAM_OP_READING, STREAM_TYPE_SOCKET)
    | FD_RELAY \<Rightarrow> (STREAM_OP_READING, STREAM_TYPE_SOCKET)
    | FD_DEV \<Rightarrow> (STREAM_OP_READING, STREAM_TYPE_DEVICE)
    | FD_UDEV \<Rightarrow> (STREAM_OP_WRITING, STREAM_TYPE_DEVICE)
    | _ \<Rightarrow> (STREAM_OP_WRITING, STREAM_TYPE_SOCKET))"

definition ready_stream :: "fd_type \<Rightarrow> int \<Rightarrow> fd_type \<Rightarrow> stream_item u_queue \<Rightarrow> epoll_stream" where
  "ready_stream x fd ty q = \<lparr>s_fallback = zero_item\<lparr>i_op := fst (fd_default ty), i_type := snd (fd_default ty)\<rparr>,
     s_next = At_fallback, s_queue = q, s_default_op = fst (fd_default ty), s_default_type = snd (fd_default ty),
     s_fd_type = x, s_fd = fd\<rparr>"

lemma ready_stream_ok:
  assumes "q_inv q" "q_items q = []"
  shows "stream_ok (ready_stream x fd ty q)" "q_items (s_queue (ready_stream x fd ty q)) = []"
    "owned (ready_stream x fd ty q) = []" "s_fd (ready_stream x fd ty q) = fd" "s_fd_type (ready_stream x fd ty q) = x"
  using assms by (simp_all add: ready_stream_def stream_ok_def owned_def live_ptrs_def zero_item_def msg_buffer_def)

lemma msg_buffer_zero_item [simp]: "msg_buffer zero_item = 0"
  by (simp add: zero_item_def msg_buffer_def)

lemma set_default_fresh:
  "m_streams w a = Some s \<Longrightarrow> s_fallback s = zero_item \<Longrightarrow> a \<noteq> 0 \<Longrightarrow> stream_set_default a sop ty w =
    (Ok (), put_stream a (s\<lparr>s_fallback := zero_item\<lparr>i_op := sop, i_type := ty\<rparr>, s_default_op := sop, s_default_type := ty\<rparr>) w)"
  by (simp add: stream_set_default_def check_def check_not_def deref_def ret_def on_stream_def modify_def Let_def)
    (simp add: zero_item_def)

lemma stream_init_spec:
  fixes w :: "'z mem_scheme"
  assumes s: "m_streams w a = Some (zero_stream\<lparr>s_fd_type := x\<rparr>)" "a \<noteq> 0"
    and r: "stream_init a fd ty w = (r, w')"
  shows "(\<exists>q. r = Ok () \<and> w' = put_stream a (ready_stream x fd ty q) w \<and> q_inv q \<and> q_items q = []) \<or>
    (\<exists>s'. r = Fail \<and> w' = put_stream a s' w)"
proof -
  let ?s1 = "zero_stream\<lparr>s_fd_type := x, s_fd := fd, s_next := At_fallback\<rparr>"
  obtain r1 q where q: "u_queue_init (m_av w) (of_nat sizeof_stream_item) rcn_std_capacity (s_queue ?s1) = (r1, q)"
    by fastforce
  from u_queue_init_spec[OF q] show ?thesis
  proof
    assume ok: "r1 = Ok () \<and> q_inv q \<and> q_items q = []"
    have "r = Ok () \<and> w' = put_stream a (ready_stream x fd ty q) w"
      using r s q ok by (cases ty) (auto simp: stream_init_def check_def gets_def on_stream_def zoom_def modify_def
          set_default_fresh ret_def ready_stream_def zero_stream_def fd_default_def zero_item_def[symmetric],
          auto simp: zero_item_def)
    with ok show ?thesis by blast
  next
    assume "r1 = Fail"
    then have "r = Fail \<and> w' = put_stream a (?s1\<lparr>s_queue := q\<rparr>) w"
      using r s q by (auto simp: stream_init_def check_def gets_def on_stream_def zoom_def modify_def zero_stream_def put_stream_def)
    then show ?thesis by blast
  qed
qed

text \<open>A stream for descriptor \<open>fd\<close> has been added at the fresh address \<open>a\<close>.\<close>

definition stream_added :: "addr \<Rightarrow> int \<Rightarrow> fd_type \<Rightarrow> 'z ep_scheme \<Rightarrow> 'z ep_scheme \<Rightarrow> bool" where
  "stream_added a fd ty w w' \<longleftrightarrow> a \<noteq> 0 \<and> m_streams w a = None \<and>
     (\<exists>q. m_streams w' = (m_streams w)(a \<mapsto> ready_stream ty fd ty q) \<and> q_inv q \<and> q_items q = []) \<and>
     m_bufs w' = m_bufs w \<and> m_brk w' = m_brk w + 16 \<and> m_av w' = m_av w \<and> heap_ok w' \<and>
     k_in w' = k_in w \<and> k_out w' = k_out w \<and> k_open w' = k_open w \<and>
     k_open w fd \<and> k_epoll w fd = None \<and> k_epoll w' = (k_epoll w)(fd \<mapsto> (EPOLLIN, a)) \<and>
     arr_inv (stream_ptrs w') \<and> ptrs w' = ptrs w @ [a] \<and> ep_open w' = ep_open w \<and> ep.more w' = ep.more w"

text \<open>A failed addition may leave an unreferenced stream behind, but changes no existing one.\<close>

definition add_failed :: "'z ep_scheme \<Rightarrow> 'z ep_scheme \<Rightarrow> bool" where
  "add_failed w w' \<longleftrightarrow> (\<forall>x. m_streams w x \<noteq> None \<longrightarrow> m_streams w' x = m_streams w x) \<and>
     m_bufs w' = m_bufs w \<and> k_open w' = k_open w \<and> k_epoll w' = k_epoll w \<and> k_in w' = k_in w \<and> k_out w' = k_out w \<and>
     arr_inv (stream_ptrs w') \<and> (ptrs w' = ptrs w \<or> (\<exists>a. ptrs w' = ptrs w @ [a])) \<and> ep.more w' = ep.more w"

lemma ep_add_in_cases:
  obtains "ep_add_in fd a w = (Ok (), w\<lparr>k_epoll := (k_epoll w)(fd \<mapsto> (EPOLLIN, a))\<rparr>)" "k_open w fd" "k_epoll w fd = None"
  | "ep_add_in fd a w = (Fail, w)"
proof (cases "k_open w fd \<and> k_epoll w fd = None")
  case True
  then show thesis by (intro that(1)) (simp_all add: ep_add_in_def epoll_ctl_add_def)
next
  case False
  then have "ep_add_in fd a w = (Fail, w)" by (auto simp: ep_add_in_def epoll_ctl_add_def)
  then show thesis by (rule that(2))
qed

lemma new_stream_cases:
  assumes "heap_ok w" and "new_stream w = (r, w')"
  obtains "r = Fail" "w' = w"
  | a where "r = Ok a" "a \<noteq> 0" "m_streams w a = None" "heap_ok w'"
    "w' = w\<lparr>m_streams := (m_streams w)(a \<mapsto> zero_stream), m_brk := m_brk w + 16\<rparr>"
proof -
  obtain a w1 where a: "calloc_stream w = (a, w1)" by fastforce
  have eq: "(r, w') = (if a = 0 then Fail else Ok a, w1)"
    using assms(2) a by (simp add: new_stream_def split: if_splits)
  from assms(1) a show thesis
  proof (cases rule: calloc_stream_cases)
    case 1
    with eq show thesis by (intro that(1)) simp_all
  next
    case 2
    with eq show thesis by (intro that(2)[of a]) simp_all
  qed
qed

text \<open>What both adding functions do once the stream has been initialised.\<close>

lemma register_spec:
  fixes w :: "'z ep_scheme"
  assumes arr: "arr_inv (stream_ptrs w)"
    and r: "check (gets m_av) (\<lambda>av. check (on_ptrs (u_array_add av a)) (\<lambda>_. check m (\<lambda>_.
      check (ep_add_in fd a) (\<lambda>_. ret a)))) w = (r, w')"
    and s: "m_streams w a = Some s"
    and m: "\<And>u. m_streams u a = Some s \<Longrightarrow> m u = (Ok (), put_stream a (f s) u)"
  shows "(r = Ok a \<and> k_open w fd \<and> k_epoll w fd = None \<and> (\<exists>p. arr_inv p \<and> elems p = ptrs w @ [a] \<and>
      w' = put_stream a (f s) (w\<lparr>k_epoll := (k_epoll w)(fd \<mapsto> (EPOLLIN, a)), stream_ptrs := p\<rparr>))) \<or>
    (r = Fail \<and> (\<exists>p s'. arr_inv p \<and> (elems p = ptrs w \<or> elems p = ptrs w @ [a]) \<and>
      w' = put_stream a s' (w\<lparr>stream_ptrs := p\<rparr>)))"
proof -
  obtain r1 p where p: "u_array_add (m_av w) a (stream_ptrs w) = (r1, p)" by fastforce
  from u_array_add_spec[OF arr p] show ?thesis
  proof (elim conjE disjE)
    assume inv: "arr_inv p" and r1: "r1 = Ok ()" "elems p = ptrs w @ [a]"
    let ?w1 = "put_stream a (f s) (w\<lparr>stream_ptrs := p\<rparr>)"
    have "m (w\<lparr>stream_ptrs := p\<rparr>) = (Ok (), ?w1)" using m s by simp
    then have go: "(r, w') = check (ep_add_in fd a) (\<lambda>_. ret a) ?w1"
      using r p r1 by (simp add: check_def gets_def zoom_def)
    show ?thesis
    proof (cases rule: ep_add_in_cases[of fd a ?w1])
      case 1
      with go have "r = Ok a" "w' = ?w1\<lparr>k_epoll := (k_epoll w)(fd \<mapsto> (EPOLLIN, a))\<rparr>"
        by (simp_all add: check_def ret_def)
      moreover have "?w1\<lparr>k_epoll := (k_epoll w)(fd \<mapsto> (EPOLLIN, a))\<rparr> =
          put_stream a (f s) (w\<lparr>k_epoll := (k_epoll w)(fd \<mapsto> (EPOLLIN, a)), stream_ptrs := p\<rparr>)"
        by (cases w) (simp add: put_stream_def)
      ultimately show ?thesis using inv r1 1(2,3) by auto
    next
      case 2
      with go show ?thesis using inv r1 by (auto simp: check_def)
    qed
  next
    assume "arr_inv p" "r1 = Fail" "elems p = ptrs w"
    moreover from this have "r = Fail" "w' = w\<lparr>stream_ptrs := p\<rparr>"
      using r p by (auto simp: check_def gets_def zoom_def)
    moreover have "w\<lparr>stream_ptrs := p\<rparr> = put_stream a s (w\<lparr>stream_ptrs := p\<rparr>)"
      using s by (simp add: put_stream_def fun_upd_idem)
    ultimately show ?thesis by metis
  qed
qed

lemma add_spec:
  fixes w :: "'z ep_scheme"
  assumes ok: "heap_ok w" and arr: "arr_inv (stream_ptrs w)"
    and r: "check new_stream (\<lambda>a. check (pre a) (\<lambda>_. check (stream_init a fd ty) (\<lambda>_. check (gets m_av) (\<lambda>av.
      check (on_ptrs (u_array_add av a)) (\<lambda>_. check (post a) (\<lambda>_. check (ep_add_in fd a) (\<lambda>_. ret a))))))) w = (r, w')"
    and pre: "\<And>a u. m_streams u a = Some zero_stream \<Longrightarrow> pre a u = (Ok (), put_stream a (zero_stream\<lparr>s_fd_type := x\<rparr>) u)"
    and post: "\<And>a u q. m_streams u a = Some (ready_stream x fd ty q) \<Longrightarrow>
      post a u = (Ok (), put_stream a (ready_stream ty fd ty q) u)"
  shows "(\<exists>a. r = Ok a \<and> stream_added a fd ty w w') \<or> r = Fail \<and> add_failed w w'"
proof -
  obtain r0 w0 where r0: "new_stream w = (r0, w0)" by fastforce
  from ok r0 show ?thesis
  proof (cases rule: new_stream_cases)
    case 1
    then have "r = Fail" "w' = w" using r r0 by (auto simp: check_def)
    then show ?thesis using arr by (simp add: add_failed_def)
  next
    case (2 a)
    let ?w1 = "put_stream a (zero_stream\<lparr>s_fd_type := x\<rparr>) w0"
    have "m_streams w0 a = Some zero_stream" by (simp add: 2(5))
    note pre' = pre[OF this]
    obtain r2 w2 where r2: "stream_init a fd ty ?w1 = (r2, w2)" by fastforce
    have "m_streams ?w1 a = Some (zero_stream\<lparr>s_fd_type := x\<rparr>)" by simp
    from stream_init_spec[OF this 2(2) r2] show ?thesis
    proof (elim disjE exE conjE)
      fix q assume q: "r2 = Ok ()" "w2 = put_stream a (ready_stream x fd ty q) ?w1" "q_inv q" "q_items q = []"
      let ?w2 = "put_stream a (ready_stream x fd ty q) ?w1"
      have go: "check (gets m_av) (\<lambda>av. check (on_ptrs (u_array_add av a)) (\<lambda>_. check (post a) (\<lambda>_.
          check (ep_add_in fd a) (\<lambda>_. ret a)))) ?w2 = (r, w')"
        using r r0 2(1) pre' r2 q(1,2) by (simp add: check_def)
      have arr2: "arr_inv (stream_ptrs ?w2)" using arr by (simp add: put_stream_def 2(5))
      have s2: "m_streams ?w2 a = Some (ready_stream x fd ty q)" by simp
      have fr: "ptrs ?w2 = ptrs w" "ep_open ?w2 = ep_open w" "ep.more ?w2 = ep.more w" by (simp_all add: put_stream_def 2(5))
      have "(r = Ok a \<and> k_open ?w2 fd \<and> k_epoll ?w2 fd = None \<and> (\<exists>p. arr_inv p \<and> elems p = ptrs ?w2 @ [a] \<and>
          w' = put_stream a (ready_stream ty fd ty q) (?w2\<lparr>k_epoll := (k_epoll ?w2)(fd \<mapsto> (EPOLLIN, a)), stream_ptrs := p\<rparr>))) \<or>
        (r = Fail \<and> (\<exists>p s'. arr_inv p \<and> (elems p = ptrs ?w2 \<or> elems p = ptrs ?w2 @ [a]) \<and>
          w' = put_stream a s' (?w2\<lparr>stream_ptrs := p\<rparr>)))"
        by (rule register_spec[OF arr2 go s2]) (rule post)
      then consider p where "r = Ok a" "k_open ?w2 fd" "k_epoll ?w2 fd = None" "arr_inv p" "elems p = ptrs ?w2 @ [a]"
          "w' = put_stream a (ready_stream ty fd ty q) (?w2\<lparr>k_epoll := (k_epoll ?w2)(fd \<mapsto> (EPOLLIN, a)), stream_ptrs := p\<rparr>)"
        | p s' where "r = Fail" "arr_inv p" "elems p = ptrs ?w2 \<or> elems p = ptrs ?w2 @ [a]"
          "w' = put_stream a s' (?w2\<lparr>stream_ptrs := p\<rparr>)"
        by blast
      then show ?thesis
      proof cases
        case p: (1 p)
        have "heap_ok w'" using 2(4) by (auto simp: p(6) 2(5) heap_ok_def)
        then have "stream_added a fd ty w w'"
          using 2(2,3) p(2-5) q(3,4) fr unfolding stream_added_def p(6)
          by (auto simp: 2(5) put_stream_def)
        with p(1) show ?thesis by blast
      next
        case p: (2 p s')
        then show ?thesis using 2(3) fr by (auto simp: add_failed_def 2(5) put_stream_def)
      qed
    next
      fix s' assume q: "r2 = Fail" "w2 = put_stream a s' ?w1"
      then have "r = Fail" "w' = put_stream a s' ?w1" using r r0 2(1) pre' r2 by (auto simp: check_def)
      then show ?thesis using 2(3) arr by (auto simp: add_failed_def 2(5) put_stream_def)
    qed
  qed
qed

lemma add_getr_spec:
  assumes "heap_ok w" "arr_inv (stream_ptrs w)" "e_epoll_add_getr fd ty w = (r, w')"
  shows "(\<exists>a. r = Ok a \<and> stream_added a fd ty w w') \<or> r = Fail \<and> add_failed w w'"
proof (rule add_spec[OF assms(1,2), where x=ty and pre="\<lambda>a. on_stream a (modify (\<lambda>s. s\<lparr>s_fd_type := ty\<rparr>))" and post="\<lambda>a. ret ()"])
  show "check new_stream (\<lambda>a. check (on_stream a (modify (\<lambda>s. s\<lparr>s_fd_type := ty\<rparr>))) (\<lambda>_. check (stream_init a fd ty) (\<lambda>_.
      check (gets m_av) (\<lambda>av. check (on_ptrs (u_array_add av a)) (\<lambda>_. check (ret ()) (\<lambda>_. check (ep_add_in fd a) (\<lambda>_. ret a))))))) w = (r, w')"
    using assms(3) by (simp add: e_epoll_add_getr_def)
qed (simp_all add: on_stream_def modify_def ret_def put_stream_def fun_upd_idem)

lemma add_device_spec:
  assumes "heap_ok w" "arr_inv (stream_ptrs w)" "e_epoll_add_device fd ty w = (r, w')"
  shows "(\<exists>a. r = Ok a \<and> stream_added a fd ty w w') \<or> r = Fail \<and> add_failed w w'"
proof (rule add_spec[OF assms(1,2), where x=FD_USOCK and pre="\<lambda>a. ret ()" and post="\<lambda>a. on_stream a (modify (\<lambda>s. s\<lparr>s_fd_type := ty\<rparr>))"])
  show "check new_stream (\<lambda>a. check (ret ()) (\<lambda>_. check (stream_init a fd ty) (\<lambda>_.
      check (gets m_av) (\<lambda>av. check (on_ptrs (u_array_add av a)) (\<lambda>_. check (on_stream a (modify (\<lambda>s. s\<lparr>s_fd_type := ty\<rparr>))) (\<lambda>_. check (ep_add_in fd a) (\<lambda>_. ret a))))))) w = (r, w')"
    using assms(3) by (simp add: e_epoll_add_device_def)
qed (simp_all add: on_stream_def modify_def ret_def put_stream_def fun_upd_idem zero_stream_def ready_stream_def)

text \<open>Adding a stream and closing it again leaves no trace.\<close>

lemma add_close_roundtrip:
  assumes "heap_ok w" "arr_inv (stream_ptrs w)" "a \<notin> set (ptrs w)" "e_epoll_add_getr fd ty w = (Ok a, w1)"
  shows "\<exists>w2. e_epoll_close_remove_simple a w1 = (Ok (), w2) \<and> m_streams w2 = m_streams w \<and> m_bufs w2 = m_bufs w \<and>
    ptrs w2 = ptrs w \<and> k_epoll w2 = k_epoll w \<and> k_open w2 = (k_open w)(fd := False)"
proof -
  have add: "stream_added a fd ty w w1" using add_getr_spec[OF assms(1,2,4)] by auto
  then obtain q where q: "m_streams w1 = (m_streams w)(a \<mapsto> ready_stream ty fd ty q)" "q_inv q" "q_items q = []"
    by (auto simp: stream_added_def)
  note rs = ready_stream_ok[OF q(2,3), of ty fd ty]
  have "\<exists>w2. e_epoll_close_remove_simple a w1 = (Ok (), w2) \<and> stream_gone a (ready_stream ty fd ty q) w1 w2"
    by (rule close_remove_spec) (use add q(1) rs in \<open>simp_all add: stream_added_def\<close>)
  then obtain w2 where "e_epoll_close_remove_simple a w1 = (Ok (), w2)" "stream_gone a (ready_stream ty fd ty q) w1 w2" by blast
  then show ?thesis using add q(1) rs(3,4) assms(3)
    by (intro exI[of _ w2]) (auto simp: stream_added_def stream_gone_def fun_upd_idem remove1_append)
qed

subsection \<open>Concrete contexts\<close>

definition ep_of :: "mem \<Rightarrow> addr list \<Rightarrow> ep" where
  "ep_of w ps = mem.extend w (ep.fields (array_of 8 10 ps) True)"

lemma ep_of_simps [simp]:
  "m_streams (ep_of w ps) = m_streams w" "m_bufs (ep_of w ps) = m_bufs w" "m_brk (ep_of w ps) = m_brk w"
  "m_av (ep_of w ps) = m_av w" "k_open (ep_of w ps) = k_open w" "k_epoll (ep_of w ps) = k_epoll w"
  "stream_ptrs (ep_of w ps) = array_of 8 10 ps" "ep_open (ep_of w ps)"
  "k_in (ep_of w ps) = k_in w" "k_out (ep_of w ps) = k_out w"
  by (simp_all add: ep_of_def mem.defs ep.defs)

lemma ep_of_ok: "length ps \<le> 10 \<Longrightarrow> arr_inv (stream_ptrs (ep_of w ps)) \<and> elems (stream_ptrs (ep_of w ps)) = ps"
  by (simp add: array_of_inv)

lemma le_nat_0_iff: "le_nat bs = 0 \<longleftrightarrow> (\<forall>b \<in> set bs. b = 0)"
  by (induction bs) (auto simp: unat_eq_0)

lemma bytes_u16_0: "(\<forall>b \<in> set (bytes_u16 t). b = 0) \<Longrightarrow> t = 0"
  using le_nat_0_iff[of "bytes_u16 t"] le_u16_bytes[of t] by (simp add: le_u16_def)

lemma event_ptr_nonzero:
  assumes "ev_type e \<noteq> 0"
  shows "le_u64 (take 8 (drop 16 (enc_event e))) \<noteq> 0"
proof
  let ?bs = "bytes_u16 (ev_type e) @ bytes_u16 (ev_code e) @ bytes_u32 (ev_value e)"
  have "take 8 (drop 16 (enc_event e)) = ?bs" by (simp add: enc_event_def)
  moreover assume "le_u64 (take 8 (drop 16 (enc_event e))) = 0"
  moreover have "le_nat ?bs < 2 ^ 64" using le_nat_bound[of ?bs] by simp
  ultimately have "le_nat ?bs = 0" by (simp add: le_u64_def word_unat_eq_iff unat_of_nat take_bit_nat_eq_self)
  then have "\<forall>b \<in> set (bytes_u16 (ev_type e)). b = 0" using le_nat_0_iff[of ?bs] by simp
  with assms bytes_u16_0 show False by blast
qed

subsection \<open>Properties\<close>

text \<open>Adding a descriptor to the epoll context and closing its stream again leaves no trace:
  the stream's memory, its place in the table and its registration are gone, the descriptor is
  closed, and every other stream, buffer and registration is as before.\<close>

theorem epoll_add_close:
  assumes "heap_ok w" "arr_inv (stream_ptrs w)" "a \<notin> set (ptrs w)" "e_epoll_add_getr fd ty w = (Ok a, w1)"
  shows "\<exists>w2. e_epoll_close_remove_simple a w1 = (Ok (), w2) \<and> m_streams w2 = m_streams w \<and> m_bufs w2 = m_bufs w \<and>
    ptrs w2 = ptrs w \<and> k_epoll w2 = k_epoll w \<and> k_open w2 = (k_open w)(fd := False)"
  using assms by (rule add_close_roundtrip)

theorem epoll_add_close_witness:
  "\<exists>w1 w2. e_epoll_add_getr 7 FD_RELAY (ep_of ((mem_of [] (\<lambda>_. []))\<lparr>k_epoll := Map.empty\<rparr>) []) = (Ok 4096, w1) \<and>
    e_epoll_close_remove_simple 4096 w1 = (Ok (), w2) \<and> ptrs w2 = []"
proof -
  let ?w = "ep_of ((mem_of [] (\<lambda>_. []))\<lparr>k_epoll := Map.empty\<rparr>) []"
  have "fst (e_epoll_add_getr 7 FD_RELAY ?w) = Ok 4096"
    by (simp add: e_epoll_add_getr_def new_stream_def calloc_stream_def fresh_def mem_of_def sizeof_epoll_stream_def
      granted_def check_def on_stream_def modify_def stream_init_def gets_def zoom_def put_stream_def u_queue_init_def
      u_array_init_def stream_set_default_def check_not_def deref_def ret_def Let_def zero_stream_def
      rcn_std_capacity_def sizeof_stream_item_def u_array_add_def store_cell_def slot_def ep_add_in_def epoll_ctl_add_def array_of_def)
  then obtain w1 where w1: "e_epoll_add_getr 7 FD_RELAY ?w = (Ok 4096, w1)" by (metis prod.collapse)
  have "heap_ok ?w" by (simp add: heap_ok_def mem_of_def)
  from epoll_add_close[OF this _ _ w1] ep_of_ok[of "[]" "(mem_of [] (\<lambda>_. []))\<lparr>k_epoll := Map.empty\<rparr>"] w1
  show ?thesis by auto
qed

text \<open>C19: Closing one stream among others: the table loses exactly its pointer, the heap exactly its
  blocks (the stream itself and the buffers its items own), the kernel exactly its descriptor.\<close>

theorem epoll_close_exact:
  assumes "m_streams w a = Some s" "stream_ok s" "a \<noteq> 0" "distinct (owned s)" "\<forall>b \<in> set (owned s). m_bufs w b \<noteq> None"
    and "arr_inv (stream_ptrs w)" "k_open w (s_fd s)" "a \<in> set (ptrs w)"
  shows "\<exists>w'. e_epoll_close_remove_simple a w = (Ok (), w') \<and> stream_gone a s w w'"
  using assms by (rule close_remove_spec)

theorem epoll_close_exact_witness:
  "let s = fresh_stream STREAM_OP_READING STREAM_TYPE_SOCKET FD_RELAY in
   \<exists>w'. e_epoll_close_remove_simple 16 (ep_of (mem_of [(16, s 5), (32, s 6)] (\<lambda>_. [])) [32, 16]) = (Ok (), w') \<and>
     ptrs w' = [32] \<and> m_streams w' 32 = Some (s 6) \<and> m_streams w' 16 = None"
proof -
  let ?s = "fresh_stream STREAM_OP_READING STREAM_TYPE_SOCKET FD_RELAY"
  let ?w = "ep_of (mem_of [(16, ?s 5), (32, ?s 6)] (\<lambda>_. [])) [32, 16]"
  have own: "owned (?s 5) = []" by (simp add: owned_def live_ptrs_def msg_buffer_def zero_item_def)
  have s: "m_streams ?w 16 = Some (?s 5)" and arr: "arr_inv (stream_ptrs ?w)" and p: "ptrs ?w = [32, 16]"
    by (simp_all add: mem_of_def array_of_inv)
  obtain w' where "e_epoll_close_remove_simple 16 ?w = (Ok (), w')" "stream_gone 16 (?s 5) ?w w'"
    using epoll_close_exact[OF s _ _ _ _ arr] own p by (auto simp: mem_of_def)
  then show ?thesis using p unfolding Let_def stream_gone_def by (auto simp: mem_of_def)
qed

text \<open>\<open>stream_close\<close> looks for a buffer to free without looking at the kind of the item.  For a
  device stream the fallback item holds the last input event, whose type, code and value are the
  bytes of that pointer: when the event was not all zero there, an address that was never allocated
  is passed to \<open>free\<close>.\<close>

theorem closing_frees_event_bytes:
  assumes "m_streams w a = Some s" "stream_ok s" "q_items (s_queue s) = []"
    and "i_payload (s_fallback s) = enc_event e" "ev_type e \<noteq> 0"
    and "m_bufs w (le_u64 (drop 16 (enc_event e))) = None"
  shows "fst (stream_close a w) = Undef"
proof -
  have inv: "q_inv (s_queue s)" using assms(2) by (simp add: stream_ok_def)
  have ptr: "msg_buffer (s_fallback s) \<noteq> 0" "m_bufs w (msg_buffer (s_fallback s)) = None"
    using event_ptr_nonzero[OF assms(5)] assms(4,6) by (simp_all add: msg_buffer_def)
  obtain q where q: "close_items (Suc (unat (arr_length (q_array (s_queue s))))) a w =
      (Ok (), put_stream a (s\<lparr>s_queue := q\<rparr>) w)"
    using close_items_spec[OF assms(1) inv, of "Suc (unat (arr_length (q_array (s_queue s))))"] assms(3)
    by (auto simp: live_ptrs_def)
  show ?thesis
    unfolding stream_close_def check_def deref_def assms(1) option.case prod.case res.case q
    using ptr by (simp add: on_stream_def zoom_def u_queue_free_def free_buffer_def)
qed

theorem closing_frees_event_bytes_witness:
  "let f = set_event \<lparr>tv_sec = 0, tv_usec = 0, ev_type = 1, ev_code = 30, ev_value = 1\<rparr> (zero_item\<lparr>i_type := STREAM_TYPE_DEVICE\<rparr>)
   in fst (stream_close 16 (mem_of [(16, (fresh_stream STREAM_OP_READING STREAM_TYPE_DEVICE FD_DEV 5)\<lparr>s_fallback := f\<rparr>)] (\<lambda>_. []))) = Undef"
proof -
  let ?e = "\<lparr>tv_sec = 0, tv_usec = 0, ev_type = 1, ev_code = 30, ev_value = 1\<rparr>"
  let ?s = "(fresh_stream STREAM_OP_READING STREAM_TYPE_DEVICE FD_DEV 5)\<lparr>s_fallback := set_event ?e (zero_item\<lparr>i_type := STREAM_TYPE_DEVICE\<rparr>)\<rparr>"
  have ok: "stream_ok ?s" "q_items (s_queue ?s) = []"
    using fresh_stream_ok(1,2)[of STREAM_OP_READING STREAM_TYPE_DEVICE FD_DEV 5] by (simp_all add: stream_ok_def)
  have "m_streams (mem_of [(16, ?s)] (\<lambda>_. [])) 16 = Some ?s" by (simp add: mem_of_def)
  from closing_frees_event_bytes[OF this ok, of ?e] show ?thesis
    by (simp add: Let_def set_event_def mem_of_def)
qed

end
