(* ===== verification/Rcn_Context.thy ===== *)
theory Rcn_Context
  imports Rcn_Epoll
begin

section \<open>The daemon's context (include/rcn_daemon.h, rcn_peer.h, rcn_relay.h, rcn_device.h)\<close>

text \<open>
  \<open>struct d_context\<close> points to the epoll, peer, device and relay contexts; here they are one record
  that extends the epoll context.  \<open>struct device\<close> and the structs that travel in message bodies are
  records with their byte layout (LP64, little-endian).  What the kernel answers while a handler runs
  is an argument of type \<open>kenv\<close>: which descriptor \<open>open\<close>, \<open>accept\<close> and \<open>socket\<close> give, whether an
  \<open>ioctl\<close> succeeds and what it reads.
\<close>

subsection \<open>Devices\<close>

record device_info =
  di_evtbit :: "byte list"
  di_keybit :: "byte list"
  di_absbit :: "byte list"
  di_relbit :: "byte list"
  di_propbit :: "byte list"
  di_name :: "byte list"
  di_absinfo :: "byte list list"
  di_dev_id :: "byte list"
  di_random_id :: u64

record device =
  d_info :: device_info
  d_stream :: addr
  d_grabbed :: bool

datatype device_ctrl = DEV_CTRL_CAPTURE | DEV_CTRL_RELEASE

text \<open>Constants of linux/input-event-codes.h, uinput.h and the array sizes derived from them.\<close>

definition EV_SYN :: nat where "EV_SYN = 0"
definition EV_KEY :: nat where "EV_KEY = 1"
definition EV_REL :: nat where "EV_REL = 2"
definition EV_ABS :: nat where "EV_ABS = 3"
definition EV_SW :: nat where "EV_SW = 5"
definition SYN_REPORT :: nat where "SYN_REPORT = 0"
definition EV_MAX :: nat where "EV_MAX = 31"
definition KEY_MAX :: nat where "KEY_MAX = 767"
definition ABS_MAX :: nat where "ABS_MAX = 63"
definition REL_MAX :: nat where "REL_MAX = 15"
definition INPUT_PROP_MAX :: nat where "INPUT_PROP_MAX = 31"
definition UINPUT_MAX_NAME_SIZE :: nat where "UINPUT_MAX_NAME_SIZE = 80"

definition max_evt_bytes :: nat where "max_evt_bytes = (EV_MAX + 7) div 8"
definition max_key_bytes :: nat where "max_key_bytes = (KEY_MAX + 7) div 8"
definition max_abs_bytes :: nat where "max_abs_bytes = (ABS_MAX + 7) div 8"
definition max_rel_bytes :: nat where "max_rel_bytes = (REL_MAX + 7) div 8"
definition max_prop_bytes :: nat where "max_prop_bytes = (INPUT_PROP_MAX + 7) div 8"

lemmas dev_consts = EV_SYN_def EV_KEY_def EV_REL_def EV_ABS_def EV_SW_def SYN_REPORT_def EV_MAX_def
  KEY_MAX_def ABS_MAX_def REL_MAX_def INPUT_PROP_MAX_def UINPUT_MAX_NAME_SIZE_def max_evt_bytes_def
  max_key_bytes_def max_abs_bytes_def max_rel_bytes_def max_prop_bytes_def

text \<open>\<open>HAS_BIT(array, bit)\<close>\<close>

definition has_bit :: "byte list \<Rightarrow> nat \<Rightarrow> bool" where
  "has_bit bits i = (i div 8 < length bits \<and> bit (bits ! (i div 8)) (i mod 8))"

text \<open>\<open>struct device_info\<close> as bytes: two bytes of padding before \<open>absinfo\<close>, four before \<open>random_id\<close>.\<close>

definition sizeof_device_info :: nat where "sizeof_device_info = 1752"
definition sizeof_device :: nat where "sizeof_device = 1768"

definition enc_device_info :: "device_info \<Rightarrow> byte list" where
  "enc_device_info d = di_evtbit d @ di_keybit d @ di_absbit d @ di_relbit d @ di_propbit d @ di_name d
     @ [0, 0] @ concat (di_absinfo d) @ di_dev_id d @ [0, 0, 0, 0] @ bytes_u64 (di_random_id d)"

definition field :: "nat \<Rightarrow> nat \<Rightarrow> byte list \<Rightarrow> byte list" where
  "field off n bs = take n (drop off bs)"

definition dec_device_info :: "byte list \<Rightarrow> device_info" where
  "dec_device_info bs = \<lparr>di_evtbit = field 0 4 bs, di_keybit = field 4 96 bs, di_absbit = field 100 8 bs,
     di_relbit = field 108 2 bs, di_propbit = field 110 4 bs, di_name = field 114 80 bs,
     di_absinfo = map (\<lambda>i. field (196 + 24 * i) 24 bs) [0..<64],
     di_dev_id = field 1732 8 bs, di_random_id = le_u64 (field 1744 8 bs)\<rparr>"

text \<open>The arrays have the lengths the struct declares.\<close>

definition info_wf :: "device_info \<Rightarrow> bool" where
  "info_wf d \<longleftrightarrow> length (di_evtbit d) = max_evt_bytes \<and> length (di_keybit d) = max_key_bytes \<and>
     length (di_absbit d) = max_abs_bytes \<and> length (di_relbit d) = max_rel_bytes \<and>
     length (di_propbit d) = max_prop_bytes \<and> length (di_name d) = UINPUT_MAX_NAME_SIZE \<and>
     length (di_absinfo d) = ABS_MAX + 1 \<and> (\<forall>a \<in> set (di_absinfo d). length a = 24) \<and> length (di_dev_id d) = 8"

definition zero_info :: device_info where
  "zero_info = \<lparr>di_evtbit = replicate max_evt_bytes 0, di_keybit = replicate max_key_bytes 0,
     di_absbit = replicate max_abs_bytes 0, di_relbit = replicate max_rel_bytes 0,
     di_propbit = replicate max_prop_bytes 0, di_name = replicate UINPUT_MAX_NAME_SIZE 0,
     di_absinfo = replicate (ABS_MAX + 1) (replicate 24 0), di_dev_id = replicate 8 0, di_random_id = 0\<rparr>"

subsection \<open>Message bodies\<close>

text \<open>\<open>struct peer_msg_event\<close>, \<open>struct peer_msg_dev_upd_grab\<close>, \<open>struct relay_data_list\<close>.\<close>

record peer_msg_event =
  evt_data :: input_event
  evt_random_id :: u64

definition enc_peer_event :: "peer_msg_event \<Rightarrow> byte list" where
  "enc_peer_event m = enc_event (evt_data m) @ bytes_u64 (evt_random_id m)"

definition dec_peer_event :: "byte list \<Rightarrow> peer_msg_event" where
  "dec_peer_event bs = \<lparr>evt_data = dec_event (take 24 bs), evt_random_id = le_u64 (field 24 8 bs)\<rparr>"

definition enc_bool :: "bool \<Rightarrow> byte list" where
  "enc_bool b = [if b then 1 else 0]"

record peer_msg_dev_upd_grab =
  upd_random_id :: u64
  upd_grab :: bool

definition enc_upd_grab :: "peer_msg_dev_upd_grab \<Rightarrow> byte list" where
  "enc_upd_grab m = bytes_u64 (upd_random_id m) @ enc_bool (upd_grab m) @ replicate 7 0"

definition dec_upd_grab :: "byte list \<Rightarrow> peer_msg_dev_upd_grab" where
  "dec_upd_grab bs = \<lparr>upd_random_id = le_u64 (field 0 8 bs), upd_grab = (bs ! 8 \<noteq> 0)\<rparr>"

record relay_data_list =
  rl_dev_name :: "byte list"
  rl_grabbed :: bool

definition enc_relay_entry :: "relay_data_list \<Rightarrow> byte list" where
  "enc_relay_entry e = rl_dev_name e @ enc_bool (rl_grabbed e)"

definition sizeof_peer_event :: nat where "sizeof_peer_event = 32"
definition sizeof_upd_grab :: nat where "sizeof_upd_grab = 16"
definition sizeof_relay_entry :: nat where "sizeof_relay_entry = 81"

subsection \<open>The context\<close>

text \<open>Requests made of a uinput descriptor, in the order the kernel sees them.\<close>

datatype ui_req =
  UI_SET_EVBIT nat | UI_SET_PROPBIT nat | UI_SET_KEYBIT nat | UI_SET_RELBIT nat | UI_SET_ABSBIT nat
  | UI_ABS_SETUP nat "byte list" | UI_DEV_SETUP "byte list" "byte list" | UI_DEV_CREATE

record d_context = ep +
  isock_stream :: addr
  peer_stream :: addr
  isock_port :: int
  isock_state :: peer_state
  p_state :: peer_state
  devices :: "device u_array"
  relay_streams :: "addr u_array"
  usock_fd :: int
  d_state :: rcn_state
  d_type :: daemon_type
  d_exit :: bool
  k_ui :: "(int \<times> ui_req) list"
  k_grab :: "int \<Rightarrow> bool"

abbreviation on_devices :: "('a, device u_array) op \<Rightarrow> ('a, d_context) op" where
  "on_devices \<equiv> zoom devices (\<lambda>d w. w\<lparr>devices := d\<rparr>)"

abbreviation on_relays :: "('a, addr u_array) op \<Rightarrow> ('a, d_context) op" where
  "on_relays \<equiv> zoom relay_streams (\<lambda>r w. w\<lparr>relay_streams := r\<rparr>)"

text \<open>What the kernel answers during one step.\<close>

datatype evio = EVIOCGID | EVIOCGNAME nat | EVIOCGBIT nat nat | EVIOCGPROP nat | EVIOCGABS nat

record kenv =
  e_open :: "string \<Rightarrow> int option"
  e_accept :: "int option"
  e_inet :: "int option"
  e_setup :: bool
  e_read :: "int \<Rightarrow> evio \<Rightarrow> byte list option"
  e_random :: "int \<Rightarrow> u64 option"
  e_ui :: "ui_req \<Rightarrow> bool"
  e_grab :: "int \<Rightarrow> bool"
  e_keys :: "int \<Rightarrow> byte list option list"

text \<open>Stack data of the kernel calls: a new descriptor is open from then on.\<close>

definition got_fd :: "int option \<Rightarrow> (int, 'z mem_scheme) op" where
  "got_fd ans w = (case ans of None \<Rightarrow> (Fail, w) | Some fd \<Rightarrow> (Ok fd, w\<lparr>k_open := (k_open w)(fd := True)\<rparr>))"

text \<open>\<open>calloc(1, sizeof(struct device))\<close>: the block is only written to before its contents are copied
  into the device array, so no record of it is kept beyond the address it takes.\<close>

definition calloc_device :: "(unit, 'z mem_scheme) op" where
  "calloc_device w = (if fresh sizeof_device w then (Ok (), w\<lparr>m_brk := m_brk w + 16\<rparr>) else (Fail, w))"

text \<open>Reading a struct of \<open>n\<close> bytes through a pointer into the heap.\<close>

definition load_struct :: "addr \<Rightarrow> nat \<Rightarrow> (byte list, 'z mem_scheme) op" where
  "load_struct b n w = (case m_bufs w b of
      Some blk \<Rightarrow> if n \<le> length blk then (Ok (take n blk), w) else (Undef, w)
    | None \<Rightarrow> (Undef, w))"

definition store_struct :: "addr \<Rightarrow> nat \<Rightarrow> byte list \<Rightarrow> (unit, 'z mem_scheme) op" where
  "store_struct b off bs w = (case m_bufs w b of
      Some blk \<Rightarrow> if off + length bs \<le> length blk
        then (Ok (), w\<lparr>m_bufs := (m_bufs w)(b \<mapsto> overwrite off bs blk)\<rparr>) else (Undef, w)
    | None \<Rightarrow> (Undef, w))"

text \<open>A \<open>%s\<close> argument must be terminated inside its array.\<close>

definition c_string :: "byte list \<Rightarrow> byte list option" where
  "c_string bs = (if 0 \<in> set bs then Some (takeWhile (\<lambda>b. b \<noteq> 0) bs) else None)"

subsection \<open>Layout lemmas\<close>

lemma field_append [simp]:
  "length xs = n \<Longrightarrow> field 0 n (xs @ ys) = xs"
  "length xs \<le> off \<Longrightarrow> field off n (xs @ ys) = field (off - length xs) n ys"
  by (simp_all add: field_def)

lemma length_concat_fixed: "\<forall>a \<in> set as. length a = n \<Longrightarrow> length (concat as) = length as * n"
  by (induction as) auto

lemma field_concat:
  "\<forall>a \<in> set as. length a = n \<Longrightarrow> i < length as \<Longrightarrow> field (n * i) n (concat as @ ys) = as ! i"
proof (induction as arbitrary: i)
  case (Cons a as)
  show ?case
  proof (cases i)
    case 0
    then show ?thesis using Cons.prems by (simp add: field_def)
  next
    case (Suc j)
    then have "field (n * i) n (concat (a # as) @ ys) = field (n * j) n (concat as @ ys)"
      using Cons.prems(1) by (simp add: field_def)
    then show ?thesis using Suc Cons by simp
  qed
qed simp

lemma length_enc_device_info:
  "info_wf d \<Longrightarrow> length (enc_device_info d) = sizeof_device_info"
  by (simp add: enc_device_info_def info_wf_def length_concat_fixed[where n=24] dev_consts sizeof_device_info_def)

lemma dec_enc_device_info:
  assumes "info_wf d"
  shows "dec_device_info (enc_device_info d @ rest) = d"
proof -
  note wf = assms[unfolded info_wf_def dev_consts]
  have lc: "length (concat (di_absinfo d)) = 1536" using wf by (simp add: length_concat_fixed[where n=24])
  have abs: "map (\<lambda>i. field (196 + 24 * i) 24 (enc_device_info d @ rest)) [0..<64] = di_absinfo d"
  proof (rule nth_equalityI)
    fix i assume "i < length (map (\<lambda>i. field (196 + 24 * i) 24 (enc_device_info d @ rest)) [0..<64])"
    then have i: "i < 64" by simp
    have "field (196 + 24 * i) 24 (enc_device_info d @ rest) =
        field (24 * i) 24 (concat (di_absinfo d) @ di_dev_id d @ [0, 0, 0, 0] @ bytes_u64 (di_random_id d) @ rest)"
      using wf by (simp add: enc_device_info_def field_def)
    then show "map (\<lambda>i. field (196 + 24 * i) 24 (enc_device_info d @ rest)) [0..<64] ! i = di_absinfo d ! i"
      using i wf by (simp add: field_concat)
  qed (use wf in simp)
  have "field 0 4 (enc_device_info d @ rest) = di_evtbit d" "field 4 96 (enc_device_info d @ rest) = di_keybit d"
    "field 100 8 (enc_device_info d @ rest) = di_absbit d" "field 108 2 (enc_device_info d @ rest) = di_relbit d"
    "field 110 4 (enc_device_info d @ rest) = di_propbit d" "field 114 80 (enc_device_info d @ rest) = di_name d"
    "field 1732 8 (enc_device_info d @ rest) = di_dev_id d"
    "field 1744 8 (enc_device_info d @ rest) = bytes_u64 (di_random_id d)"
    using wf lc by (simp_all add: enc_device_info_def field_def)
  then show ?thesis unfolding dec_device_info_def abs by simp
qed

lemma dec_enc_peer_event [simp]: "dec_peer_event (enc_peer_event m @ rest) = m" "dec_peer_event (enc_peer_event m) = m"
  by (simp_all add: dec_peer_event_def enc_peer_event_def field_def)

lemma dec_enc_upd_grab [simp]: "dec_upd_grab (enc_upd_grab m @ rest) = m" "dec_upd_grab (enc_upd_grab m) = m"
  by (simp_all add: dec_upd_grab_def enc_upd_grab_def enc_bool_def field_def nth_append)

lemma length_enc_bodies [simp]:
  "length (enc_peer_event m) = sizeof_peer_event" "length (enc_upd_grab u) = sizeof_upd_grab"
  by (simp_all add: enc_peer_event_def enc_upd_grab_def enc_bool_def sizeof_peer_event_def sizeof_upd_grab_def)

end
