(* ===== verification/Rcn_Device.thy ===== *)
theory Rcn_Device
  imports Rcn_Context
begin

section \<open>Devices (rcn_device.c)\<close>

text \<open>
  On the client, event files are opened, grabbed and read; on the server, each announced device is
  recreated through uinput and the client's events are written to it.  A \<open>struct device*\<close> always
  points into the array \<open>devices\<close> and is modelled by its index.
\<close>

subsection \<open>Event types and filtering\<close>

text \<open>\<open>enum event_types\<close>, \<open>enum event_type_index\<close> and the tables indexed by it.\<close>

definition DEVICE_EVT_KEY :: u32 where "DEVICE_EVT_KEY = 2"
definition DEVICE_EVT_REL :: u32 where "DEVICE_EVT_REL = 4"
definition DEVICE_EVT_ABS :: u32 where "DEVICE_EVT_ABS = 8"
definition DEVICE_EVT_SWT :: u32 where "DEVICE_EVT_SWT = 16"

definition device_evt_val_arr :: "u32 list" where
  "device_evt_val_arr = [DEVICE_EVT_KEY, DEVICE_EVT_REL, DEVICE_EVT_ABS, DEVICE_EVT_SWT]"

definition DEVICE_EVT_KEY_STR :: string where "DEVICE_EVT_KEY_STR = ''KEY''"
definition DEVICE_EVT_REL_STR :: string where "DEVICE_EVT_REL_STR = ''REL''"
definition DEVICE_EVT_ABS_STR :: string where "DEVICE_EVT_ABS_STR = ''ABS''"
definition DEVICE_EVT_SWT_STR :: string where "DEVICE_EVT_SWT_STR = ''SWT''"

definition DEVICE_EVT_COUNT_INDEX :: nat where "DEVICE_EVT_COUNT_INDEX = 4"

definition device_evt_str_arr :: "string list" where
  "device_evt_str_arr = [DEVICE_EVT_KEY_STR, DEVICE_EVT_REL_STR, DEVICE_EVT_ABS_STR, DEVICE_EVT_SWT_STR]"

lemmas evt_strs [simp] = DEVICE_EVT_KEY_STR_def DEVICE_EVT_REL_STR_def DEVICE_EVT_ABS_STR_def DEVICE_EVT_SWT_STR_def

record basic_device_info =
  bi_name :: "byte list"
  bi_eventX :: string
  bi_events :: u32

text \<open>\<open>filter_dev_set_info\<close>: \<open>None\<close> is the \<open>-1\<close>, otherwise the new value of \<open>*out\<close>.\<close>

definition filter_dev_set_info :: "byte list \<Rightarrow> u32 \<Rightarrow> u32 \<Rightarrow> nat \<Rightarrow> u32 \<Rightarrow> u32 option" where
  "filter_dev_set_info evt_bits filt ty evt out =
     (let has = has_bit evt_bits evt;
          out' = (if has then or out ty else out)
      in if \<not> has \<and> and filt ty \<noteq> 0 then None else Some out')"

text \<open>The four calls in a row; \<open>None\<close> is \<open>continue\<close>.\<close>

definition filter_device :: "byte list \<Rightarrow> u32 \<Rightarrow> u32 option" where
  "filter_device evt_bits filt =
     Option.bind (filter_dev_set_info evt_bits filt DEVICE_EVT_KEY EV_KEY 0) (\<lambda>o1.
     Option.bind (filter_dev_set_info evt_bits filt DEVICE_EVT_REL EV_REL o1) (\<lambda>o2.
     Option.bind (filter_dev_set_info evt_bits filt DEVICE_EVT_ABS EV_ABS o2) (\<lambda>o3.
       filter_dev_set_info evt_bits filt DEVICE_EVT_SWT EV_SW o3)))"

text \<open>\<open>ioctl\<close> fills the front of an array.\<close>

definition fill :: "byte list \<Rightarrow> byte list \<Rightarrow> byte list" where
  "fill arr ans = overwrite 0 (take (length arr) ans) arr"

definition RCN_DEV_EVENT_PATH :: string where "RCN_DEV_EVENT_PATH = ''/dev/input''"
definition RCN_DEV_UINPUT_PATH :: string where "RCN_DEV_UINPUT_PATH = ''/dev/uinput''"
definition RCN_DEV_MAX_NAME_LEN :: nat where "RCN_DEV_MAX_NAME_LEN = 256"

text \<open>
  The body of the \<open>readdir\<close> loop of \<open>dev_get_all_devices\<close>, for one directory entry.  The state is
  the array the caller passes; \<open>av\<close> is its allocator.
\<close>

definition list_entry :: "kenv \<Rightarrow> allocator \<Rightarrow> u32 \<Rightarrow> string \<Rightarrow> (unit, basic_device_info u_array) op" where
  "list_entry E av filt d_name =
     (if take 5 d_name \<noteq> ''event'' then ret ()
      else case e_open E (RCN_DEV_EVENT_PATH @ ''/'' @ d_name) of
        None \<Rightarrow> fail
      | Some fd \<Rightarrow>
         (case e_read E fd (EVIOCGBIT 0 max_evt_bytes) of
            None \<Rightarrow> fail
          | Some bits \<Rightarrow>
             (case filter_device (fill (replicate max_evt_bytes 0) bits) filt of
                None \<Rightarrow> ret ()
              | Some events \<Rightarrow>
                 (case e_read E fd (EVIOCGNAME RCN_DEV_MAX_NAME_LEN) of
                    None \<Rightarrow> fail
                  | Some nm \<Rightarrow> u_array_add av \<lparr>bi_name = fill (replicate RCN_DEV_MAX_NAME_LEN 0) nm,
                      bi_eventX = d_name, bi_events = events\<rparr>))))"

text \<open>\<open>opened\<close>: \<open>opendir\<close> succeeds; \<open>complete\<close>: \<open>readdir\<close> ends without an error.\<close>

definition dev_get_all_devices ::
  "kenv \<Rightarrow> allocator \<Rightarrow> bool \<Rightarrow> string list \<Rightarrow> bool \<Rightarrow> u32 \<Rightarrow> (unit, basic_device_info u_array) op" where
  "dev_get_all_devices E av opened entries complete filt =
     check_not (\<not> opened)
     (check (for_each (list_entry E av filt) entries) (\<lambda>_. check_not (\<not> complete) (ret ())))"

text \<open>What \<open>dev_print_basic_info\<close> writes to standard output.  The name is printed up to the end of its 256
  bytes; \<open>printf\<close> would read on behind a name that fills all of them.\<close>

fun commas :: "string list \<Rightarrow> string" where
  "commas [] = []"
| "commas [x] = x"
| "commas (x # xs) = x @ '','' @ commas xs"

definition dev_print_basic_info :: "basic_device_info \<Rightarrow> string" where
  "dev_print_basic_info b =
     (let shown = map snd (filter (\<lambda>(v, s). and (bi_events b) v \<noteq> 0) (zip device_evt_val_arr device_evt_str_arr))
      in ''['' @ commas shown @ '']'' @ (if length shown \<le> 1 then [CHR 0x09] else [])
         @ [CHR 0x09] @ bi_eventX b @ [CHR 0x09, CHR 0x09]
         @ map (\<lambda>c. char_of (unat c)) (takeWhile (\<lambda>c. c \<noteq> 0) (bi_name b)))"

subsection \<open>The device table\<close>

definition load_dev :: "nat \<Rightarrow> (device, d_context) op" where
  "load_dev k w = (case arr_data (devices w) of
      Some cs \<Rightarrow> (if k < length cs then (case cs ! k of Some d \<Rightarrow> (Ok d, w) | None \<Rightarrow> (Undef, w)) else (Undef, w))
    | None \<Rightarrow> (Undef, w))"

definition store_dev :: "nat \<Rightarrow> device \<Rightarrow> (unit, d_context) op" where
  "store_dev k d w = (case arr_data (devices w) of
      Some cs \<Rightarrow> (if k < length cs
        then (Ok (), w\<lparr>devices := (devices w)\<lparr>arr_data := Some (cs[k := Some d])\<rparr>\<rparr>) else (Undef, w))
    | None \<Rightarrow> (Undef, w))"

text \<open>\<open>for (size_t i = 0; i < devices->r.length; i++) { getr(.., &dev, i); .. }\<close>\<close>

definition for_devices :: "(nat \<Rightarrow> (unit, d_context) op) \<Rightarrow> (unit, d_context) op" where
  "for_devices f =
     check (gets (\<lambda>w. unat (arr_length (devices w)))) (\<lambda>n.
       for_each (\<lambda>i. check (on_devices (u_array_getr (of_nat i))) f) [0..<n])"

text \<open>\<open>dev_find_by_id\<close>: the pointer is null when there is no device, and the last one when none matches.\<close>

primrec find_dev :: "u64 \<Rightarrow> nat \<Rightarrow> nat \<Rightarrow> nat option \<Rightarrow> (nat option, d_context) op" where
  "find_dev random_id 0 i out = ret out"
| "find_dev random_id (Suc n) i out =
     check (on_devices (u_array_getr (of_nat i))) (\<lambda>k.
     check (load_dev k) (\<lambda>d.
       if di_random_id (d_info d) = random_id then ret (Some k) else find_dev random_id n (Suc i) (Some k)))"

definition dev_find_by_id :: "u64 \<Rightarrow> (nat option, d_context) op" where
  "dev_find_by_id random_id =
     check (gets (\<lambda>w. unat (arr_length (devices w)))) (\<lambda>n. find_dev random_id n 0 None)"

subsection \<open>Grabbing\<close>

text \<open>
  \<open>drain_events\<close> polls until no key is held down.  \<open>e_keys\<close> gives the successive answers of
  \<open>EVIOCGKEY\<close> while a key is held; when they are used up all keys have been released.  A key that is held
  forever, on which the loop would not end, has no such list.
\<close>

fun drain_keys :: "byte list option list \<Rightarrow> unit res" where
  "drain_keys [] = Ok ()"
| "drain_keys (None # rest) = Fail"
| "drain_keys (Some keybits # rest) = (if \<exists>b \<in> set keybits. b \<noteq> 0 then drain_keys rest else Ok ())"

definition drain_events :: "kenv \<Rightarrow> device \<Rightarrow> (unit, d_context) op" where
  "drain_events E d =
     (if has_bit (di_evtbit (d_info d)) EV_KEY
      then check (deref (d_stream d)) (\<lambda>s.
        check_not (s_fd s \<le> 0) (\<lambda>w. (drain_keys (e_keys E (s_fd s)), w)))
      else ret ())"

definition dev_grab_device_by_ptr :: "kenv \<Rightarrow> nat \<Rightarrow> device_ctrl \<Rightarrow> (unit, d_context) op" where
  "dev_grab_device_by_ptr E k ctrl =
     check (load_dev k) (\<lambda>d.
     check (drain_events E d) (\<lambda>_.
     check (deref (d_stream d)) (\<lambda>s.
     check_not (\<not> e_grab E (s_fd s))
     (check (modify (\<lambda>w. w\<lparr>k_grab := (k_grab w)(s_fd s := (ctrl = DEV_CTRL_CAPTURE))\<rparr>)) (\<lambda>_.
      check (store_dev k (d\<lparr>d_grabbed := (ctrl = DEV_CTRL_CAPTURE)\<rparr>)) (\<lambda>_.
      check (gets peer_stream) (\<lambda>p.
        stream_queue_writing_socket p (peer_code PEER_HEADER_DEV_UPD_GRAB) (of_nat sizeof_upd_grab)
          (enc_upd_grab \<lparr>upd_random_id = di_random_id (d_info d), upd_grab = (ctrl = DEV_CTRL_CAPTURE)\<rparr>))))))))"

text \<open>\<open>res == -1 && errno != EEXIST && errno != ENOENT\<close>\<close>

definition ctrl_epoll :: "device_ctrl \<Rightarrow> addr \<Rightarrow> (unit, d_context) op" where
  "ctrl_epoll ctrl a =
     check (deref a) (\<lambda>s w.
       case (case ctrl of
           DEV_CTRL_RELEASE \<Rightarrow> epoll_ctl_del (s_fd s) w
         | DEV_CTRL_CAPTURE \<Rightarrow> epoll_ctl_add (s_fd s) (if s_fd_type s = FD_DEV then EPOLLIN else EPOLLOUT) a w) of
         (Ep_badf, w') \<Rightarrow> (Fail, w') | (_, w') \<Rightarrow> (Ok (), w'))"

definition dev_ctrl_devices :: "kenv \<Rightarrow> device_ctrl \<Rightarrow> (unit, d_context) op" where
  "dev_ctrl_devices E ctrl =
     for_devices (\<lambda>k.
       check (dev_grab_device_by_ptr E k ctrl) (\<lambda>_.
       check (load_dev k) (\<lambda>d. ctrl_epoll ctrl (d_stream d))))"

subsection \<open>Client: event files\<close>

text \<open>\<open>dev_get_device_info\<close>; \<open>None\<close> is the \<open>-1\<close>.\<close>

definition read_absinfo :: "kenv \<Rightarrow> int \<Rightarrow> byte list \<Rightarrow> byte list list \<Rightarrow> byte list list option" where
  "read_absinfo E fd absbit abs0 =
     fold (\<lambda>i acc. Option.bind acc (\<lambda>as.
        if \<not> has_bit absbit i then Some as
        else Option.bind (e_read E fd (EVIOCGABS i)) (\<lambda>v. Some (as[i := fill (as ! i) v]))))
       [0..<ABS_MAX] (Some abs0)"

definition dev_get_device_info :: "kenv \<Rightarrow> int \<Rightarrow> device_info \<Rightarrow> device_info option" where
  "dev_get_device_info E fd info =
     Option.bind (e_random E fd) (\<lambda>rnd.
     Option.bind (e_read E fd EVIOCGID) (\<lambda>did.
     Option.bind (e_read E fd (EVIOCGNAME (UINPUT_MAX_NAME_SIZE - 1))) (\<lambda>nm.
     Option.bind (e_read E fd (EVIOCGBIT 0 max_evt_bytes)) (\<lambda>evts.
     Option.bind (e_read E fd (EVIOCGBIT EV_KEY max_key_bytes)) (\<lambda>keys.
     Option.bind (e_read E fd (EVIOCGBIT EV_ABS max_abs_bytes)) (\<lambda>abss.
     Option.bind (e_read E fd (EVIOCGBIT EV_REL max_rel_bytes)) (\<lambda>rels.
     Option.bind (e_read E fd (EVIOCGPROP max_prop_bytes)) (\<lambda>props.
       let info' = info\<lparr>di_random_id := rnd, di_dev_id := fill (di_dev_id info) did,
             di_name := fill (di_name info) (take (UINPUT_MAX_NAME_SIZE - 1) nm),
             di_evtbit := fill (di_evtbit info) evts, di_keybit := fill (di_keybit info) keys,
             di_absbit := fill (di_absbit info) abss, di_relbit := fill (di_relbit info) rels,
             di_propbit := fill (di_propbit info) props\<rparr>
       in if \<not> has_bit (di_evtbit info') EV_ABS then Some info'
          else map_option (\<lambda>as. info'\<lparr>di_absinfo := as\<rparr>)
                 (read_absinfo E fd (di_absbit info') (di_absinfo info'))))))))))"

definition dev_init_device :: "kenv \<Rightarrow> string \<Rightarrow> (nat, d_context) op" where
  "dev_init_device E dev_path =
     check calloc_device (\<lambda>_.
     check (got_fd (e_open E dev_path)) (\<lambda>dev_fd.
     check (e_epoll_add_device dev_fd FD_DEV) (\<lambda>a.
     check (case dev_get_device_info E dev_fd zero_info of Some i \<Rightarrow> ret i | None \<Rightarrow> fail) (\<lambda>info.
     check (gets m_av) (\<lambda>av.
     check (on_devices (u_array_add av \<lparr>d_info = info, d_stream = a, d_grabbed = False\<rparr>)) (\<lambda>_.
     check (gets (\<lambda>w. arr_length (devices w) - 1)) (\<lambda>last_i.
     check (on_devices (u_array_getr last_i)) (\<lambda>k.
     check (load_dev k) (\<lambda>d. case c_string (di_name (d_info d)) of None \<Rightarrow> undef | Some _ \<Rightarrow> ret k)))))))))"

definition announce_device :: "nat \<Rightarrow> (unit, d_context) op" where
  "announce_device k =
     check (load_dev k) (\<lambda>d. check (gets peer_stream) (\<lambda>p.
       stream_queue_writing_socket p (peer_code PEER_HEADER_DEV_CRT) (of_nat sizeof_device_info)
         (enc_device_info (d_info d))))"

text \<open>The paths are the elements of the caller's \<open>char_arr\<close>.\<close>

definition dev_init_devices_arg :: "kenv \<Rightarrow> string u_array \<Rightarrow> (unit, d_context) op" where
  "dev_init_devices_arg E dev_paths =
     for_each (\<lambda>i w. case u_array_getv (of_nat i) dev_paths of
         (Ok dev_path, _) \<Rightarrow> check (dev_init_device E dev_path) announce_device w
       | (Fail, _) \<Rightarrow> (Fail, w) | (Undef, _) \<Rightarrow> (Undef, w))
       [0..<unat (arr_length dev_paths)]"

text \<open>
  On the server \<open>devices_arg\<close> is the null pointer and not looked at.  The array of paths belongs to
  the caller; freeing it at the end is not visible here.
\<close>

definition dev_init_device_ctx :: "kenv \<Rightarrow> string u_array \<Rightarrow> daemon_type \<Rightarrow> (unit, d_context) op" where
  "dev_init_device_ctx E devices_arg ty =
     check (gets m_av) (\<lambda>av.
     check (on_devices (u_array_init av (of_nat sizeof_device) rcn_std_capacity)) (\<lambda>_.
       if ty = DAEMON_CLIENT
       then check (dev_init_devices_arg E devices_arg) (\<lambda>_. dev_ctrl_devices E DEV_CTRL_CAPTURE)
       else ret ()))"

text \<open>\<open>dev_handler\<close>: an event that has been read from device stream \<open>a\<close> goes to the peer.\<close>

primrec find_stream :: "addr \<Rightarrow> nat \<Rightarrow> nat \<Rightarrow> (nat option, d_context) op" where
  "find_stream a 0 i = ret None"
| "find_stream a (Suc n) i =
     check (on_devices (u_array_getr (of_nat i))) (\<lambda>k.
     check (load_dev k) (\<lambda>d. if d_stream d \<noteq> a then find_stream a n (Suc i) else ret (Some k)))"

definition dev_handler :: "addr \<Rightarrow> stream_item \<Rightarrow> (unit, d_context) op" where
  "dev_handler a it =
     check (gets (\<lambda>w. unat (arr_length (devices w)))) (\<lambda>n.
     check (find_stream a n 0) (\<lambda>found. case found of
        None \<Rightarrow> fail
      | Some k \<Rightarrow> check (load_dev k) (\<lambda>d. check (gets peer_stream) (\<lambda>p.
          stream_queue_writing_socket p (peer_code PEER_HEADER_EVENT) (of_nat sizeof_peer_event)
            (enc_peer_event \<lparr>evt_data = item_event it, evt_random_id = di_random_id (d_info d)\<rparr>)))))"

subsection \<open>Server: uinput devices\<close>

definition ui_ioctl :: "kenv \<Rightarrow> int \<Rightarrow> ui_req \<Rightarrow> (unit, d_context) op" where
  "ui_ioctl E u_fd req =
     check_not (\<not> e_ui E req) (modify (\<lambda>w. w\<lparr>k_ui := k_ui w @ [(u_fd, req)]\<rparr>))"

definition set_udev_bits :: "kenv \<Rightarrow> int \<Rightarrow> (nat \<Rightarrow> ui_req) \<Rightarrow> byte list \<Rightarrow> nat \<Rightarrow> (unit, d_context) op" where
  "set_udev_bits E u_fd set_ioctl bitmap maxbit =
     for_each (\<lambda>i. if has_bit bitmap i then ui_ioctl E u_fd (set_ioctl i) else ret ()) [0..<maxbit]"

text \<open>\<open>"(rcn-virt) "\<close> and the effect of \<open>snprintf\<close> into 160 bytes followed by \<open>strncpy\<close> of 80.\<close>

definition virt_prefix :: "byte list" where
  "virt_prefix = [40, 114, 99, 110, 45, 118, 105, 114, 116, 41, 32]"

definition strncpy :: "nat \<Rightarrow> byte list \<Rightarrow> byte list" where
  "strncpy n src = take n (src @ replicate n 0)"

definition virt_name :: "byte list \<Rightarrow> byte list" where
  "virt_name str = strncpy UINPUT_MAX_NAME_SIZE (take (2 * UINPUT_MAX_NAME_SIZE - 1) (virt_prefix @ str))"

text \<open>
  \<open>b\<close> is the address of the template (the body of the received message), \<open>tmpl\<close> its contents.  The
  name field is rewritten in place; the result, the template with its new name, is what
  \<open>device->info\<close> becomes.
\<close>

definition name_offset :: nat where "name_offset = 114"

definition apply_udev_info :: "kenv \<Rightarrow> int \<Rightarrow> addr \<Rightarrow> device_info \<Rightarrow> (device_info, d_context) op" where
  "apply_udev_info E u_fd b tmpl =
     check (ui_ioctl E u_fd (UI_SET_EVBIT EV_SYN)) (\<lambda>_.
     check (set_udev_bits E u_fd UI_SET_PROPBIT (di_propbit tmpl) INPUT_PROP_MAX) (\<lambda>_.
     check (if has_bit (di_evtbit tmpl) EV_KEY
            then check (ui_ioctl E u_fd (UI_SET_EVBIT EV_KEY))
              (\<lambda>_. set_udev_bits E u_fd UI_SET_KEYBIT (di_keybit tmpl) KEY_MAX) else ret ()) (\<lambda>_.
     check (if has_bit (di_evtbit tmpl) EV_REL
            then check (ui_ioctl E u_fd (UI_SET_EVBIT EV_REL))
              (\<lambda>_. set_udev_bits E u_fd UI_SET_RELBIT (di_relbit tmpl) REL_MAX) else ret ()) (\<lambda>_.
     check (if has_bit (di_evtbit tmpl) EV_ABS
            then check (ui_ioctl E u_fd (UI_SET_EVBIT EV_ABS)) (\<lambda>_.
              for_each (\<lambda>i. if has_bit (di_absbit tmpl) i
                then check (ui_ioctl E u_fd (UI_SET_ABSBIT i))
                  (\<lambda>_. ui_ioctl E u_fd (UI_ABS_SETUP i (di_absinfo tmpl ! i)))
                else ret ()) [0..<ABS_MAX]) else ret ()) (\<lambda>_.
     case c_string (di_name tmpl) of None \<Rightarrow> undef
     | Some str \<Rightarrow>
       check (store_struct b name_offset (virt_name str)) (\<lambda>_.
       check (ui_ioctl E u_fd (UI_DEV_SETUP (di_dev_id tmpl) (virt_name str))) (\<lambda>_.
       check (ui_ioctl E u_fd UI_DEV_CREATE) (\<lambda>_.
         ret (tmpl\<lparr>di_name := virt_name str\<rparr>)))))))))"

text \<open>The log line at the end prints the rewritten name with \<open>%s\<close>.\<close>

definition dev_init_udev :: "kenv \<Rightarrow> addr \<Rightarrow> (unit, d_context) op" where
  "dev_init_udev E b =
     check (got_fd (e_open E RCN_DEV_UINPUT_PATH)) (\<lambda>u_fd.
     on_err
       (check calloc_device (\<lambda>_.
        check (load_struct b sizeof_device_info) (\<lambda>blk.
        check (apply_udev_info E u_fd b (dec_device_info blk)) (\<lambda>info.
        check (e_epoll_add_device u_fd FD_UDEV) (\<lambda>a.
        check (gets m_av) (\<lambda>av.
        check (on_devices (u_array_add av \<lparr>d_info = info, d_stream = a, d_grabbed = False\<rparr>)) (\<lambda>_.
          case c_string (di_name info) of None \<Rightarrow> undef | Some _ \<Rightarrow> ret ())))))))
       (modify (sys_close u_fd)))"

subsection \<open>Server: events\<close>

definition syn_report :: input_event where
  "syn_report = \<lparr>tv_sec = 0, tv_usec = 0, ev_type = of_nat EV_SYN, ev_code = of_nat SYN_REPORT, ev_value = 0\<rparr>"

definition dev_emit_event_msg :: "peer_msg_event \<Rightarrow> (unit, d_context) op" where
  "dev_emit_event_msg m =
     check (dev_find_by_id (evt_random_id m)) (\<lambda>dev. case dev of
        None \<Rightarrow> fail
      | Some k \<Rightarrow> check (load_dev k) (\<lambda>d.
          check (stream_queue_writing_device (d_stream d) (evt_data m)) (\<lambda>_.
            if ev_type (evt_data m) = of_nat EV_REL
            then check (stream_queue_writing_device (d_stream d) syn_report) (\<lambda>_. ret ())
            else ret ())))"

definition key_up :: "nat \<Rightarrow> input_event" where
  "key_up i = \<lparr>tv_sec = 0, tv_usec = 0, ev_type = of_nat EV_KEY, ev_code = of_nat i, ev_value = 0\<rparr>"

definition dev_release_virt_keys :: "nat \<Rightarrow> (unit, d_context) op" where
  "dev_release_virt_keys k =
     check (load_dev k) (\<lambda>d.
       if has_bit (di_evtbit (d_info d)) EV_KEY
       then check (for_each (\<lambda>i. if \<not> has_bit (di_keybit (d_info d)) i then ret ()
                 else stream_queue_writing_device (d_stream d) (key_up i)) [0..<KEY_MAX])
            (\<lambda>_. stream_queue_writing_device (d_stream d) syn_report)
       else ret ())"

definition dev_release_virt_keys_all :: "(unit, d_context) op" where
  "dev_release_virt_keys_all = for_devices dev_release_virt_keys"

subsection \<open>Closing\<close>

text \<open>
  \<open>u_array_find_index(&devices, &stream)\<close> compares \<open>sizeof(struct device)\<close> bytes behind a local
  pointer variable with every device: with at least one device it reads beyond that variable.
\<close>

definition dev_close_dev :: "addr \<Rightarrow> (unit, d_context) op" where
  "dev_close_dev a w =
     (if arr_data (devices w) = None \<or> arr_length (devices w) = 0 then (Fail, w) else (Undef, w))"

primrec close_devices :: "nat \<Rightarrow> (unit, d_context) op" where
  "close_devices 0 = ret ()"
| "close_devices (Suc n) =
     check (gets (\<lambda>w. arr_length (devices w))) (\<lambda>len.
       if len > 0
       then check (on_devices (u_array_getr 0)) (\<lambda>k.
            check (load_dev k) (\<lambda>d.
            check (e_epoll_close_remove_simple (d_stream d)) (\<lambda>_.
            check (on_devices (u_array_remove 0)) (\<lambda>_. close_devices n))))
       else ret ())"

definition dev_close_device_ctx :: "(unit, d_context) op" where
  "dev_close_device_ctx =
     check (gets (\<lambda>w. unat (arr_length (devices w)))) (\<lambda>n.
     check (close_devices n) (\<lambda>_. on_devices u_array_free))"

end
