(* ===== verification/Rcn_Relay.thy ===== *)
theory Rcn_Relay
  imports Rcn_Device
begin

section \<open>Relays (rcn_relay.c)\<close>

text \<open>
  A relay is the short-lived \<open>rcn\<close> process that sends one request to a daemon over its unix socket and
  prints the answer.  The first half of the file is the daemon's side (\<open>r_handler\<close> and the handlers it
  calls), the second half the relay process itself (\<open>relay_start\<close>).
\<close>

subsection \<open>The daemon's side\<close>

definition send_header :: "addr \<Rightarrow> u32 \<Rightarrow> (unit, 'z mem_scheme) op" where
  "send_header a v = stream_queue_writing_socket a v 0 []"

definition r_broadcast_relay_header :: "relay_msg_header \<Rightarrow> (unit, d_context) op" where
  "r_broadcast_relay_header header =
     check (gets (\<lambda>w. unat (arr_length (relay_streams w)))) (\<lambda>n.
       for_each (\<lambda>i. check (on_relays (u_array_getv (of_nat i)))
         (\<lambda>relay_stream. send_header relay_stream (relay_code header))) [0..<n])"

definition r_close_relay :: "addr \<Rightarrow> (unit, d_context) op" where
  "r_close_relay a =
     check (on_relays (u_array_find_index a)) (\<lambda>index. on_relays (u_array_remove index))"

definition set_rcn_state :: "rcn_state \<Rightarrow> (unit, d_context) op" where
  "set_rcn_state st = modify (\<lambda>w. w\<lparr>d_state := st\<rparr>)"

definition relay_handler_start :: "addr \<Rightarrow> (unit, d_context) op" where
  "relay_handler_start a = send_header a (relay_code RELAY_HEADER_START)"

text \<open>What both \<open>handler_pause\<close> and \<open>handler_resume\<close> do to the devices first.\<close>

definition ctrl_by_type :: "kenv \<Rightarrow> device_ctrl \<Rightarrow> (unit, d_context) op" where
  "ctrl_by_type E ctrl =
     check (gets d_type) (\<lambda>ty. case ty of
        DAEMON_CLIENT \<Rightarrow> dev_ctrl_devices E ctrl
      | DAEMON_SERVER \<Rightarrow> dev_release_virt_keys_all)"

definition relay_handler_pause :: "kenv \<Rightarrow> addr \<Rightarrow> (unit, d_context) op" where
  "relay_handler_pause E a =
     check (gets d_state) (\<lambda>st.
       if st = RCN_PAUSED then send_header a (relay_code RELAY_HEADER_PAUSE_AGAIN)
       else check (ctrl_by_type E DEV_CTRL_RELEASE) (\<lambda>_.
         check (gets p_state) (\<lambda>ps.
           if ps = PEER_CONNECTED
           then check (r_broadcast_relay_header RELAY_HEADER_PAUSE) (\<lambda>_.
                check (gets peer_stream) (\<lambda>p.
                check (send_header p (peer_code PEER_HEADER_PAUSE)) (\<lambda>_. set_rcn_state RCN_PAUSED)))
           else r_broadcast_relay_header RELAY_HEADER_NO_PEER)))"

definition relay_handler_resume :: "kenv \<Rightarrow> addr \<Rightarrow> (unit, d_context) op" where
  "relay_handler_resume E a =
     check (gets d_state) (\<lambda>st.
       if st = RCN_RUNNING then send_header a (relay_code RELAY_HEADER_RESUME_AGAIN)
       else check (ctrl_by_type E DEV_CTRL_CAPTURE) (\<lambda>_.
         check (gets peer_stream) (\<lambda>p.
         check (send_header p (peer_code PEER_HEADER_RESUME)) (\<lambda>_. set_rcn_state RCN_RUNNING))))"

definition relay_handler_switch :: "kenv \<Rightarrow> addr \<Rightarrow> (unit, d_context) op" where
  "relay_handler_switch E a =
     check (gets d_state) (\<lambda>st. case st of
        RCN_RUNNING \<Rightarrow> relay_handler_pause E a
      | RCN_PAUSED \<Rightarrow> relay_handler_resume E a)"

definition relay_handler_stop :: "(unit, d_context) op" where
  "relay_handler_stop =
     check (modify (\<lambda>w. w\<lparr>d_exit := True\<rparr>)) (\<lambda>_.
     check (r_broadcast_relay_header RELAY_HEADER_STOP) (\<lambda>_.
     check (gets peer_stream) (\<lambda>p. send_header p (peer_code PEER_HEADER_STOP))))"

text \<open>
  \<open>handler_list\<close> builds an array of \<open>struct relay_data_list\<close> on the side and sends its memory.
\<close>

primrec build_list :: "nat \<Rightarrow> nat \<Rightarrow> relay_data_list u_array \<Rightarrow> (relay_data_list u_array, d_context) op" where
  "build_list 0 i lst = ret lst"
| "build_list (Suc n) i lst =
     check (on_devices (u_array_getr (of_nat i))) (\<lambda>k.
     check (load_dev k) (\<lambda>d.
     check (gets m_av) (\<lambda>av.
       case u_array_add av \<lparr>rl_dev_name = take UINPUT_MAX_NAME_SIZE (di_name (d_info d)), rl_grabbed = d_grabbed d\<rparr> lst of
         (Ok _, lst') \<Rightarrow> build_list n (Suc i) lst' | (Fail, _) \<Rightarrow> fail | (Undef, _) \<Rightarrow> undef)))"

definition empty_list :: "relay_data_list u_array" where
  "empty_list = \<lparr>arr_data = None, arr_size = 0, arr_capacity = 0, arr_length = 0\<rparr>"

definition list_bytes :: "relay_data_list u_array \<Rightarrow> byte list" where
  "list_bytes lst = (case arr_data lst of None \<Rightarrow> []
     | Some cs \<Rightarrow> concat (map (\<lambda>c. case c of Some e \<Rightarrow> enc_relay_entry e | None \<Rightarrow> replicate sizeof_relay_entry 0) cs))"

definition relay_handler_list :: "addr \<Rightarrow> (unit, d_context) op" where
  "relay_handler_list a =
     check (gets (\<lambda>w. arr_length (devices w))) (\<lambda>len.
     check (if len = 0 then ret empty_list
            else check (gets m_av) (\<lambda>av.
              case u_array_init av (of_nat sizeof_relay_entry) len empty_list of
                (Ok _, lst) \<Rightarrow> build_list (unat len) 0 lst | (Fail, _) \<Rightarrow> fail | (Undef, _) \<Rightarrow> undef)) (\<lambda>lst.
       stream_queue_writing_socket a (relay_code RELAY_HEADER_LIST) (arr_length lst * arr_size lst) (list_bytes lst)))"

definition r_handler :: "kenv \<Rightarrow> addr \<Rightarrow> stream_item \<Rightarrow> (unit, d_context) op" where
  "r_handler E a it = (case relay_of_code (h_value (msg_header it)) of
      Some RELAY_HEADER_IDLE \<Rightarrow> ret ()
    | Some RELAY_HEADER_START \<Rightarrow> relay_handler_start a
    | Some RELAY_HEADER_PAUSE \<Rightarrow> relay_handler_pause E a
    | Some RELAY_HEADER_RESUME \<Rightarrow> relay_handler_resume E a
    | Some RELAY_HEADER_STOP \<Rightarrow> relay_handler_stop
    | Some RELAY_HEADER_SWITCH \<Rightarrow> relay_handler_switch E a
    | Some RELAY_HEADER_LIST \<Rightarrow> relay_handler_list a
    | _ \<Rightarrow> fail)"

definition r_init_relay_ctx :: "int \<Rightarrow> (unit, d_context) op" where
  "r_init_relay_ctx fd =
     check (modify (\<lambda>w. w\<lparr>usock_fd := fd\<rparr>)) (\<lambda>_.
     check (gets m_av) (\<lambda>av.
     check (on_relays (u_array_init av sizeof_ptr rcn_std_capacity)) (\<lambda>_.
       e_epoll_add fd FD_USOCK)))"

text \<open>
  The loop of \<open>r_close_relay_ctx\<close> passes the address of an array slot (\<open>u_array_getr\<close>) where a stream
  pointer is expected, so its body is undefined; it runs only while relays are connected.
\<close>

definition r_close_relay_ctx :: "(unit, d_context) op" where
  "r_close_relay_ctx =
     check (gets (\<lambda>w. arr_length (relay_streams w))) (\<lambda>len.
       if len > 0 then check (on_relays (u_array_getr 0)) (\<lambda>_. undef)
       else on_relays u_array_free)"

subsection \<open>The relay process\<close>

text \<open>\<open>sizeof\<close> of a string literal counts its terminator.\<close>

definition RCN_SERVER_USOCKET_PATH :: string where "RCN_SERVER_USOCKET_PATH = ''/tmp/rcn/server.sock''"
definition RCN_SERVER_USOCKET_LEN :: nat where "RCN_SERVER_USOCKET_LEN = Suc (length RCN_SERVER_USOCKET_PATH)"
definition RCN_CLIENT_USOCKET_PATH :: string where "RCN_CLIENT_USOCKET_PATH = ''/tmp/rcn/client.sock''"
definition RCN_CLIENT_USOCKET_LEN :: nat where "RCN_CLIENT_USOCKET_LEN = Suc (length RCN_CLIENT_USOCKET_PATH)"

lemmas usocket_defs = RCN_SERVER_USOCKET_PATH_def RCN_SERVER_USOCKET_LEN_def RCN_CLIENT_USOCKET_PATH_def RCN_CLIENT_USOCKET_LEN_def

record sock_info =
  sock_path :: string
  path_len :: nat

definition init_sockinfo :: "daemon_type \<Rightarrow> sock_info" where
  "init_sockinfo ty = (case ty of
      DAEMON_SERVER \<Rightarrow> \<lparr>sock_path = RCN_SERVER_USOCKET_PATH, path_len = RCN_SERVER_USOCKET_LEN\<rparr>
    | DAEMON_CLIENT \<Rightarrow> \<lparr>sock_path = RCN_CLIENT_USOCKET_PATH, path_len = RCN_CLIENT_USOCKET_LEN\<rparr>)"

definition DAEMON_STATUS_OK :: u64 where "DAEMON_STATUS_OK = 2 ^ 63 - 1"
definition ETIMEDOUT :: u64 where "ETIMEDOUT = 110"

datatype start_status = Started | Not_started u64 | Status_error

text \<open>
  \<open>check_daemon_status\<close>: \<open>flags_ok\<close> and \<open>poll_ok\<close> are the answers of \<open>fcntl\<close> and \<open>poll\<close>, \<open>status\<close> what
  was read from the event descriptor (0 when the poll timed out).  \<open>Not_started e\<close> prints error \<open>e\<close>.
\<close>

definition check_daemon_status :: "bool \<Rightarrow> bool \<Rightarrow> u64 \<Rightarrow> start_status" where
  "check_daemon_status flags_ok poll_ok status =
     (if \<not> flags_ok \<or> \<not> poll_ok then Status_error
      else if status \<noteq> DAEMON_STATUS_OK then Not_started (if status = 0 then ETIMEDOUT else status)
      else Started)"

definition relay_text :: "relay_msg_header \<Rightarrow> string" where
  "relay_text header = (case header of
      RELAY_HEADER_IDLE \<Rightarrow> ''''
    | RELAY_HEADER_START \<Rightarrow> ''started''
    | RELAY_HEADER_PAUSE \<Rightarrow> ''paused''
    | RELAY_HEADER_PAUSE_AGAIN \<Rightarrow> ''already paused''
    | RELAY_HEADER_RESUME \<Rightarrow> ''resumed''
    | RELAY_HEADER_RESUME_AGAIN \<Rightarrow> ''already resumed''
    | RELAY_HEADER_STOP \<Rightarrow> ''stopped''
    | RELAY_HEADER_NO_PEER \<Rightarrow> ''no peer connected''
    | _ \<Rightarrow> '''')"

text \<open>What a relay prints: a text, that there is no device, or device lines (name, grabbed).\<close>

datatype relay_output = Out_text string | Out_no_devices | Out_devices "(byte list \<times> bool) list"

text \<open>
  The loop of \<open>request_list\<close> increments \<open>i\<close> in its header and again in its body.  \<open>rounds\<close> bounds the
  recursion; \<open>length\<close> rounds are more than enough.  The name is printed up to the end of its field; a
  name without a terminator, on which \<open>printf\<close> would read on, is outside the model (a client's daemon never
  has one, see \<open>device_info_typed\<close>).
\<close>

primrec list_lines :: "nat \<Rightarrow> nat \<Rightarrow> nat \<Rightarrow> byte list \<Rightarrow> (byte list \<times> bool) list" where
  "list_lines 0 i n bs = []"
| "list_lines (Suc rounds) i n bs =
     (if i < n
      then (takeWhile (\<lambda>b. b \<noteq> 0) (field (sizeof_relay_entry * i) UINPUT_MAX_NAME_SIZE bs),
            bs ! (sizeof_relay_entry * i + UINPUT_MAX_NAME_SIZE) \<noteq> 0) # list_lines rounds (i + 2) n bs
      else [])"

definition request_list :: "u64 \<Rightarrow> byte list \<Rightarrow> relay_output" where
  "request_list sz bs =
     (if sz = 0 then Out_no_devices
      else let n = unat sz div sizeof_relay_entry in Out_devices (list_lines n 0 n bs))"

text \<open>\<open>None\<close> is the \<open>-1\<close> for a header that is no answer.\<close>

definition handle_request :: "u32 \<Rightarrow> u64 \<Rightarrow> byte list \<Rightarrow> relay_output option" where
  "handle_request value sz bs = (case relay_of_code value of
      Some RELAY_HEADER_START \<Rightarrow> Some (Out_text (relay_text RELAY_HEADER_START))
    | Some RELAY_HEADER_PAUSE \<Rightarrow> Some (Out_text (relay_text RELAY_HEADER_PAUSE))
    | Some RELAY_HEADER_PAUSE_AGAIN \<Rightarrow> Some (Out_text (relay_text RELAY_HEADER_PAUSE_AGAIN))
    | Some RELAY_HEADER_RESUME \<Rightarrow> Some (Out_text (relay_text RELAY_HEADER_RESUME))
    | Some RELAY_HEADER_RESUME_AGAIN \<Rightarrow> Some (Out_text (relay_text RELAY_HEADER_RESUME_AGAIN))
    | Some RELAY_HEADER_NO_PEER \<Rightarrow> Some (Out_text (relay_text RELAY_HEADER_NO_PEER))
    | Some RELAY_HEADER_STOP \<Rightarrow> Some (Out_text (relay_text RELAY_HEADER_STOP))
    | Some RELAY_HEADER_LIST \<Rightarrow> Some (request_list sz bs)
    | _ \<Rightarrow> None)"

text \<open>\<open>u_close_connection\<close> (rcn_util.c): half-close, discard what still arrives, close.
  The list holds all answers of \<open>read\<close> until the input has ended; a peer that never closes its end
  has no such list.\<close>

primrec discard_input :: "io_ans list \<Rightarrow> int \<Rightarrow> (unit, 'z mem_scheme) op" where
  "discard_input [] fd = ret ()"
| "discard_input (ans # rest) fd = (case ans of
      Io n \<Rightarrow> check (gets (\<lambda>w. take (min n 64) (k_in w fd))) (\<lambda>bs.
        if bs = [] then ret ()
        else check (modify (\<lambda>w. w\<lparr>k_in := (k_in w)(fd := drop (length bs) (k_in w fd))\<rparr>))
          (\<lambda>_. discard_input rest fd))
    | Io_again \<Rightarrow> ret () | Io_nodev \<Rightarrow> fail | Io_error \<Rightarrow> fail)"

definition u_close_connection :: "bool \<Rightarrow> io_ans list \<Rightarrow> int \<Rightarrow> (unit, 'z mem_scheme) op" where
  "u_close_connection half_closed answers fd =
     on_err (check_not (\<not> half_closed) (check (discard_input answers fd) (\<lambda>_. modify (sys_close fd))))
       (modify (sys_close fd))"

definition stream_shutdown :: "bool \<Rightarrow> io_ans list \<Rightarrow> addr \<Rightarrow> (unit, 'z mem_scheme) op" where
  "stream_shutdown half_closed answers a =
     check (deref a) (\<lambda>s.
     check (u_close_connection half_closed answers (s_fd s)) (\<lambda>_. stream_close a))"

text \<open>
  \<open>relay_start\<close> from the connected socket \<open>fd\<close> on: send the request header (\<open>sent\<close>: the blocking
  \<open>write\<close> succeeds), initialise the stream on the stack at \<open>a\<close>, wait for one message with the
  kernel's answers \<open>xs\<close>, print it, shut down (\<open>fin\<close>: the answers during that).  \<open>None\<close>: the answers are used up and the process still
  waits.  When the shutdown fails, so does the process; that the answer had been printed by then is not part of
  the result.
\<close>

definition relay_session ::
  "relay_msg_header \<Rightarrow> int \<Rightarrow> bool \<Rightarrow> io_ans list \<Rightarrow> bool \<times> io_ans list \<Rightarrow> addr \<Rightarrow>
   (relay_output option, 'z mem_scheme) op" where
  "relay_session header fd sent xs fin a =
     check_not (\<not> sent)
     (check (modify (\<lambda>w. w\<lparr>k_out := (k_out w)(fd := k_out w fd @
        enc_header \<lparr>h_size = 0, h_value = relay_code header\<rparr>)\<rparr>)) (\<lambda>_.
      check (stream_init a fd FD_RELAY) (\<lambda>_.
      check (relay_wait xs a) (\<lambda>complete. if \<not> complete then ret None else
      check (stream_collect a) (\<lambda>_.
      check (deref a) (\<lambda>s. let it = s_fallback s; hdr = msg_header it in
      check (if h_size hdr = 0 then ret [] else load_struct (msg_buffer it) (unat (h_size hdr))) (\<lambda>body.
        case handle_request (h_value hdr) (h_size hdr) body of
          None \<Rightarrow> fail
        | Some out \<Rightarrow> check (stream_shutdown (fst fin) (snd fin) a) (\<lambda>_. ret (Some out)))))))))"

text \<open>\<open>relay_start\<close>: \<open>status\<close> is what \<open>check_daemon_status\<close> found, \<open>conn\<close> the socket \<open>connect_usock\<close> gave.\<close>

record relay_arg =
  header_sent :: relay_msg_header
  ra_d_type :: daemon_type
  check_status :: bool

definition relay_start ::
  "relay_arg \<Rightarrow> start_status \<Rightarrow> (sock_info \<Rightarrow> int option) \<Rightarrow> bool \<Rightarrow> io_ans list \<Rightarrow>
   bool \<times> io_ans list \<Rightarrow> addr \<Rightarrow> (relay_output option, 'z mem_scheme) op" where
  "relay_start arg status conn sent xs fin a =
     check_not (check_status arg \<and> status \<noteq> Started)
     (case conn (init_sockinfo (ra_d_type arg)) of
        None \<Rightarrow> fail
      | Some fd \<Rightarrow> relay_session (header_sent arg) fd sent xs fin a)"

end
