(* ===== verification/Rcn_Peer.thy ===== *)
theory Rcn_Peer
  imports Rcn_Relay
begin

section \<open>The other daemon (rcn_peer.c)\<close>

text \<open>
  Client and server exchange peer messages over one TCP connection.  The bodies are structs copied
  byte for byte; the handlers use them through the pointer \<open>payload.msg.buffer\<close> without looking at
  the announced size.
\<close>

definition peer_handler_dev_crt :: "kenv \<Rightarrow> stream_item \<Rightarrow> (unit, d_context) op" where
  "peer_handler_dev_crt E it = dev_init_udev E (msg_buffer it)"

text \<open>The members used are the first nine bytes of the struct; \<open>dev\<close> is dereferenced without a test.\<close>

definition peer_handler_dev_upd_grab :: "stream_item \<Rightarrow> (unit, d_context) op" where
  "peer_handler_dev_upd_grab it =
     check (load_struct (msg_buffer it) 9) (\<lambda>bs. let m = dec_upd_grab bs in
     check (dev_find_by_id (upd_random_id m)) (\<lambda>dev. case dev of
        None \<Rightarrow> undef
      | Some k \<Rightarrow> check (load_dev k) (\<lambda>d. store_dev k (d\<lparr>d_grabbed := upd_grab m\<rparr>))))"

definition peer_handler_event :: "stream_item \<Rightarrow> (unit, d_context) op" where
  "peer_handler_event it =
     check (load_struct (msg_buffer it) sizeof_peer_event) (\<lambda>bs. dev_emit_event_msg (dec_peer_event bs))"

definition peer_handler_pause :: "kenv \<Rightarrow> (unit, d_context) op" where
  "peer_handler_pause E =
     check (ctrl_by_type E DEV_CTRL_RELEASE) (\<lambda>_.
     check (r_broadcast_relay_header RELAY_HEADER_PAUSE) (\<lambda>_. set_rcn_state RCN_PAUSED))"

definition peer_handler_resume :: "kenv \<Rightarrow> (unit, d_context) op" where
  "peer_handler_resume E =
     check (ctrl_by_type E DEV_CTRL_CAPTURE) (\<lambda>_.
     check (r_broadcast_relay_header RELAY_HEADER_RESUME) (\<lambda>_. set_rcn_state RCN_RUNNING))"

definition p_init_peer_ctx :: "int \<Rightarrow> int \<Rightarrow> daemon_type \<Rightarrow> (unit, d_context) op" where
  "p_init_peer_ctx fd port ty =
     check (modify (\<lambda>w. w\<lparr>isock_port := port\<rparr>)) (\<lambda>_.
     case ty of
       DAEMON_SERVER \<Rightarrow>
         check (modify (\<lambda>w. w\<lparr>peer_stream := 0\<rparr>)) (\<lambda>_.
         check (e_epoll_add_getr fd FD_ISOCK) (\<lambda>a.
         check (modify (\<lambda>w. w\<lparr>isock_stream := a\<rparr>)) (\<lambda>_.
         check (stream_set_default a STREAM_OP_READING STREAM_TYPE_SOCKET) (\<lambda>_.
           modify (\<lambda>w. w\<lparr>p_state := PEER_DISCONNECTED\<rparr>)))))
     | DAEMON_CLIENT \<Rightarrow>
         check (modify (\<lambda>w. w\<lparr>isock_stream := 0\<rparr>)) (\<lambda>_.
         check (e_epoll_add_getr fd FD_PEER) (\<lambda>a.
         check (modify (\<lambda>w. w\<lparr>peer_stream := a\<rparr>)) (\<lambda>_.
         check (stream_set_default a STREAM_OP_READING STREAM_TYPE_SOCKET) (\<lambda>_.
           modify (\<lambda>w. w\<lparr>p_state := PEER_CONNECTED\<rparr>))))))"

text \<open>A stand-in for the null \<open>devices_arg\<close> of a server, which is never looked at.\<close>

definition no_paths :: "string u_array" where
  "no_paths = \<lparr>arr_data = None, arr_size = 0, arr_capacity = 0, arr_length = 0\<rparr>"

definition peer_handler_stop :: "kenv \<Rightarrow> (unit, d_context) op" where
  "peer_handler_stop E =
     check (gets d_type) (\<lambda>ty. case ty of
       DAEMON_SERVER \<Rightarrow>
         check dev_close_device_ctx (\<lambda>_.
         check (dev_init_device_ctx E no_paths DAEMON_SERVER) (\<lambda>_.
         check (got_fd (e_inet E)) (\<lambda>fd.
         check (gets isock_stream) (\<lambda>a.
         check (on_stream a (modify (\<lambda>s. s\<lparr>s_fd := fd\<rparr>))) (\<lambda>_.
         check (deref a) (\<lambda>s.
         check (gets isock_port) (\<lambda>port.
         check (p_init_peer_ctx (s_fd s) port DAEMON_SERVER) (\<lambda>_. set_rcn_state RCN_RUNNING))))))))
     | DAEMON_CLIENT \<Rightarrow>
         check (modify (\<lambda>w. w\<lparr>d_exit := True\<rparr>)) (\<lambda>_. r_broadcast_relay_header RELAY_HEADER_STOP))"

definition p_handler :: "kenv \<Rightarrow> addr \<Rightarrow> stream_item \<Rightarrow> (unit, d_context) op" where
  "p_handler E a it = (case peer_of_code (h_value (msg_header it)) of
      Some PEER_HEADER_DEV_CRT \<Rightarrow> peer_handler_dev_crt E it
    | Some PEER_HEADER_DEV_UPD_GRAB \<Rightarrow> peer_handler_dev_upd_grab it
    | Some PEER_HEADER_EVENT \<Rightarrow> peer_handler_event it
    | Some PEER_HEADER_PAUSE \<Rightarrow> peer_handler_pause E
    | Some PEER_HEADER_RESUME \<Rightarrow> peer_handler_resume E
    | Some PEER_HEADER_STOP \<Rightarrow> peer_handler_stop E
    | None \<Rightarrow> fail)"

definition p_close_peer_ctx :: "(unit, d_context) op" where
  "p_close_peer_ctx =
     check (gets peer_stream) (\<lambda>p. check (gets p_state) (\<lambda>st.
       if p \<noteq> 0 \<and> st \<noteq> PEER_DISCONNECTED
       then check (modify (\<lambda>w. w\<lparr>p_state := PEER_DISCONNECTED\<rparr>)) (\<lambda>_. e_epoll_close_remove_simple p)
       else ret ()))"

definition p_close_peer :: "(unit, d_context) op" where
  "p_close_peer = modify (\<lambda>w. w\<lparr>p_state := PEER_DISCONNECTED\<rparr>)"

end
