(* ===== verification/Rcn_Daemon.thy ===== *)
theory Rcn_Daemon
  imports Rcn_Peer
begin

section \<open>The daemon (rcn_daemon.c)\<close>

text \<open>
  The daemon's loop waits for events, transfers on every ready stream (\<open>dispatch_epoll\<close>), then runs
  the handler of every item that is complete (\<open>resolve_fd_streams\<close>).  An event is the pointer
  \<open>epoll_wait\<close> hands back together with the kernel's answers while it is served.
\<close>

type_synonym event = "addr \<times> kenv \<times> io_ans"

definition accept_isock :: "kenv \<Rightarrow> addr \<Rightarrow> (unit, d_context) op" where
  "accept_isock E a =
     check (deref a) (\<lambda>_.
     check (got_fd (e_accept E)) (\<lambda>sock_fd.
     check_not (\<not> e_setup E)
     (check (e_epoll_add_getr sock_fd FD_PEER) (\<lambda>p.
      check (modify (\<lambda>w. w\<lparr>peer_stream := p\<rparr>)) (\<lambda>_.
      check (e_epoll_close_remove_simple a) (\<lambda>_.
        modify (\<lambda>w. w\<lparr>p_state := PEER_CONNECTED\<rparr>)))))))"

definition accept_usock :: "kenv \<Rightarrow> addr \<Rightarrow> (unit, d_context) op" where
  "accept_usock E a =
     check (deref a) (\<lambda>_.
     check (got_fd (e_accept E)) (\<lambda>sock_fd.
     check_not (\<not> e_setup E)
     (check (e_epoll_add_getr sock_fd FD_RELAY) (\<lambda>r.
      check (gets m_av) (\<lambda>av. on_relays (u_array_add av r))))))"

definition can_exit :: "d_context \<Rightarrow> bool" where
  "can_exit w = (if d_exit w = False then False
     else if arr_length (relay_streams w) > 0 then False else True)"

definition dispatch_event :: "event \<Rightarrow> (unit, d_context) op" where
  "dispatch_event ev = (case ev of (a, E, ans) \<Rightarrow>
     check (deref a) (\<lambda>s. case s_fd_type s of
        FD_USOCK \<Rightarrow> accept_usock E a
      | FD_ISOCK \<Rightarrow> accept_isock E a
      | FD_PEER \<Rightarrow> stream_stream a ans
      | FD_RELAY \<Rightarrow> stream_stream a ans
      | FD_DEV \<Rightarrow> stream_stream a ans
      | FD_UDEV \<Rightarrow> stream_stream a ans))"

definition dispatch_epoll :: "event list \<Rightarrow> (unit, d_context) op" where
  "dispatch_epoll evs = for_each dispatch_event evs"

text \<open>\<open>e_epoll_close_remove\<close> (rcn_epoll.c): the results of the three calls are dropped.\<close>

definition e_epoll_close_remove :: "addr \<Rightarrow> (unit, d_context) op" where
  "e_epoll_close_remove a =
     check (deref a) (\<lambda>s. case s_fd_type s of
        FD_RELAY \<Rightarrow> ignore (r_close_relay a) (e_epoll_close_remove_simple a)
      | FD_DEV \<Rightarrow> ignore (dev_close_dev a) (e_epoll_close_remove_simple a)
      | FD_PEER \<Rightarrow> ignore p_close_peer (e_epoll_close_remove_simple a)
      | _ \<Rightarrow> fail)"

text \<open>\<open>Some True\<close>: go on with the next event; \<open>Some False\<close>: \<open>return 0\<close>.\<close>

definition resolve_event :: "event \<Rightarrow> (bool, d_context) op" where
  "resolve_event ev = (case ev of (a, E, _) \<Rightarrow>
     check (deref a) (\<lambda>s.
     check (load_next a) (\<lambda>it.
       if i_state it = STREAM_STREAMING_CLOSED
       then check (e_epoll_close_remove a) (\<lambda>_. ret True)
       else if i_state it \<noteq> STREAM_STREAMING_COMPLETE then ret True
       else check (stream_collect a) (\<lambda>_.
         check (deref a) (\<lambda>s. let it = s_fallback s in
           if i_op it \<noteq> s_default_op s then check (e_epoll_reset_stream a) (\<lambda>_. ret True)
           else case s_fd_type s of
             FD_PEER \<Rightarrow> check (p_handler E a it) (\<lambda>_. check (e_epoll_reset_stream a) (\<lambda>_. ret True))
           | FD_RELAY \<Rightarrow> check (r_handler E a it) (\<lambda>_. check (e_epoll_reset_stream a) (\<lambda>_. ret True))
           | FD_DEV \<Rightarrow> check (dev_handler a it) (\<lambda>_. check (e_epoll_reset_stream a) (\<lambda>_. ret True))
           | FD_UDEV \<Rightarrow> check (e_epoll_reset_stream a) (\<lambda>_. ret True)
           | FD_ISOCK \<Rightarrow> ret False
           | FD_USOCK \<Rightarrow> ret False)))))"

primrec resolve_fd_streams :: "event list \<Rightarrow> (unit, d_context) op" where
  "resolve_fd_streams [] = ret ()"
| "resolve_fd_streams (ev # evs) =
     check (resolve_event ev) (\<lambda>go. if go then resolve_fd_streams evs else ret ())"

text \<open>One round of \<open>d_loop\<close>; \<open>None\<close> means that \<open>epoll_wait\<close> failed.\<close>

definition d_round :: "event list option \<Rightarrow> (unit, d_context) op" where
  "d_round evs = (case evs of
      None \<Rightarrow> fail
    | Some es \<Rightarrow> check (dispatch_epoll es) (\<lambda>_. resolve_fd_streams es))"

text \<open>
  \<open>d_loop\<close> over the rounds the environment provides.  \<open>True\<close>: the loop has ended; \<open>False\<close>: the rounds
  are used up and the daemon waits in \<open>epoll_wait\<close>.
\<close>

primrec d_loop :: "event list option list \<Rightarrow> (bool, d_context) op" where
  "d_loop [] = check (gets can_exit) ret"
| "d_loop (evs # rest) =
     check (gets can_exit) (\<lambda>done. if done then ret True
       else check (d_round evs) (\<lambda>_. d_loop rest))"

text \<open>\<open>unlinked\<close>: the answer of \<open>unlink\<close>.\<close>

definition cleanup :: "bool \<Rightarrow> (unit, d_context) op" where
  "cleanup unlinked =
     check r_close_relay_ctx (\<lambda>_.
     check p_close_peer_ctx (\<lambda>_.
     check dev_close_device_ctx (\<lambda>_.
     check e_close_epoll_ctx (\<lambda>_. check_not (\<not> unlinked) (ret ())))))"

text \<open>
  \<open>d_init\<close>: \<open>prepared\<close> sums up the calls before the contexts exist (process name, session, directory,
  log, permissions).  The context starts with all bytes zero.  The result of the first part is
  written to the event descriptor as the status; then the loop and the clean-up run.
\<close>

record daemon_arg =
  da_port :: int
  da_host :: "string option"
  da_devices :: "string u_array"
  da_type :: daemon_type

definition d_setup ::
  "daemon_arg \<Rightarrow> bool \<Rightarrow> bool \<Rightarrow> int option \<Rightarrow> int option \<Rightarrow> kenv \<Rightarrow> (unit, d_context) op" where
  "d_setup arg prepared created net usock E =
     check_not (\<not> prepared)
     (check (modify (\<lambda>w. w\<lparr>d_type := da_type arg\<rparr>)) (\<lambda>_.
      check (e_init_epoll_ctx created) (\<lambda>_.
      check (got_fd net) (\<lambda>net_fd.
      check (p_init_peer_ctx net_fd (da_port arg) (da_type arg)) (\<lambda>_.
      check (got_fd usock) (\<lambda>usock_fd.
      check (r_init_relay_ctx usock_fd) (\<lambda>_.
        dev_init_device_ctx E (da_devices arg) (da_type arg))))))))"

definition d_init ::
  "daemon_arg \<Rightarrow> bool \<Rightarrow> bool \<Rightarrow> int option \<Rightarrow> int option \<Rightarrow> kenv \<Rightarrow> event list option list \<Rightarrow> bool \<Rightarrow>
   (bool, d_context) op" where
  "d_init arg prepared created net usock E rounds unlinked =
     check (d_setup arg prepared created net usock E) (\<lambda>_.
     check (d_loop rounds) (\<lambda>done.
       if done then check (cleanup unlinked) (\<lambda>_. ret True) else ret False))"

end
