(* ===== verification/Rcn_Handlers.thy ===== *)
theory Rcn_Handlers
  imports Rcn_Daemon
begin

section \<open>What the handlers post\<close>

text \<open>
  The context a handler may rely on (\<open>ctx_ok\<close>, \<open>server_ok\<close>), and for the building blocks of the
  handlers the entries they post: key releases, emitted events, forwarded events, headers and
  broadcasts; and which device a random id selects.
\<close>

abbreviation devs :: "d_context \<Rightarrow> device list" where "devs w \<equiv> elems (devices w)"
abbreviation relays :: "d_context \<Rightarrow> addr list" where "relays w \<equiv> elems (relay_streams w)"

subsection \<open>The context between handlers\<close>

text \<open>What every handler relies on: well-formed memory and tables, and a live, registered stream
  behind every relay.\<close>

definition ctx_ok :: "d_context \<Rightarrow> bool" where
  "ctx_ok w \<longleftrightarrow> mem_ok w \<and> arr_inv (devices w) \<and> arr_inv (relay_streams w) \<and>
     (\<forall>r \<in> set (relays w). connected r w)"

text \<open>On a server every device is a uinput device with a registered stream.\<close>

definition server_ok :: "d_context \<Rightarrow> bool" where
  "server_ok w \<longleftrightarrow> ctx_ok w \<and> (\<forall>d \<in> set (devs w). connected (d_stream d) w)"

lemma same_base_ctx:
  assumes "same_base (w :: d_context) w'"
  shows "devices w' = devices w" "relay_streams w' = relay_streams w" "peer_stream w' = peer_stream w"
    "isock_stream w' = isock_stream w" "isock_port w' = isock_port w" "p_state w' = p_state w"
    "d_state w' = d_state w" "d_type w' = d_type w" "d_exit w' = d_exit w" "k_ui w' = k_ui w"
    "k_grab w' = k_grab w" "stream_ptrs w' = stream_ptrs w" "usock_fd w' = usock_fd w"
  using assms by (cases w; cases w'; simp add: same_base_def)+

lemma ctx_ok_step: "ctx_ok w \<Longrightarrow> same_base w w' \<Longrightarrow> mem_ok w' \<Longrightarrow> ctx_ok w'"
  by (simp add: ctx_ok_def same_base_ctx same_base_connected)

lemma server_ok_step: "server_ok w \<Longrightarrow> same_base w w' \<Longrightarrow> mem_ok w' \<Longrightarrow> server_ok w'"
  using ctx_ok_step[of w w'] by (simp add: server_ok_def same_base_ctx same_base_connected)

lemma server_okD: "server_ok w \<Longrightarrow> ctx_ok w" "server_ok w \<Longrightarrow> d \<in> set (devs w) \<Longrightarrow> connected (d_stream d) w"
  by (simp_all add: server_ok_def)

lemma ctx_okD:
  "ctx_ok w \<Longrightarrow> mem_ok w" "ctx_ok w \<Longrightarrow> arr_inv (devices w)" "ctx_ok w \<Longrightarrow> arr_inv (relay_streams w)"
  "ctx_ok w \<Longrightarrow> a \<in> set (relays w) \<Longrightarrow> connected a w"
  by (simp_all add: ctx_ok_def)

subsection \<open>Access to the device table\<close>

lemma load_dev_ok: "arr_inv (devices w) \<Longrightarrow> k < length (devs w) \<Longrightarrow> load_dev k w = (Ok (devs w ! k), w)"
  using nth_elems[of "devices w" k] length_elems[of "devices w"]
  by (auto simp: load_dev_def elim!: arr_invE)

lemma getr_dev_ok: "arr_inv (devices w) \<Longrightarrow> k < length (devs w) \<Longrightarrow>
    on_devices (u_array_getr (of_nat k)) w = (Ok k, w)"
  by (simp add: zoom_def u_array_getr_spec index_fits)

lemma for_devices_sends:
  assumes ok: "ctx_ok w"
    and step: "\<And>k w'. k < length (devs w) \<Longrightarrow> ctx_ok w' \<Longrightarrow> same_base w w' \<Longrightarrow> sends (g k) (f k) w'"
  shows "sends (concat (map g [0..<length (devs w)])) (for_devices f) w"
  unfolding for_devices_def
proof (rule sends_check_gets)
  have len: "unat (arr_length (devices w)) = length (devs w)" using length_elems ctx_okD(2)[OF ok] by metis
  show "sends (concat (map g [0..<length (devs w)]))
      (for_each (\<lambda>i. check (on_devices (u_array_getr (of_nat i))) f) [0..<unat (arr_length (devices w))]) w"
    unfolding len
  proof (rule sends_for_each)
    fix i w' assume i: "i \<in> set [0..<length (devs w)]" and w': "mem_ok w'" "same_base w w'"
    then have "ctx_ok w'" using ctx_ok_step[OF ok] by blast
    moreover have "on_devices (u_array_getr (of_nat i)) w' = (Ok i, w')"
      using i ctx_okD(2)[OF \<open>ctx_ok w'\<close>] by (intro getr_dev_ok) (simp_all add: same_base_ctx[OF w'(2)])
    ultimately show "sends (g i) (check (on_devices (u_array_getr (of_nat i))) f) w'"
      using step[of i w'] i w'(2) by (simp add: sends_def check_def)
  qed (rule ctx_okD(1)[OF ok])
qed

subsection \<open>Releasing keys\<close>

lemma for_each_filter_not: "for_each (\<lambda>x. if \<not> P x then ret () else f x) xs = for_each f (filter P xs)"
  by (induction xs) simp_all


definition release_events :: "device_info \<Rightarrow> input_event list" where
  "release_events info = (if has_bit (di_evtbit info) EV_KEY
     then map key_up (filter (has_bit (di_keybit info)) [0..<KEY_MAX]) @ [syn_report] else [])"

lemma sends_events:
  assumes "mem_ok w" "connected a w"
  shows "sends (map (\<lambda>e. (a, Evt e)) es) (for_each (stream_queue_writing_device a) es) w"
proof -
  have "sends (concat (map (\<lambda>e. [(a, Evt e)]) es)) (for_each (stream_queue_writing_device a) es) w"
    by (rule sends_for_each[OF assms(1)]) (use assms(2) in \<open>auto intro!: sends_device simp: same_base_connected\<close>)
  then show ?thesis by (simp add: concat_map_singleton)
qed

lemma release_keys_sends:
  assumes sok: "server_ok w" and k: "k < length (devs w)"
  shows "sends (map (\<lambda>e. (d_stream (devs w ! k), Evt e)) (release_events (d_info (devs w ! k)))) (dev_release_virt_keys k) w"
proof -
  let ?d = "devs w ! k"
  note ok = server_okD(1)[OF sok]
  have body: "(if has_bit (di_evtbit (d_info ?d)) EV_KEY
       then check (for_each (\<lambda>i. if \<not> has_bit (di_keybit (d_info ?d)) i then ret ()
                 else stream_queue_writing_device (d_stream ?d) (key_up i)) [0..<KEY_MAX])
            (\<lambda>_. stream_queue_writing_device (d_stream ?d) syn_report)
       else ret ()) = for_each (stream_queue_writing_device (d_stream ?d)) (release_events (d_info ?d))"
    by (simp add: release_events_def for_each_append for_each_map for_each_filter_not)
  have eq: "dev_release_virt_keys k w = for_each (stream_queue_writing_device (d_stream ?d)) (release_events (d_info ?d)) w"
    using load_dev_ok[OF ctx_okD(2)[OF ok] k]
    unfolding dev_release_virt_keys_def check_def[of "load_dev k"] by (simp add: body)
  show ?thesis unfolding sends_def eq
    using sends_events[OF ctx_okD(1)[OF ok] server_okD(2)[OF sok nth_mem[OF k]]]
    by (simp add: sends_def)
qed

definition release_posts :: "device list \<Rightarrow> (addr \<times> out_entry) list" where
  "release_posts ds = concat (map (\<lambda>d. map (\<lambda>e. (d_stream d, Evt e)) (release_events (d_info d))) ds)"

lemma release_all_sends:
  assumes sok: "server_ok w"
  shows "sends (release_posts (devs w)) dev_release_virt_keys_all w"
proof -
  let ?g = "\<lambda>k. map (\<lambda>e. (d_stream (devs w ! k), Evt e)) (release_events (d_info (devs w ! k)))"
  have "sends (concat (map ?g [0..<length (devs w)])) dev_release_virt_keys_all w"
    unfolding dev_release_virt_keys_all_def
  proof (rule for_devices_sends[OF server_okD(1)[OF sok]])
    fix k w' assume k: "k < length (devs w)" and w': "ctx_ok w'" "same_base w w'"
    have "server_ok w'" using server_ok_step[OF sok w'(2)] ctx_okD(1)[OF w'(1)] .
    then show "sends (?g k) (dev_release_virt_keys k) w'"
      using release_keys_sends[of w' k] k w'(2) by (simp add: same_base_ctx)
  qed
  moreover have "map ?g [0..<length (devs w)] = map (\<lambda>d. map (\<lambda>e. (d_stream d, Evt e)) (release_events (d_info d))) (devs w)"
    by (rule nth_equalityI) simp_all
  ultimately show ?thesis by (simp add: release_posts_def)
qed

subsection \<open>Finding a device\<close>

lemma takeWhile_shorter: "\<exists>x \<in> set xs. Q x \<Longrightarrow> length (takeWhile (\<lambda>x. \<not> Q x) xs) < length xs"
  by (induction xs) auto

text \<open>The index \<open>dev_find_by_id\<close> stops at: the first match, or the last device.\<close>

definition id_index :: "u64 \<Rightarrow> device list \<Rightarrow> nat" where
  "id_index random_id ds = min (length (takeWhile (\<lambda>d. di_random_id (d_info d) \<noteq> random_id) ds)) (length ds - 1)"

lemma find_dev_spec:
  assumes "arr_inv (devices w)" and "i + n = length (devs w)"
  shows "find_dev random_id n i out w = (Ok (if n = 0 then out else Some (i + id_index random_id (drop i (devs w)))), w)"
  using assms(2)
proof (induction n arbitrary: i out)
  case 0
  then show ?case by (simp add: ret_def)
next
  case (Suc n)
  then have i: "i < length (devs w)" by simp
  have drop: "drop i (devs w) = devs w ! i # drop (Suc i) (devs w)" using i by (simp add: Cons_nth_drop_Suc)
  have "find_dev random_id (Suc n) i out w = (if di_random_id (d_info (devs w ! i)) = random_id then (Ok (Some i), w)
      else find_dev random_id n (Suc i) (Some i) w)"
    using getr_dev_ok[OF assms(1) i] load_dev_ok[OF assms(1) i] by (simp add: check_def ret_def)
  also have "\<dots> = (Ok (Some (i + id_index random_id (drop i (devs w)))), w)"
  proof (cases "di_random_id (d_info (devs w ! i)) = random_id")
    case True
    then show ?thesis by (simp add: drop id_index_def)
  next
    case False
    have "find_dev random_id n (Suc i) (Some i) w =
        (Ok (if n = 0 then Some i else Some (Suc i + id_index random_id (drop (Suc i) (devs w)))), w)"
      by (rule Suc.IH) (use Suc.prems in simp)
    moreover have "drop (Suc i) (devs w) = [] \<longleftrightarrow> n = 0" using Suc.prems by auto
    ultimately show ?thesis using False by (auto simp: drop id_index_def min_def)
  qed
  finally show ?case by simp
qed

lemma dev_find_by_id_spec:
  assumes "arr_inv (devices w)"
  shows "dev_find_by_id random_id w = (Ok (if devs w = [] then None else Some (id_index random_id (devs w))), w)"
  using find_dev_spec[OF assms, of 0 "length (devs w)"] length_elems[OF assms, symmetric]
  by (simp add: dev_find_by_id_def check_def gets_def)

lemma id_index_less: "ds \<noteq> [] \<Longrightarrow> id_index random_id ds < length ds"
  by (cases ds) (auto simp: id_index_def min_def)

lemma id_index_found:
  assumes "d \<in> set ds" "di_random_id (d_info d) = random_id"
  shows "di_random_id (d_info (ds ! id_index random_id ds)) = random_id"
proof -
  let ?P = "\<lambda>d. di_random_id (d_info d) \<noteq> random_id"
  have "length (takeWhile ?P ds) < length ds" using assms by (induction ds) auto
  moreover from this have "\<not> ?P (ds ! length (takeWhile ?P ds))" by (rule nth_length_takeWhile)
  moreover from calculation(1) have "min (length (takeWhile ?P ds)) (length ds - 1) = length (takeWhile ?P ds)" by simp
  ultimately show ?thesis unfolding id_index_def by simp
qed

lemma id_index_missing:
  assumes "\<forall>d \<in> set ds. di_random_id (d_info d) \<noteq> random_id"
  shows "id_index random_id ds = length ds - 1"
proof -
  have "takeWhile (\<lambda>d. di_random_id (d_info d) \<noteq> random_id) ds = ds"
    using assms by (simp add: takeWhile_eq_all_conv)
  from arg_cong[OF this, of length] show ?thesis by (simp add: id_index_def)
qed

subsection \<open>Events\<close>

definition emit_posts :: "device list \<Rightarrow> peer_msg_event \<Rightarrow> (addr \<times> out_entry) list" where
  "emit_posts ds m = (let a = d_stream (ds ! id_index (evt_random_id m) ds) in
     (a, Evt (evt_data m)) # (if ev_type (evt_data m) = of_nat EV_REL then [(a, Evt syn_report)] else []))"

lemma emit_event_sends:
  assumes "server_ok w" "devs w \<noteq> []"
  shows "sends (emit_posts (devs w) m) (dev_emit_event_msg m) w"
proof -
  let ?k = "id_index (evt_random_id m) (devs w)"
  let ?a = "d_stream (devs w ! ?k)"
  note ok = server_okD(1)[OF assms(1)]
  have k: "?k < length (devs w)" by (rule id_index_less[OF assms(2)])
  have con: "connected ?a w" using server_okD(2)[OF assms(1)] k by simp
  have "dev_emit_event_msg m w = check (stream_queue_writing_device ?a (evt_data m)) (\<lambda>_.
      if ev_type (evt_data m) = of_nat EV_REL then stream_queue_writing_device ?a syn_report else ret ()) w"
    using dev_find_by_id_spec[OF ctx_okD(2)[OF ok]] load_dev_ok[OF ctx_okD(2)[OF ok] k] assms(2)
    by (simp add: dev_emit_event_msg_def check_def[of "dev_find_by_id _"] check_def[of "load_dev _"])
  moreover have "sends ([(?a, Evt (evt_data m))] @ (if ev_type (evt_data m) = of_nat EV_REL then [(?a, Evt syn_report)] else []))
      (check (stream_queue_writing_device ?a (evt_data m)) (\<lambda>_.
        if ev_type (evt_data m) = of_nat EV_REL then stream_queue_writing_device ?a syn_report else ret ())) w"
    by (rule sends_check) (use con ctx_okD(1)[OF ok] in \<open>auto intro!: sends_intros simp: postedD\<close>)
  ultimately show ?thesis by (simp add: sends_def emit_posts_def Let_def)
qed

text \<open>The device that reads from stream \<open>a\<close>.\<close>

lemma find_stream_spec:
  assumes "arr_inv (devices w)" and "i + n = length (devs w)"
  shows "find_stream a n i w =
    (Ok (if \<exists>d \<in> set (drop i (devs w)). d_stream d = a
         then Some (i + length (takeWhile (\<lambda>d. d_stream d \<noteq> a) (drop i (devs w)))) else None), w)"
  using assms(2)
proof (induction n arbitrary: i)
  case 0
  then show ?case by (simp add: ret_def)
next
  case (Suc n)
  then have i: "i < length (devs w)" by simp
  have drop: "drop i (devs w) = devs w ! i # drop (Suc i) (devs w)" using i by (simp add: Cons_nth_drop_Suc)
  have "find_stream a (Suc n) i w = (if d_stream (devs w ! i) \<noteq> a then find_stream a n (Suc i) w else (Ok (Some i), w))"
    using getr_dev_ok[OF assms(1) i] load_dev_ok[OF assms(1) i] by (simp add: check_def ret_def)
  with Suc.IH[of "Suc i"] Suc.prems show ?case by (auto simp: drop)
qed

definition device_of :: "addr \<Rightarrow> device list \<Rightarrow> device option" where
  "device_of a ds = find (\<lambda>d. d_stream d = a) ds"

lemma device_of_nth:
  "\<exists>d \<in> set ds. d_stream d = a \<Longrightarrow> device_of a ds = Some (ds ! length (takeWhile (\<lambda>d. d_stream d \<noteq> a) ds))"
  by (induction ds) (auto simp: device_of_def)

lemma dev_handler_eq:
  assumes "arr_inv (devices w)"
  shows "dev_handler a it w = (case device_of a (devs w) of
      None \<Rightarrow> (Fail, w)
    | Some d \<Rightarrow> stream_queue_writing_socket (peer_stream w) (peer_code PEER_HEADER_EVENT) (of_nat sizeof_peer_event)
        (enc_peer_event \<lparr>evt_data = item_event it, evt_random_id = di_random_id (d_info d)\<rparr>) w)"
proof -
  note find = find_stream_spec[OF assms, of 0 "length (devs w)" a, simplified]
  have len: "unat (arr_length (devices w)) = length (devs w)" using length_elems[OF assms] by simp
  show ?thesis
  proof (cases "\<exists>d \<in> set (devs w). d_stream d = a")
    case True
    let ?k = "length (takeWhile (\<lambda>d. d_stream d \<noteq> a) (devs w))"
    have "?k < length (devs w)" using takeWhile_shorter[of "devs w" "\<lambda>d. d_stream d = a"] True by simp
    then have "load_dev ?k w = (Ok (devs w ! ?k), w)" by (rule load_dev_ok[OF assms])
    then show ?thesis using True find device_of_nth[OF True] len
      by (simp add: dev_handler_def check_def gets_def)
  next
    case False
    then have "device_of a (devs w) = None" by (simp add: device_of_def find_None_iff)
    then show ?thesis using False find len by (simp add: dev_handler_def check_def gets_def fail_def)
  qed
qed

lemma dev_handler_sends:
  assumes "ctx_ok w" "connected (peer_stream w) w" "device_of a (devs w) = Some d"
  shows "sends [(peer_stream w, Msg (peer_code PEER_HEADER_EVENT)
      (enc_peer_event \<lparr>evt_data = item_event it, evt_random_id = di_random_id (d_info d)\<rparr>))] (dev_handler a it) w"
proof -
  let ?m = "enc_peer_event \<lparr>evt_data = item_event it, evt_random_id = di_random_id (d_info d)\<rparr>"
  have "sends [(peer_stream w, Msg (peer_code PEER_HEADER_EVENT) (take (unat (of_nat sizeof_peer_event :: u64)) ?m))]
      (stream_queue_writing_socket (peer_stream w) (peer_code PEER_HEADER_EVENT) (of_nat sizeof_peer_event) ?m) w"
    using assms by (intro sends_socket) (auto dest: ctx_okD simp: sizeof_peer_event_def)
  moreover have "take (unat (of_nat sizeof_peer_event :: u64)) ?m = ?m" by (simp add: sizeof_peer_event_def)
  ultimately show ?thesis using dev_handler_eq[OF ctx_okD(2)[OF assms(1)], of a it] assms(3) by (simp add: sends_def)
qed

subsection \<open>Headers and broadcasts\<close>

lemma send_header_sends:
  assumes "mem_ok w" "connected a w"
  shows "sends [(a, Msg v [])] (send_header a v) w"
  using sends_socket[OF assms, of 0 "[]" v] by (simp add: send_header_def)

lemma getv_relay_ok:
  "arr_inv (relay_streams w) \<Longrightarrow> i < length (relays w) \<Longrightarrow>
    on_relays (u_array_getv (of_nat i)) w = (Ok (relays w ! i), w)"
  by (simp add: zoom_def u_array_getv_spec index_fits)

lemma broadcast_sends:
  assumes ok: "ctx_ok w"
  shows "sends (map (\<lambda>r. (r, Msg (relay_code h) [])) (relays w)) (r_broadcast_relay_header h) w"
  unfolding r_broadcast_relay_header_def
proof (rule sends_check_gets)
  let ?g = "\<lambda>i. [(relays w ! i, Msg (relay_code h) [])]"
  let ?f = "\<lambda>i. check (on_relays (u_array_getv (of_nat i))) (\<lambda>r. send_header r (relay_code h))"
  have len: "unat (arr_length (relay_streams w)) = length (relays w)" using length_elems ctx_okD(3)[OF ok] by metis
  have "sends (concat (map ?g [0..<length (relays w)])) (for_each ?f [0..<length (relays w)]) w"
  proof (rule sends_for_each)
    fix i w' assume i: "i \<in> set [0..<length (relays w)]" and w': "mem_ok w'" "same_base w w'"
    have rs: "relay_streams w' = relay_streams w" by (rule same_base_ctx[OF w'(2)])
    have "connected (relays w ! i) w'" using i ctx_okD(4)[OF ok] same_base_connected[OF w'(2)] by auto
    from send_header_sends[OF w'(1) this] show "sends (?g i) (?f i) w'"
      using getv_relay_ok[of w' i] i ctx_okD(3)[OF ok] by (simp add: rs sends_def check_def)
  qed (rule ctx_okD(1)[OF ok])
  moreover have "concat (map ?g [0..<length (relays w)]) = map (\<lambda>r. (r, Msg (relay_code h) [])) (relays w)"
  proof -
    have "map ?g [0..<length (relays w)] = map (\<lambda>r. [(r, Msg (relay_code h) [])]) (relays w)"
      by (rule nth_equalityI) simp_all
    then show ?thesis by (simp add: concat_map_singleton)
  qed
  ultimately show "sends (map (\<lambda>r. (r, Msg (relay_code h) [])) (relays w)) (for_each ?f [0..<unat (arr_length (relay_streams w))]) w"
    using len by simp
qed
end
