(* ===== verification/Rcn_Control.thy ===== *)
theory Rcn_Control
  imports Rcn_Handlers
begin

section \<open>Requests to the daemon\<close>

text \<open>
  The handlers of relay requests on a server as a whole: what they post to which stream, in which
  order, and how they change the daemon's state; and the list of devices from the daemon's table to
  the lines the relay prints.
\<close>

subsection \<open>Posting, then changing the state\<close>

text \<open>\<open>replies ps upd m w\<close>: \<open>m\<close> is never undefined; when it returns it has posted exactly \<open>ps\<close> and
  then applied \<open>upd\<close>; when it fails it has posted a first part of \<open>ps\<close>, and may or may not have applied \<open>upd\<close>.\<close>

definition replies ::
  "(addr \<times> out_entry) list \<Rightarrow> ('z mem_scheme \<Rightarrow> 'z mem_scheme) \<Rightarrow> (unit, 'z mem_scheme) op \<Rightarrow> 'z mem_scheme \<Rightarrow> bool" where
  "replies ps upd m w \<longleftrightarrow> (case m w of
      (Ok _, w') \<Rightarrow> \<exists>v. posted w v ps \<and> w' = upd v
    | (Fail, w') \<Rightarrow> \<exists>n v. posted w v (take n ps) \<and> (w' = v \<or> w' = upd v)
    | (Undef, _) \<Rightarrow> False)"

lemma replies_sends: "sends ps m w \<Longrightarrow> replies ps id m w"
  by (cases "m w") (auto simp: sends_def replies_def split: res.splits)

lemma repliesD:
  assumes "replies ps upd m w" "m w = (r, w')"
  shows "r \<noteq> Undef" "r = Ok () \<Longrightarrow> \<exists>v. posted w v ps \<and> w' = upd v" "r = Fail \<Longrightarrow> \<exists>n v. posted w v (take n ps) \<and> (w' = v \<or> w' = upd v)"
  using assms by (auto simp: replies_def)

lemma replies_safe: "replies ps upd m w \<Longrightarrow> fst (m w) \<noteq> Undef"
  by (cases "m w") (auto dest: repliesD)

lemma replies_modify: "mem_ok w \<Longrightarrow> replies [] f (modify f) w"
  by (auto simp: replies_def modify_def intro: posted_refl)

lemma replies_check_gets: "replies ps upd (k (f w)) w \<Longrightarrow> replies ps upd (check (gets f) k) w"
  by (simp add: replies_def check_def gets_def)

lemma replies_check:
  assumes first: "sends ps m w" and rest: "\<And>w'. posted w w' ps \<Longrightarrow> replies qs upd (k ()) w'"
  shows "replies (ps @ qs) upd (check m k) w"
proof -
  obtain r w1 where r: "m w = (r, w1)" by fastforce
  show ?thesis
  proof (cases r)
    case (Ok u)
    then have p: "posted w w1 ps" using sendsD(2)[OF first r] by simp
    obtain r2 w2 where r2: "k () w1 = (r2, w2)" by fastforce
    note law = repliesD[OF rest[OF p] r2]
    have eq: "check m k w = (r2, w2)" using r r2 Ok by (simp add: check_def)
    show ?thesis
    proof (cases r2)
      case (Ok u2)
      then obtain v where "posted w1 v qs" "w2 = upd v" using law(2) by auto
      then show ?thesis using posted_trans[OF p] Ok by (auto simp: replies_def eq)
    next
      case Fail
      then obtain n v where v: "posted w1 v (take n qs)" "w2 = v \<or> w2 = upd v" using law(3) by auto
      from posted_trans[OF p v(1)] have "posted w v (take (length ps + n) (ps @ qs))" by simp
      then have "\<exists>n v. posted w v (take n (ps @ qs)) \<and> (w2 = v \<or> w2 = upd v)" using v(2) by blast
      then show ?thesis using Fail by (simp add: replies_def eq del: take_append)
    qed (use law(1) in simp)
  next
    case Fail
    with sendsD(3)[OF first r] obtain n where n: "posted w w1 (take n ps)" by blast
    have "posted w w1 (take (min n (length ps)) (ps @ qs))" using n by (cases "n \<le> length ps") (simp_all add: min_def)
    then have "\<exists>n v. posted w v (take n (ps @ qs)) \<and> (w1 = v \<or> w1 = upd v)" by blast
    then show ?thesis using Fail r by (simp add: replies_def check_def del: take_append)
  qed (use sendsD(1)[OF first r] in simp)
qed

lemma replies_last: "replies (ps @ []) upd m w \<Longrightarrow> replies ps upd m w"
  by simp

lemma replies_step:
  "same_base w w' \<Longrightarrow> server_ok w \<Longrightarrow> mem_ok w' \<Longrightarrow> server_ok w' \<and> devs w' = devs w \<and> relays w' = relays w \<and>
    peer_stream w' = peer_stream w \<and> p_state w' = p_state w \<and> d_state w' = d_state w \<and>
    (connected a w' \<longleftrightarrow> connected a w)"
  using server_ok_step[of w w'] by (simp add: same_base_ctx same_base_connected)

subsection \<open>Requests of a relay on a server\<close>

definition broadcast_posts :: "relay_msg_header \<Rightarrow> d_context \<Rightarrow> (addr \<times> out_entry) list" where
  "broadcast_posts h w = map (\<lambda>r. (r, Msg (relay_code h) [])) (relays w)"

definition peer_post :: "peer_msg_header \<Rightarrow> d_context \<Rightarrow> (addr \<times> out_entry) list" where
  "peer_post h w = [(peer_stream w, Msg (peer_code h) [])]"

lemma broadcast_replies:
  assumes "server_ok w" shows "replies (broadcast_posts h w) id (r_broadcast_relay_header h) w"
  using replies_sends[OF broadcast_sends[OF server_okD(1)[OF assms]]] by (simp add: broadcast_posts_def)

lemma broadcast_then:
  assumes "server_ok w" and "\<And>w'. posted w w' (broadcast_posts h w) \<Longrightarrow> replies qs upd (k ()) w'"
  shows "replies (broadcast_posts h w @ qs) upd (check (r_broadcast_relay_header h) k) w"
  by (rule replies_check) (use broadcast_sends[OF server_okD(1)[OF assms(1)]] assms(2) in \<open>auto simp: broadcast_posts_def\<close>)

lemma peer_then:
  assumes "server_ok w" "connected (peer_stream w) w" and "\<And>w'. posted w w' (peer_post h w) \<Longrightarrow> replies qs upd (k ()) w'"
  shows "replies (peer_post h w @ qs) upd
    (check (gets peer_stream) (\<lambda>p. check (send_header p (peer_code h)) k)) w"
  by (rule replies_check_gets, rule replies_check)
    (use send_header_sends[OF ctx_okD(1)[OF server_okD(1)[OF assms(1)]] assms(2)] assms(3) in \<open>auto simp: peer_post_def\<close>)

lemma release_then:
  assumes "server_ok w" "d_type w = DAEMON_SERVER" and "\<And>w'. posted w w' (release_posts (devs w)) \<Longrightarrow> replies qs upd (k ()) w'"
  shows "replies (release_posts (devs w) @ qs) upd (check (ctrl_by_type E ctrl) k) w"
proof -
  have "ctrl_by_type E ctrl w = dev_release_virt_keys_all w"
    using assms(2) by (simp add: ctrl_by_type_def check_def gets_def)
  then have "sends (release_posts (devs w)) (ctrl_by_type E ctrl) w"
    using release_all_sends[OF assms(1)] by (simp add: sends_def)
  then show ?thesis by (rule replies_check) (rule assms(3))
qed

lemma set_state_replies: "mem_ok w \<Longrightarrow> replies [] (\<lambda>w. w\<lparr>d_state := st\<rparr>) (set_rcn_state st) w"
  unfolding set_rcn_state_def by (rule replies_modify)

lemma replies_cong:
  assumes "replies ps upd m w" "\<And>v. same_base w v \<Longrightarrow> upd' v = upd v"
  shows "replies ps upd' m w"
proof -
  have same: "upd' v = upd v" if "posted w v qs" for v qs using assms(2) postedD(2)[OF that] by blast
  show ?thesis using assms(1) same unfolding replies_def by (auto split: res.splits) metis+
qed

lemma send_replies: "mem_ok w \<Longrightarrow> connected a w \<Longrightarrow> replies [(a, Msg v [])] id (send_header a v) w"
  by (rule replies_sends[OF send_header_sends])

lemma pause_server:
  assumes ok: "server_ok w" "connected a w" and ty: "d_type w = DAEMON_SERVER"
    and peer: "p_state w = PEER_CONNECTED \<Longrightarrow> connected (peer_stream w) w" and run: "d_state w = RCN_RUNNING"
  shows "replies (release_posts (devs w) @ (if p_state w = PEER_CONNECTED
       then broadcast_posts RELAY_HEADER_PAUSE w @ peer_post PEER_HEADER_PAUSE w @ []
       else broadcast_posts RELAY_HEADER_NO_PEER w))
     (if p_state w = PEER_CONNECTED then (\<lambda>v. v\<lparr>d_state := RCN_PAUSED\<rparr>) else id) (relay_handler_pause E a) w"
  unfolding relay_handler_pause_def
proof (rule replies_check_gets, simp only: run rcn_state.distinct if_False, rule release_then[OF ok(1) ty], rule replies_check_gets)
  fix w1 assume p: "posted w w1 (release_posts (devs w))"
  note s1 = replies_step[OF postedD(2)[OF p] ok(1) postedD(1)[OF p]]
  have b1: "broadcast_posts h w1 = broadcast_posts h w" "peer_post k w1 = peer_post k w" for h k
    using s1 by (simp_all add: broadcast_posts_def peer_post_def)
  show "replies (if p_state w = PEER_CONNECTED
       then broadcast_posts RELAY_HEADER_PAUSE w @ peer_post PEER_HEADER_PAUSE w @ []
       else broadcast_posts RELAY_HEADER_NO_PEER w)
     (if p_state w = PEER_CONNECTED then (\<lambda>v. v\<lparr>d_state := RCN_PAUSED\<rparr>) else id)
     (if p_state w1 = PEER_CONNECTED
      then check (r_broadcast_relay_header RELAY_HEADER_PAUSE) (\<lambda>_. check (gets peer_stream)
          (\<lambda>p. check (send_header p (peer_code PEER_HEADER_PAUSE)) (\<lambda>_. set_rcn_state RCN_PAUSED)))
      else r_broadcast_relay_header RELAY_HEADER_NO_PEER) w1"
  proof (cases "p_state w = PEER_CONNECTED")
    case True
    have "replies (broadcast_posts RELAY_HEADER_PAUSE w1 @ peer_post PEER_HEADER_PAUSE w1 @ []) (\<lambda>v. v\<lparr>d_state := RCN_PAUSED\<rparr>)
      (check (r_broadcast_relay_header RELAY_HEADER_PAUSE) (\<lambda>_. check (gets peer_stream)
          (\<lambda>p. check (send_header p (peer_code PEER_HEADER_PAUSE)) (\<lambda>_. set_rcn_state RCN_PAUSED)))) w1"
    proof (rule broadcast_then)
      fix w2 assume p2: "posted w1 w2 (broadcast_posts RELAY_HEADER_PAUSE w1)"
      note s2 = replies_step[OF postedD(2)[OF p2] _ postedD(1)[OF p2]]
      have "peer_post PEER_HEADER_PAUSE w1 = peer_post PEER_HEADER_PAUSE w2" using s1 s2 by (simp add: peer_post_def)
      moreover have "replies (peer_post PEER_HEADER_PAUSE w2 @ []) (\<lambda>v. v\<lparr>d_state := RCN_PAUSED\<rparr>)
          (check (gets peer_stream) (\<lambda>p. check (send_header p (peer_code PEER_HEADER_PAUSE)) (\<lambda>_. set_rcn_state RCN_PAUSED))) w2"
        by (rule peer_then) (use s1 s2 peer True in \<open>auto intro: set_state_replies dest: postedD simp: postedD(4)[OF p] postedD(4)[OF p2]\<close>)
      ultimately show "replies (peer_post PEER_HEADER_PAUSE w1 @ []) (\<lambda>v. v\<lparr>d_state := RCN_PAUSED\<rparr>)
          (check (gets peer_stream) (\<lambda>p. check (send_header p (peer_code PEER_HEADER_PAUSE)) (\<lambda>_. set_rcn_state RCN_PAUSED))) w2" by simp
    qed (use s1 in simp)
    then show ?thesis using True s1 by (simp add: b1)
  next
    case False
    then show ?thesis using broadcast_replies[of w1] s1 b1 by simp
  qed
qed

lemma resume_server:
  assumes ok: "server_ok w" and ty: "d_type w = DAEMON_SERVER"
    and peer: "connected (peer_stream w) w" and st: "d_state w = RCN_PAUSED"
  shows "replies (release_posts (devs w) @ peer_post PEER_HEADER_RESUME w @ []) (\<lambda>v. v\<lparr>d_state := RCN_RUNNING\<rparr>)
    (relay_handler_resume E a) w"
  unfolding relay_handler_resume_def
proof (rule replies_check_gets, simp only: st rcn_state.distinct if_False, rule release_then[OF ok ty])
  fix w1 assume p: "posted w w1 (release_posts (devs w))"
  note s1 = replies_step[OF postedD(2)[OF p] ok postedD(1)[OF p]]
  have eq: "peer_post PEER_HEADER_RESUME w = peer_post PEER_HEADER_RESUME w1" using s1 by (simp add: peer_post_def)
  show "replies (peer_post PEER_HEADER_RESUME w @ []) (\<lambda>v. v\<lparr>d_state := RCN_RUNNING\<rparr>) (check (gets peer_stream)
          (\<lambda>p. check (send_header p (peer_code PEER_HEADER_RESUME)) (\<lambda>_. set_rcn_state RCN_RUNNING))) w1"
    unfolding eq
    by (rule peer_then) (use s1 peer in \<open>auto intro: set_state_replies dest: postedD simp: postedD(4)[OF p]\<close>)
qed

lemma server_ok_exit: "server_ok (w\<lparr>d_exit := e\<rparr>) = server_ok w"
  by (simp add: server_ok_def ctx_ok_def connected_def mem_ok_def heap_ok_def)

lemma exit_frame:
  "outbox b (w\<lparr>d_exit := e\<rparr>) = outbox b w" "mem_ok (w\<lparr>d_exit := e\<rparr>) = mem_ok w"
  by (simp_all add: outbox_def mem_ok_def heap_ok_def cong: option.case_cong)

lemma same_base_exit: "same_base (w\<lparr>d_exit := e\<rparr>) w' \<Longrightarrow> same_base w (w'\<lparr>d_exit := d_exit w\<rparr>)"
  unfolding same_base_def by (cases w; cases w') auto

lemma stop_server:
  assumes ok: "server_ok w" and peer: "connected (peer_stream w) w"
  shows "replies (broadcast_posts RELAY_HEADER_STOP w @ peer_post PEER_HEADER_STOP w) (\<lambda>v. v\<lparr>d_exit := True\<rparr>) relay_handler_stop w"
proof -
  let ?w = "w\<lparr>d_exit := True\<rparr>"
  let ?m = "check (r_broadcast_relay_header RELAY_HEADER_STOP) (\<lambda>_.
     check (gets peer_stream) (\<lambda>p. send_header p (peer_code PEER_HEADER_STOP)))"
  have ok': "server_ok ?w" using ok server_ok_exit[of True w] by simp
  have eq: "peer_post h w = peer_post h ?w" "broadcast_posts k w = broadcast_posts k ?w" for h k
    by (simp_all add: peer_post_def broadcast_posts_def)
  have "replies (broadcast_posts RELAY_HEADER_STOP ?w @ peer_post PEER_HEADER_STOP ?w) id ?m ?w"
  proof (rule broadcast_then[OF ok'])
    fix w1 assume p: "posted ?w w1 (broadcast_posts RELAY_HEADER_STOP ?w)"
    note s1 = replies_step[OF postedD(2)[OF p] ok' postedD(1)[OF p]]
    have "connected (peer_stream w1) w1" using s1 peer by (simp add: postedD(4)[OF p]) (simp add: connected_def)
    then show "replies (peer_post PEER_HEADER_STOP ?w) id (check (gets peer_stream) (\<lambda>p. send_header p (peer_code PEER_HEADER_STOP))) w1"
      using s1 send_replies[OF postedD(1)[OF p]] by (intro replies_check_gets) (simp add: peer_post_def)
  qed
  then have r: "replies (broadcast_posts RELAY_HEADER_STOP w @ peer_post PEER_HEADER_STOP w) id ?m ?w" unfolding eq .
  have undo: "\<exists>v. posted w v ps \<and> w' = v\<lparr>d_exit := True\<rparr>" if "posted ?w w' ps" for w' ps
  proof -
    have e: "d_exit w' = True" using same_base_ctx(9)[OF postedD(2)[OF that]] by simp
    have "posted w (w'\<lparr>d_exit := d_exit w\<rparr>) ps" using that same_base_exit[of True w w']
      by (simp add: posted_def exit_frame)
    then show ?thesis using e by (intro exI[of _ "w'\<lparr>d_exit := d_exit w\<rparr>"]) simp
  qed
  have "relay_handler_stop w = ?m ?w" by (simp add: relay_handler_stop_def check_def[of "modify _"] modify_def)
  then show ?thesis using r undo unfolding replies_def by (fastforce split: res.splits)
qed

subsection \<open>The list of devices\<close>

definition dev_entry :: "device \<Rightarrow> relay_data_list" where
  "dev_entry d = \<lparr>rl_dev_name = take UINPUT_MAX_NAME_SIZE (di_name (d_info d)), rl_grabbed = d_grabbed d\<rparr>"

definition list_body :: "device list \<Rightarrow> byte list" where
  "list_body ds = concat (map (\<lambda>d. enc_relay_entry (dev_entry d)) ds)"

lemma build_list_spec:
  assumes ok: "arr_inv (devices w)" and n: "i + n = length (devs w)"
    and lst: "arr_inv lst" "arr_size lst = of_nat sizeof_relay_entry"
  shows "build_list n i lst w = (Fail, w) \<or> (\<exists>lst'. build_list n i lst w = (Ok lst', w) \<and> arr_inv lst' \<and>
    arr_size lst' = of_nat sizeof_relay_entry \<and> elems lst' = elems lst @ map dev_entry (drop i (devs w)))"
  using n lst
proof (induction n arbitrary: i lst)
  case 0
  then show ?case by (simp add: ret_def)
next
  case (Suc n)
  then have i: "i < length (devs w)" by simp
  let ?x = "dev_entry (devs w ! i)"
  obtain q lst' where q: "u_array_add (m_av w) ?x lst = (q, lst')" by fastforce
  have eq: "build_list (Suc n) i lst w = (case q of Ok _ \<Rightarrow> build_list n (Suc i) lst' w | Fail \<Rightarrow> (Fail, w) | Undef \<Rightarrow> (Undef, w))"
    using getr_dev_ok[OF ok i] load_dev_ok[OF ok i] q
    by (simp add: check_def gets_def dev_entry_def fail_def undef_def split: res.split)
  note law = u_array_add_spec[OF Suc.prems(2) q]
  show ?case
  proof (cases "q = Ok ()")
    case True
    have "build_list n (Suc i) lst' w = (Fail, w) \<or> (\<exists>l. build_list n (Suc i) lst' w = (Ok l, w) \<and> arr_inv l \<and>
        arr_size l = of_nat sizeof_relay_entry \<and> elems l = elems lst' @ map dev_entry (drop (Suc i) (devs w)))"
      using Suc.prems(1,3) law u_array_add_size[OF Suc.prems(2) q[unfolded True]] by (intro Suc.IH) auto
    moreover have "elems lst' @ map dev_entry (drop (Suc i) (devs w)) = elems lst @ map dev_entry (drop i (devs w))"
      using law True i by (simp flip: Cons_nth_drop_Suc)
    ultimately show ?thesis unfolding eq True by simp
  next
    case False
    then show ?thesis using law eq by auto
  qed
qed

lemma length_dev_entry: "info_wf (d_info d) \<Longrightarrow> length (enc_relay_entry (dev_entry d)) = sizeof_relay_entry"
  by (simp add: enc_relay_entry_def dev_entry_def enc_bool_def info_wf_def sizeof_relay_entry_def dev_consts)

lemma length_list_body: "\<forall>d \<in> set ds. info_wf (d_info d) \<Longrightarrow> length (list_body ds) = length ds * sizeof_relay_entry"
  unfolding list_body_def by (subst length_concat_fixed[where n=sizeof_relay_entry]) (simp_all add: length_dev_entry)

lemma list_bytes_front:
  assumes "arr_inv lst" "elems lst = map dev_entry ds" "arr_size lst = of_nat sizeof_relay_entry" "\<forall>d \<in> set ds. info_wf (d_info d)"
  shows "unat (arr_length lst * arr_size lst) = length ds * sizeof_relay_entry"
    and "\<exists>rest. list_bytes lst = list_body ds @ rest"
proof -
  from assms(1) obtain cs where cs: "arr_data lst = Some cs" "length cs = unat (arr_capacity lst)"
    "unat (arr_length lst) \<le> unat (arr_capacity lst)" "unat (arr_capacity lst) * unat (arr_size lst) < 2 ^ 63"
    "\<forall>k < unat (arr_length lst). cs ! k \<noteq> None"
    by (auto simp: arr_inv_def split: option.splits)
  then have some: "\<forall>c \<in> set (take (unat (arr_length lst)) cs). c \<noteq> None"
    by (auto simp: in_set_conv_nth)
  have len: "unat (arr_length lst) = length ds" using length_elems[OF assms(1)] assms(2) by simp
  have "unat (arr_length lst) * unat (arr_size lst) < 2 ^ 63"
    using cs(3,4) by (meson le_less_trans mult_le_mono1)
  then show "unat (arr_length lst * arr_size lst) = length ds * sizeof_relay_entry"
    using len assms(3) by (subst unat_mult_small) (simp_all add: sizeof_relay_entry_def)
  let ?enc = "\<lambda>c. case c of Some e \<Rightarrow> enc_relay_entry e | None \<Rightarrow> replicate sizeof_relay_entry 0"
  have front: "map the (take (length ds) cs) = map dev_entry ds"
    using assms(2) cs(1) len by (simp add: elems_def)
  have "map ?enc (take (length ds) cs) = map enc_relay_entry (map the (take (length ds) cs))"
    using some len by (auto split: option.splits)
  then have eq: "concat (map ?enc (take (length ds) cs)) = list_body ds"
    by (simp only: front list_body_def map_map comp_def)
  have "list_bytes lst = concat (map ?enc (take (length ds) cs @ drop (length ds) cs))"
    using cs(1) by (simp add: list_bytes_def)
  then have "list_bytes lst = list_body ds @ concat (map ?enc (drop (length ds) cs))"
    by (simp only: map_append concat_append eq)
  then show "\<exists>rest. list_bytes lst = list_body ds @ rest" by blast
qed

lemma list_sends:
  assumes ok: "ctx_ok w" and con: "connected a w" and wf: "\<forall>d \<in> set (devs w). info_wf (d_info d)"
  shows "sends [(a, Msg (relay_code RELAY_HEADER_LIST) (list_body (devs w)))] (relay_handler_list a) w"
proof -
  note arr = ctx_okD(2)[OF ok]
  let ?send = "\<lambda>lst. stream_queue_writing_socket a (relay_code RELAY_HEADER_LIST) (arr_length lst * arr_size lst) (list_bytes lst)"
  have "posted w w (take 0 ps)" for ps using posted_refl[OF ctx_okD(1)[OF ok]] by simp
  then have unchanged: "\<exists>n. posted w w (take n ps)" for ps by blast
  show ?thesis
  proof (cases "arr_length (devices w) = 0")
    case True
    then have "devs w = []" using length_elems[OF arr] by simp
    then have "list_body (devs w) = []" by (simp add: list_body_def)
    moreover have "relay_handler_list a w = ?send empty_list w"
      using True by (simp add: relay_handler_list_def check_def gets_def ret_def)
    ultimately show ?thesis
      using sends_socket[OF ctx_okD(1)[OF ok] con, of 0 "[]" "relay_code RELAY_HEADER_LIST"]
      by (simp add: sends_def empty_list_def list_bytes_def)
  next
    case False
    obtain q lst where q: "u_array_init (m_av w) (of_nat sizeof_relay_entry) (arr_length (devices w)) empty_list = (q, lst)" by fastforce
    let ?n = "length (devs w)"
    have n: "unat (arr_length (devices w)) = ?n" using length_elems[OF arr] by simp
    have eq: "relay_handler_list a w = check (case q of Ok _ \<Rightarrow> build_list ?n 0 lst | Fail \<Rightarrow> fail | Undef \<Rightarrow> undef) ?send w"
      unfolding n[symmetric] using False q by (simp add: relay_handler_list_def check_def gets_def)
    note law = u_array_init_spec[OF q]
    show ?thesis
    proof (cases "q = Ok ()")
      case True
      then have lst: "arr_inv lst" "elems lst = []" using law by auto
      have sz: "arr_size lst = of_nat sizeof_relay_entry"
        using q True by (auto simp: u_array_init_def Let_def split: if_splits)
      from build_list_spec[OF arr _ lst(1) sz, of 0 ?n] lst(2)
      consider "build_list ?n 0 lst w = (Fail, w)"
        | l where "build_list ?n 0 lst w = (Ok l, w)" "arr_inv l" "arr_size l = of_nat sizeof_relay_entry"
            "elems l = map dev_entry (devs w)" by auto
      then show ?thesis
      proof cases
        case 1
        then have "relay_handler_list a w = (Fail, w)" by (simp add: eq True check_def)
        show ?thesis unfolding sends_def \<open>relay_handler_list a w = (Fail, w)\<close> prod.case res.case by (rule unchanged)
      next
        case 2
        note front = list_bytes_front[OF 2(2,4,3) wf]
        from front(2) obtain rest where rest: "list_bytes l = list_body (devs w) @ rest" by blast
        have "relay_handler_list a w = ?send l w" using 2(1) by (simp add: eq True check_def)
        moreover have "take (unat (arr_length l * arr_size l)) (list_bytes l) = list_body (devs w)"
          using front(1) rest length_list_body[OF wf] by simp
        moreover have "sends [(a, Msg (relay_code RELAY_HEADER_LIST) (take (unat (arr_length l * arr_size l)) (list_bytes l)))] (?send l) w"
          using front(1) rest length_list_body[OF wf] by (intro sends_socket[OF ctx_okD(1)[OF ok] con]) simp
        ultimately show ?thesis by (simp add: sends_def)
      qed
    next
      case False
      then have "relay_handler_list a w = (Fail, w)" using law by (auto simp: eq check_def fail_def)
      show ?thesis unfolding sends_def \<open>relay_handler_list a w = (Fail, w)\<close> prod.case res.case by (rule unchanged)
    qed
  qed
qed

subsection \<open>What the relay prints\<close>

fun every_second :: "'a list \<Rightarrow> 'a list" where
  "every_second (x # y # xs) = x # every_second xs"
| "every_second xs = xs"

definition device_line :: "device \<Rightarrow> byte list \<times> bool" where
  "device_line d = (takeWhile (\<lambda>b. b \<noteq> 0) (di_name (d_info d)), d_grabbed d)"

lemma list_line:
  assumes wf: "\<forall>d \<in> set ds. info_wf (d_info d)" and i: "i < length ds"
  shows "(takeWhile (\<lambda>b. b \<noteq> 0) (field (sizeof_relay_entry * i) UINPUT_MAX_NAME_SIZE (list_body ds)),
     list_body ds ! (sizeof_relay_entry * i + UINPUT_MAX_NAME_SIZE) \<noteq> 0) = device_line (ds ! i)"
proof -
  let ?es = "map (\<lambda>d. enc_relay_entry (dev_entry d)) ds"
  have fixed: "\<forall>e \<in> set ?es. length e = sizeof_relay_entry" using wf by (auto simp: length_dev_entry)
  have e: "field (sizeof_relay_entry * i) sizeof_relay_entry (list_body ds) = enc_relay_entry (dev_entry (ds ! i))"
    using field_concat[OF fixed, of i "[]"] i by (simp add: list_body_def)
  have len: "sizeof_relay_entry * i + sizeof_relay_entry \<le> length (list_body ds)"
    using i length_list_body[OF wf] by (metis Suc_leI add.commute mult.commute mult_Suc_right mult_le_mono2)
  have nm: "length (di_name (d_info (ds ! i))) = 80" using wf i by (simp add: info_wf_def dev_consts)
  have "field (sizeof_relay_entry * i) UINPUT_MAX_NAME_SIZE (list_body ds) =
      take UINPUT_MAX_NAME_SIZE (field (sizeof_relay_entry * i) sizeof_relay_entry (list_body ds))"
    by (simp add: field_def sizeof_relay_entry_def dev_consts)
  also have "\<dots> = di_name (d_info (ds ! i))"
    unfolding e using nm by (simp add: enc_relay_entry_def dev_entry_def dev_consts)
  finally have 1: "field (sizeof_relay_entry * i) UINPUT_MAX_NAME_SIZE (list_body ds) = di_name (d_info (ds ! i))" .
  have "list_body ds ! (sizeof_relay_entry * i + UINPUT_MAX_NAME_SIZE) =
      field (sizeof_relay_entry * i) sizeof_relay_entry (list_body ds) ! UINPUT_MAX_NAME_SIZE"
    using len by (simp add: field_def sizeof_relay_entry_def dev_consts)
  also have "\<dots> = (if d_grabbed (ds ! i) then 1 else 0)"
    unfolding e using nm by (simp add: enc_relay_entry_def dev_entry_def dev_consts enc_bool_def nth_append)
  finally show ?thesis using 1 by (simp add: device_line_def)
qed

lemma list_lines_spec:
  assumes wf: "\<forall>d \<in> set ds. info_wf (d_info d)"
  shows "length ds \<le> rounds + i \<Longrightarrow> list_lines rounds i (length ds) (list_body ds) = every_second (map device_line (drop i ds))"
proof (induction rounds arbitrary: i)
  case 0
  then show ?case by simp
next
  case (Suc rounds)
  show ?case
  proof (cases "i < length ds")
    case True
    have "drop i ds = ds ! i # drop (Suc i) ds" using True by (simp add: Cons_nth_drop_Suc)
    moreover have "drop (i + 2) ds = tl (drop (Suc i) ds)" by (simp add: drop_Suc tl_drop)
    then have "every_second (device_line (ds ! i) # map device_line (drop (Suc i) ds)) =
        device_line (ds ! i) # every_second (map device_line (drop (i + 2) ds))"
      by (cases "drop (Suc i) ds") simp_all
    ultimately show ?thesis using True Suc.IH[of "i + 2"] Suc.prems list_line[OF wf True] by simp
  qed simp
qed

lemma request_list_spec:
  assumes wf: "\<forall>d \<in> set ds. info_wf (d_info d)" and "length (list_body ds) < 2 ^ 64"
  shows "request_list (of_nat (length (list_body ds))) (list_body ds) =
    (if ds = [] then Out_no_devices else Out_devices (every_second (map device_line ds)))"
proof -
  have u: "unat (of_nat (length (list_body ds)) :: u64) = length (list_body ds)"
    using assms(2) by (simp add: unat_of_nat take_bit_nat_eq_self)
  have n: "length (list_body ds) div sizeof_relay_entry = length ds"
    using length_list_body[OF wf] by (simp add: sizeof_relay_entry_def)
  have "(of_nat (length (list_body ds)) :: u64) = 0 \<longleftrightarrow> ds = []"
    using u length_list_body[OF wf] by (auto simp: word_unat_eq_iff sizeof_relay_entry_def list_body_def)
  then show ?thesis using list_lines_spec[OF wf, of "length ds" 0] u n by (simp add: request_list_def Let_def)
qed

end
