(* ===== verification/Rcn_Protocol.thy ===== *)
theory Rcn_Protocol
  imports Rcn_Control
begin

section \<open>The protocol of a server\<close>

text \<open>
  An abstract view of a server: what it answers to each request and message, and how its state
  changes.  The theorems show that the handlers of rcn_relay.c and rcn_peer.c implement it.
\<close>

subsection \<open>Requests\<close>

text \<open>A request's posts, the new state and the new exit flag; \<open>None\<close>: the value is no request.\<close>

type_synonym reaction = "(addr \<times> out_entry) list \<times> rcn_state \<times> bool"

definition stays :: "(addr \<times> out_entry) list \<Rightarrow> d_context \<Rightarrow> reaction" where
  "stays ps w = (ps, d_state w, d_exit w)"

definition answer :: "relay_msg_header \<Rightarrow> addr \<Rightarrow> (addr \<times> out_entry) list" where
  "answer h a = [(a, Msg (relay_code h) [])]"

definition pause_spec :: "addr \<Rightarrow> d_context \<Rightarrow> reaction" where
  "pause_spec a w =
     (if d_state w = RCN_PAUSED then stays (answer RELAY_HEADER_PAUSE_AGAIN a) w
      else if p_state w = PEER_CONNECTED
      then (release_posts (devs w) @ broadcast_posts RELAY_HEADER_PAUSE w @ peer_post PEER_HEADER_PAUSE w,
            RCN_PAUSED, d_exit w)
      else stays (release_posts (devs w) @ broadcast_posts RELAY_HEADER_NO_PEER w) w)"

definition resume_spec :: "addr \<Rightarrow> d_context \<Rightarrow> reaction" where
  "resume_spec a w =
     (if d_state w = RCN_RUNNING then stays (answer RELAY_HEADER_RESUME_AGAIN a) w
      else (release_posts (devs w) @ peer_post PEER_HEADER_RESUME w, RCN_RUNNING, d_exit w))"

definition relay_spec :: "relay_msg_header \<Rightarrow> addr \<Rightarrow> d_context \<Rightarrow> reaction option" where
  "relay_spec h a w = (case h of
      RELAY_HEADER_IDLE \<Rightarrow> Some (stays [] w)
    | RELAY_HEADER_START \<Rightarrow> Some (stays (answer RELAY_HEADER_START a) w)
    | RELAY_HEADER_PAUSE \<Rightarrow> Some (pause_spec a w)
    | RELAY_HEADER_RESUME \<Rightarrow> Some (resume_spec a w)
    | RELAY_HEADER_SWITCH \<Rightarrow> Some (if d_state w = RCN_RUNNING then pause_spec a w else resume_spec a w)
    | RELAY_HEADER_STOP \<Rightarrow> Some (broadcast_posts RELAY_HEADER_STOP w @ peer_post PEER_HEADER_STOP w, d_state w, True)
    | RELAY_HEADER_LIST \<Rightarrow> Some (stays [(a, Msg (relay_code RELAY_HEADER_LIST) (list_body (devs w)))] w)
    | _ \<Rightarrow> None)"

text \<open>\<open>m\<close> implements the reaction.\<close>

definition reacts :: "reaction \<Rightarrow> (unit, d_context) op \<Rightarrow> d_context \<Rightarrow> bool" where
  "reacts rx m w = (case rx of (ps, st, ex) \<Rightarrow> replies ps (\<lambda>v. v\<lparr>d_state := st, d_exit := ex\<rparr>) m w)"

text \<open>The requests that are passed on to the peer without a look at \<open>peer_state\<close>.\<close>

definition needs_peer :: "relay_msg_header \<Rightarrow> d_context \<Rightarrow> bool" where
  "needs_peer h w \<longleftrightarrow> h = RELAY_HEADER_STOP \<or>
     d_state w = RCN_PAUSED \<and> (h = RELAY_HEADER_RESUME \<or> h = RELAY_HEADER_SWITCH)"

lemma reacts_stays:
  assumes "replies ps id m w" shows "reacts (stays ps w) m w"
  unfolding reacts_def stays_def prod.case
  by (rule replies_cong[OF assms]) (use same_base_ctx in \<open>auto intro: d_context.equality\<close>)

lemma reacts_replies:
  assumes "replies ps (\<lambda>v. v\<lparr>d_state := st\<rparr>) m w" shows "reacts (ps, st, d_exit w) m w"
  unfolding reacts_def prod.case
proof (rule replies_cong[OF assms])
  fix v assume "same_base w v"
  from same_base_ctx(9)[OF this] show "v\<lparr>d_state := st, d_exit := d_exit w\<rparr> = v\<lparr>d_state := st\<rparr>" by simp
qed

lemma state_cases: "d_state w = RCN_RUNNING \<or> d_state w = RCN_PAUSED"
  by (cases "d_state w") simp_all

definition server_with_peer :: "d_context \<Rightarrow> bool" where
  "server_with_peer w \<longleftrightarrow> server_ok w \<and> d_type w = DAEMON_SERVER \<and>
     (p_state w = PEER_CONNECTED \<longrightarrow> connected (peer_stream w) w)"

lemma pause_reacts:
  assumes ok: "server_with_peer w" "connected a w"
  shows "reacts (pause_spec a w) (relay_handler_pause E a) w"
proof (cases "d_state w = RCN_PAUSED")
  case True
  have "mem_ok w" using ok by (auto simp: server_with_peer_def dest: server_okD ctx_okD)
  from send_replies[OF this ok(2)] have "replies (answer RELAY_HEADER_PAUSE_AGAIN a) id (relay_handler_pause E a) w"
    using True by (simp add: relay_handler_pause_def replies_def check_def gets_def answer_def)
  with True show ?thesis by (simp add: pause_spec_def reacts_stays)
next
  case False
  then have "d_state w = RCN_RUNNING" using state_cases by blast
  from pause_server[OF _ ok(2) _ _ this, of E] ok(1) False
  show ?thesis by (auto simp: server_with_peer_def pause_spec_def intro!: reacts_stays reacts_replies)
qed

lemma resume_reacts:
  assumes ok: "server_with_peer w" "connected a w" and peer: "d_state w = RCN_PAUSED \<Longrightarrow> p_state w = PEER_CONNECTED"
  shows "reacts (resume_spec a w) (relay_handler_resume E a) w"
proof (cases "d_state w = RCN_RUNNING")
  case True
  have "mem_ok w" using ok by (auto simp: server_with_peer_def dest: server_okD ctx_okD)
  from send_replies[OF this ok(2)] have "replies (answer RELAY_HEADER_RESUME_AGAIN a) id (relay_handler_resume E a) w"
    using True by (simp add: relay_handler_resume_def replies_def check_def gets_def answer_def)
  with True show ?thesis by (simp add: resume_spec_def reacts_stays)
next
  case False
  then have "d_state w = RCN_PAUSED" using state_cases by blast
  from resume_server[OF _ _ _ this, of E a] ok(1) False peer[OF this]
  show ?thesis by (auto simp: server_with_peer_def resume_spec_def intro!: reacts_replies)
qed

lemma stop_reacts:
  assumes ok: "server_with_peer w" and peer: "p_state w = PEER_CONNECTED"
  shows "reacts (broadcast_posts RELAY_HEADER_STOP w @ peer_post PEER_HEADER_STOP w, d_state w, True) relay_handler_stop w"
proof -
  have "replies (broadcast_posts RELAY_HEADER_STOP w @ peer_post PEER_HEADER_STOP w) (\<lambda>v. v\<lparr>d_exit := True\<rparr>) relay_handler_stop w"
    by (rule stop_server) (use assms in \<open>simp_all add: server_with_peer_def\<close>)
  then show ?thesis unfolding reacts_def prod.case
  proof (rule replies_cong)
    fix v assume "same_base w v"
    from same_base_ctx(7)[OF this] show "v\<lparr>d_state := d_state w, d_exit := True\<rparr> = v\<lparr>d_exit := True\<rparr>"
      by (cases v) simp
  qed
qed

lemma r_handler_reacts:
  assumes ok: "server_with_peer w" "connected a w" and wf: "\<forall>d \<in> set (devs w). info_wf (d_info d)"
    and peer: "needs_peer h w \<Longrightarrow> p_state w = PEER_CONNECTED" and h: "h_value (msg_header it) = relay_code h"
  shows "case relay_spec h a w of None \<Rightarrow> r_handler E a it w = (Fail, w) | Some rx \<Rightarrow> reacts rx (r_handler E a it) w"
proof -
  have ctx: "ctx_ok w" "mem_ok w" using ok by (auto simp: server_with_peer_def dest: server_okD ctx_okD)
  have reply: "reacts (stays (answer k a) w) (send_header a (relay_code k)) w" for k
    unfolding answer_def by (rule reacts_stays[OF send_replies[OF ctx(2) ok(2)]])
  have lst: "reacts (stays [(a, Msg (relay_code RELAY_HEADER_LIST) (list_body (devs w)))] w) (relay_handler_list a) w"
    by (rule reacts_stays[OF replies_sends[OF list_sends[OF ctx(1) ok(2) wf]]])
  have switch: "reacts (if d_state w = RCN_RUNNING then pause_spec a w else resume_spec a w) (relay_handler_switch E a) w"
    if "h = RELAY_HEADER_SWITCH"
  proof (cases "d_state w")
    case RCN_RUNNING
    then show ?thesis using pause_reacts[OF ok, of E]
      by (simp add: reacts_def replies_def relay_handler_switch_def check_def gets_def)
  next
    case RCN_PAUSED
    then show ?thesis using resume_reacts[OF ok, of E] peer that
      by (simp add: reacts_def replies_def relay_handler_switch_def check_def gets_def needs_peer_def)
  qed
  note pause = pause_reacts[OF ok, of E]
  have resume: "reacts (resume_spec a w) (relay_handler_resume E a) w" if "h = RELAY_HEADER_RESUME"
    using resume_reacts[OF ok, of E] peer that by (simp add: needs_peer_def)
  have stop: "reacts (broadcast_posts RELAY_HEADER_STOP w @ peer_post PEER_HEADER_STOP w, d_state w, True) relay_handler_stop w"
    if "h = RELAY_HEADER_STOP" using stop_reacts[OF ok(1)] peer that by (simp add: needs_peer_def)
  have idle: "reacts (stays [] w) (ret ()) w" by (rule reacts_stays[OF replies_sends[OF sends_ret[OF ctx(2)]]])
  have code: "relay_of_code (h_value (msg_header it)) = Some h" unfolding h by (rule relay_of_code)
  show ?thesis using code reply[of RELAY_HEADER_START] lst switch pause resume stop idle
    by (cases h) (simp_all add: r_handler_def relay_spec_def fail_def relay_handler_start_def)
qed

subsection \<open>Messages of the peer\<close>

text \<open>A received message: its header value and the block its buffer points to.\<close>

definition received :: "u32 \<Rightarrow> byte list \<Rightarrow> stream_item \<Rightarrow> 'z mem_scheme \<Rightarrow> bool" where
  "received v body it w \<longleftrightarrow> h_value (msg_header it) = v \<and> m_bufs w (msg_buffer it) = Some body"

definition peer_pause_spec :: "d_context \<Rightarrow> reaction" where
  "peer_pause_spec w = (release_posts (devs w) @ broadcast_posts RELAY_HEADER_PAUSE w, RCN_PAUSED, d_exit w)"

definition peer_resume_spec :: "d_context \<Rightarrow> reaction" where
  "peer_resume_spec w = (release_posts (devs w) @ broadcast_posts RELAY_HEADER_RESUME w, RCN_RUNNING, d_exit w)"

lemma broadcast_and_set:
  assumes ok: "server_ok w" "d_type w = DAEMON_SERVER"
  shows "reacts (release_posts (devs w) @ broadcast_posts h w, st, d_exit w)
    (check (ctrl_by_type E ctrl) (\<lambda>_. check (r_broadcast_relay_header h) (\<lambda>_. set_rcn_state st))) w"
proof (rule reacts_replies, rule release_then[OF ok])
  fix w1 assume p: "posted w w1 (release_posts (devs w))"
  note s1 = replies_step[OF postedD(2)[OF p] ok(1) postedD(1)[OF p]]
  have eq: "broadcast_posts h w = broadcast_posts h w1 @ []" using s1 by (simp add: broadcast_posts_def)
  show "replies (broadcast_posts h w) (\<lambda>v. v\<lparr>d_state := st\<rparr>)
      (check (r_broadcast_relay_header h) (\<lambda>_. set_rcn_state st)) w1"
    unfolding eq by (rule broadcast_then) (use s1 in \<open>auto intro: set_state_replies dest: postedD\<close>)
qed

lemma p_handler_pause_resume:
  assumes ok: "server_ok w" "d_type w = DAEMON_SERVER"
  shows "h_value (msg_header it) = peer_code PEER_HEADER_PAUSE \<Longrightarrow> reacts (peer_pause_spec w) (p_handler E a it) w"
    and "h_value (msg_header it) = peer_code PEER_HEADER_RESUME \<Longrightarrow> reacts (peer_resume_spec w) (p_handler E a it) w"
proof -
  have code: "h_value (msg_header it) = peer_code h \<Longrightarrow> peer_of_code (h_value (msg_header it)) = Some h" for h
    by (simp only: peer_of_code)
  show "h_value (msg_header it) = peer_code PEER_HEADER_PAUSE \<Longrightarrow> reacts (peer_pause_spec w) (p_handler E a it) w"
    using code[of PEER_HEADER_PAUSE] broadcast_and_set[OF ok, of RELAY_HEADER_PAUSE RCN_PAUSED]
    by (simp add: p_handler_def peer_handler_pause_def peer_pause_spec_def del: peer_code.simps)
  show "h_value (msg_header it) = peer_code PEER_HEADER_RESUME \<Longrightarrow> reacts (peer_resume_spec w) (p_handler E a it) w"
    using code[of PEER_HEADER_RESUME] broadcast_and_set[OF ok, of RELAY_HEADER_RESUME RCN_RUNNING]
    by (simp add: p_handler_def peer_handler_resume_def peer_resume_spec_def del: peer_code.simps)
qed

lemma p_handler_event:
  assumes "received (peer_code PEER_HEADER_EVENT) body it w"
  shows "p_handler E a it w = (if sizeof_peer_event \<le> length body
    then dev_emit_event_msg (dec_peer_event (take sizeof_peer_event body)) w else (Undef, w))"
proof -
  have "peer_of_code (h_value (msg_header it)) = Some PEER_HEADER_EVENT"
    using assms unfolding received_def by (simp only: peer_of_code)
  then show ?thesis using assms
    by (simp add: p_handler_def peer_handler_event_def received_def load_struct_def check_def)
qed

lemma p_handler_event_sends:
  assumes ok: "server_ok w" "devs w \<noteq> []" and rcv: "received (peer_code PEER_HEADER_EVENT) (enc_peer_event m) it w"
  shows "sends (emit_posts (devs w) m) (p_handler E a it) w"
proof -
  have "take sizeof_peer_event (enc_peer_event m) = enc_peer_event m" by simp
  then have "p_handler E a it w = dev_emit_event_msg m w"
    using p_handler_event[OF rcv, of E a] by simp
  then show ?thesis using emit_event_sends[OF ok, of m] by (simp add: sends_def)
qed

text \<open>The device a server plays an event on, when ids are unique.\<close>

lemma id_index_distinct:
  assumes "d \<in> set ds" "distinct (map (\<lambda>d. di_random_id (d_info d)) ds)"
  shows "ds ! id_index (di_random_id (d_info d)) ds = d"
proof -
  let ?id = "di_random_id (d_info d)"
  have "ds \<noteq> []" using assms(1) by auto
  from id_index_less[OF this] have in_ds: "ds ! id_index ?id ds \<in> set ds" by simp
  have "inj_on (\<lambda>d. di_random_id (d_info d)) (set ds)" using assms(2) by (simp add: distinct_map)
  then show ?thesis by (rule inj_onD) (use id_index_found[OF assms(1) refl] in_ds assms(1) in auto)
qed

definition event_posts :: "addr \<Rightarrow> input_event \<Rightarrow> (addr \<times> out_entry) list" where
  "event_posts a e = (a, Evt e) # (if ev_type e = of_nat EV_REL then [(a, Evt syn_report)] else [])"

end
