(* ===== verification/Rcn_Progress.thy ===== *)
theory Rcn_Progress
  imports Rcn_Protocol
begin

section \<open>Progress\<close>

text \<open>
  When an operation cannot fail: as long as the queues it posts to have room, queueing needs no memory
  and every call succeeds.
\<close>

subsection \<open>Room in a queue\<close>

text \<open>How many entries can be queued before the array behind a stream's queue has to grow.\<close>

definition room :: "addr \<Rightarrow> 'z mem_scheme \<Rightarrow> nat" where
  "room a w = (case m_streams w a of None \<Rightarrow> 0
     | Some s \<Rightarrow> unat (arr_capacity (q_array (s_queue s))) - unat (arr_length (q_array (s_queue s))))"

lemma has_room_iff: "has_room a w \<longleftrightarrow> 0 < room a w"
  by (auto simp: has_room_def room_def split: option.split)

lemma push_item_uses_room:
  assumes s: "m_streams w a = Some s" "stream_ok s" and n: "room a w = Suc n" and r: "push_item a it w = (r, w')"
  shows "r = Ok () \<and> room a w' = n \<and> (\<forall>b. b \<noteq> a \<longrightarrow> room b w' = room b w)"
proof -
  have inv: "q_inv (s_queue s)" using s(2) by (simp add: stream_ok_def)
  have "unat (arr_length (q_array (s_queue s))) < unat (arr_capacity (q_array (s_queue s)))"
    using n s(1) by (simp add: room_def)
  from u_array_add_in_place[OF _ this, of "m_av w" it] inv
  obtain arr where arr: "u_array_add (m_av w) it (q_array (s_queue s)) = (Ok (), arr)"
    "arr_capacity arr = arr_capacity (q_array (s_queue s))" "unat (arr_length arr) = Suc (unat (arr_length (q_array (s_queue s))))"
    by (auto simp: q_inv_def)
  then obtain q1 where q1: "u_queue_push (m_av w) it (s_queue s) = (Ok (), q1)" "q_array q1 = arr"
    by (simp add: u_queue_push_def op_simps)
  then have "u_queue_peek q1 = (Ok 0, q1)" using u_queue_push_spec[OF inv q1(1)] by (simp add: u_queue_peek_spec)
  then have "r = Ok ()" "w' = put_stream a (s\<lparr>s_queue := q1, s_next := At_head\<rparr>) (put_stream a (s\<lparr>s_queue := q1\<rparr>) (put_stream a (s\<lparr>s_queue := q1\<rparr>) w))"
    using q1(1) s(1) r by (auto simp: push_item_def check_def gets_def on_stream_def zoom_def modify_def)
  then show ?thesis using q1(2) arr n s(1) by (auto simp: room_def put_stream_def)
qed

lemma push_and_sync_uses_room:
  assumes ok: "mem_ok w" "connected a w" and it: "length (i_payload it) = 24" and n: "room a w = Suc n"
    and r: "check (push_item a it) (\<lambda>_. check (e_epoll_sync_stream a) (\<lambda>_. ret ())) w = (r, w')"
  shows "r = Ok () \<and> room a w' = n \<and> (\<forall>b. b \<noteq> a \<longrightarrow> room b w' = room b w) \<and> m_brk w' = m_brk w"
proof -
  obtain s where s: "m_streams w a = Some s" "k_open w (s_fd s)" "k_epoll w (s_fd s) \<noteq> None"
    using ok(2) by (auto simp: connected_def)
  have sok: "stream_ok s" using mem_okD(2)[OF ok(1) s(1)] .
  obtain r1 w1 where r1: "push_item a it w = (r1, w1)" by fastforce
  note use = push_item_uses_room[OF s(1) sok n r1]
  from push_item_spec[OF s(1) sok it r1] obtain s' where s': "w1 = put_stream a s' w" "stream_ok s'" "s_fd s' = s_fd s"
    by blast
  let ?nx = "case q_items (s_queue s') of [] \<Rightarrow> s_fallback s' | x # _ \<Rightarrow> x"
  have "cur w1 a s' ?nx" using next_item_ok[OF s'(2)] by (simp add: cur_def s'(1))
  from sync_spec[OF this] have "e_epoll_sync_stream a w1 = (Ok (), w1\<lparr>k_epoll := (k_epoll w1)(s_fd s' \<mapsto> (mask_of ?nx, a))\<rparr>)"
    using s s'(1,3) by simp
  then have "r = Ok () \<and> w' = w1\<lparr>k_epoll := (k_epoll w1)(s_fd s' \<mapsto> (mask_of ?nx, a))\<rparr>"
    using r r1 use by (simp add: check_def ret_def)
  then show ?thesis using use by (auto simp: room_def s'(1) put_stream_def)
qed

lemma send_device_uses_room:
  assumes ok: "mem_ok w" "connected a w" and n: "room a w = Suc n" and r: "stream_queue_writing_device a e w = (r, w')"
  shows "r = Ok () \<and> room a w' = n \<and> (\<forall>b. b \<noteq> a \<longrightarrow> room b w' = room b w)"
proof -
  have "length (i_payload (set_event e (zero_item\<lparr>i_state := STREAM_STREAMING_HEADER,
         i_op := STREAM_OP_WRITING, i_type := STREAM_TYPE_DEVICE\<rparr>))) = 24" by simp
  from push_and_sync_uses_room[OF ok this n] r show ?thesis by (simp add: stream_queue_writing_device_def Let_def)
qed

text \<open>Queueing a message takes one place in the queue and one block of the heap.\<close>

lemma send_socket_uses_room:
  assumes ok: "mem_ok w" "connected a w" and src: "unat sz \<le> length bytes" "fresh (unat sz) w" and n: "room a w = Suc n"
  shows "\<exists>w'. stream_queue_writing_socket a v sz bytes w = (Ok (), w') \<and> room a w' = n \<and>
    unat (m_brk w') = unat (m_brk w) + 16"
proof -
  let ?b = "m_brk w" and ?bs = "take (unat sz) bytes"
  let ?w2 = "w\<lparr>m_bufs := (m_bufs w)(?b \<mapsto> ?bs), m_brk := ?b + 16\<rparr>"
  let ?it = "set_buffer ?b (set_header \<lparr>h_size = sz, h_value = v\<rparr> (zero_item\<lparr>i_state := STREAM_STREAMING_HEADER,
         i_op := STREAM_OP_WRITING, i_type := STREAM_TYPE_SOCKET, i_streamed := 0\<rparr>))"
  note un = heap_ok_unused[OF mem_okD(1)[OF ok(1)]]
  have len: "length (i_payload ?it) = 24" by (simp add: set_header_def zero_item_def set_buffer_def)
  have "heap_ok ?w2" by (rule heap_ok_grow[OF mem_okD(1)[OF ok(1)] src(2)]) simp_all
  then have ok2: "mem_ok ?w2" using mem_ok_new_buffer[where b = ?b and bs = ?bs and w' = ?w2, OF ok(1)] un by simp
  have con2: "connected a ?w2" using ok(2) by (simp add: connected_def)
  have eq: "stream_queue_writing_socket a v sz bytes w =
      check (push_item a ?it) (\<lambda>_. check (e_epoll_sync_stream a) (\<lambda>_. ret ())) ?w2"
    using src un by (simp add: stream_queue_writing_socket_def Let_def calloc_buffer_def check_def fill_buffer_def) (cases w, simp)
  obtain r w' where r: "check (push_item a ?it) (\<lambda>_. check (e_epoll_sync_stream a) (\<lambda>_. ret ())) ?w2 = (r, w')" by fastforce
  have "room a ?w2 = Suc n" using n by (simp add: room_def)
  from push_and_sync_uses_room[OF ok2 con2 len this r] show ?thesis
    using eq r fresh_brk[OF src(2)] by auto
qed

text \<open>Room in a table, and in the heap: every allocation below a megabyte is granted and \<open>n\<close> bytes of
  addresses are left.\<close>

definition spare :: "'a u_array \<Rightarrow> nat" where
  "spare arr = unat (arr_capacity arr) - unat (arr_length arr)"

lemma add_uses_spare:
  assumes "arr_inv arr" "spare arr = Suc n"
  shows "\<exists>arr'. u_array_add av x arr = (Ok (), arr') \<and> spare arr' = n"
  using u_array_add_in_place[OF assms(1), of av x] assms(2) by (fastforce simp: spare_def)

definition ample :: "nat \<Rightarrow> 'z mem_scheme \<Rightarrow> bool" where
  "ample n w \<longleftrightarrow> (\<forall>k < 2 ^ 20. granted (m_av w) k) \<and> unat (m_brk w) + n < 2 ^ 64"

lemma ample_fresh: "ample n w \<Longrightarrow> 16 \<le> n \<Longrightarrow> k < 2 ^ 20 \<Longrightarrow> fresh k w"
  by (simp add: ample_def fresh_def)

text \<open>A sequence of events for one device succeeds when the queue has room for all of them.\<close>

lemma events_succeed:
  assumes "mem_ok w" "connected a w" "length es \<le> room a w"
  shows "\<exists>w'. for_each (stream_queue_writing_device a) es w = (Ok (), w') \<and> room a w' = room a w - length es \<and>
    (\<forall>b. b \<noteq> a \<longrightarrow> room b w' = room b w)"
  using assms
proof (induction es arbitrary: w)
  case Nil
  then show ?case by (simp add: ret_def)
next
  case (Cons e es)
  then obtain n where n: "room a w = Suc n" by (cases "room a w") auto
  obtain r w1 where r: "stream_queue_writing_device a e w = (r, w1)" by fastforce
  note use = send_device_uses_room[OF Cons.prems(1,2) n r]
  note spec = send_device_spec[OF Cons.prems(1,2) r]
  have "\<exists>w'. for_each (stream_queue_writing_device a) es w1 = (Ok (), w') \<and> room a w' = room a w1 - length es \<and>
    (\<forall>b. b \<noteq> a \<longrightarrow> room b w' = room b w1)"
    by (rule Cons.IH) (use spec use n Cons.prems in \<open>auto simp: same_base_connected\<close>)
  then obtain w' where "for_each (stream_queue_writing_device a) es w1 = (Ok (), w')" "room a w' = room a w1 - length es"
    "\<forall>b. b \<noteq> a \<longrightarrow> room b w' = room b w1" by blast
  then show ?case using r use n by (simp add: check_def)
qed

lemma release_keys_eq:
  assumes "arr_inv (devices w)" "k < length (devs w)"
  shows "dev_release_virt_keys k w =
    for_each (stream_queue_writing_device (d_stream (devs w ! k))) (release_events (d_info (devs w ! k))) w"
proof -
  let ?d = "devs w ! k"
  have body: "(if has_bit (di_evtbit (d_info ?d)) EV_KEY
       then check (for_each (\<lambda>i. if \<not> has_bit (di_keybit (d_info ?d)) i then ret ()
                 else stream_queue_writing_device (d_stream ?d) (key_up i)) [0..<KEY_MAX])
            (\<lambda>_. stream_queue_writing_device (d_stream ?d) syn_report)
       else ret ()) = for_each (stream_queue_writing_device (d_stream ?d)) (release_events (d_info ?d))"
    by (simp add: release_events_def for_each_append for_each_map for_each_filter_not)
  show ?thesis using load_dev_ok[OF assms]
    unfolding dev_release_virt_keys_def check_def[of "load_dev k"] by (simp add: body)
qed

lemma release_indices_succeed:
  assumes "server_ok w" "distinct (map d_stream (devs w))" "set ks \<subseteq> {..<length (devs w)}" "distinct ks"
    and "\<forall>k \<in> set ks. length (release_events (d_info (devs w ! k))) \<le> room (d_stream (devs w ! k)) w"
  shows "\<exists>w'. for_each (\<lambda>i. check (on_devices (u_array_getr (of_nat i))) dev_release_virt_keys) ks w = (Ok (), w')"
  using assms
proof (induction ks arbitrary: w)
  case Nil
  then show ?case by (simp add: ret_def)
next
  case (Cons k ks)
  let ?d = "devs w ! k"
  note arr = ctx_okD(2)[OF server_okD(1)[OF Cons.prems(1)]] and mem = ctx_okD(1)[OF server_okD(1)[OF Cons.prems(1)]]
  have k: "k < length (devs w)" using Cons.prems(3) by simp
  have con: "connected (d_stream ?d) w" using server_okD(2)[OF Cons.prems(1)] k by simp
  have "length (release_events (d_info ?d)) \<le> room (d_stream ?d) w" using Cons.prems(5) by simp
  from events_succeed[OF mem con this] obtain w1 where w1:
    "for_each (stream_queue_writing_device (d_stream ?d)) (release_events (d_info ?d)) w = (Ok (), w1)"
    "\<forall>b. b \<noteq> d_stream ?d \<longrightarrow> room b w1 = room b w" by blast
  note p = sendsD(2)[OF sends_events[OF mem con] w1(1) refl]
  note s1 = replies_step[OF postedD(2)[OF p] Cons.prems(1) postedD(1)[OF p]]
  have other: "d_stream (devs w ! j) \<noteq> d_stream ?d" if "j \<in> set ks" for j
  proof -
    have "j < length (devs w)" "j \<noteq> k" using that Cons.prems(3,4) by auto
    then show ?thesis using nth_eq_iff_index_eq[OF Cons.prems(2), of j k] k by simp
  qed
  have "\<exists>w'. for_each (\<lambda>i. check (on_devices (u_array_getr (of_nat i))) dev_release_virt_keys) ks w1 = (Ok (), w')"
    by (rule Cons.IH) (use s1 Cons.prems w1(2) other in auto)
  moreover have "check (on_devices (u_array_getr (of_nat k))) dev_release_virt_keys w = (Ok (), w1)"
    using getr_dev_ok[OF arr k] release_keys_eq[OF arr k] w1(1) by (simp add: check_ok)
  ultimately show ?case by (simp only: for_each.simps check_ok) 
qed

lemma release_all_succeeds:
  assumes "server_ok w" "distinct (map d_stream (devs w))"
    and "\<forall>d \<in> set (devs w). length (release_events (d_info d)) \<le> room (d_stream d) w"
  shows "\<exists>w'. dev_release_virt_keys_all w = (Ok (), w')"
proof -
  have "unat (arr_length (devices w)) = length (devs w)"
    using length_elems ctx_okD(2)[OF server_okD(1)[OF assms(1)]] by metis
  then show ?thesis
    using release_indices_succeed[OF assms(1,2), of "[0..<length (devs w)]"] assms(3)
    by (simp add: dev_release_virt_keys_all_def for_devices_def check_def gets_def atLeast0LessThan)
qed

subsection \<open>The device list can always be built\<close>

lemma build_list_succeeds:
  assumes "arr_inv (devices w)" "i + n = length (devs w)" "arr_inv lst"
    "unat (arr_length lst) + n \<le> unat (arr_capacity lst)"
  shows "\<exists>lst'. build_list n i lst w = (Ok lst', w)"
  using assms(2-4)
proof (induction n arbitrary: i lst)
  case 0
  then show ?case by (simp add: ret_def)
next
  case (Suc n)
  then have i: "i < length (devs w)" by simp
  obtain lst' where add: "u_array_add (m_av w) (dev_entry (devs w ! i)) lst = (Ok (), lst')"
    "arr_capacity lst' = arr_capacity lst" "unat (arr_length lst') = Suc (unat (arr_length lst))"
    using u_array_add_in_place[OF Suc.prems(2), of "m_av w" "dev_entry (devs w ! i)"] Suc.prems(3) by auto
  have "build_list (Suc n) i lst w = build_list n (Suc i) lst' w"
    using getr_dev_ok[OF assms(1) i] load_dev_ok[OF assms(1) i] add(1)
    by (simp add: check_def gets_def dev_entry_def)
  moreover have "\<exists>l. build_list n (Suc i) lst' w = (Ok l, w)"
    using Suc.prems add u_array_add_spec[OF Suc.prems(2) add(1)] by (intro Suc.IH) auto
  ultimately show ?case by simp
qed

lemma list_succeeds:
  assumes ok: "ctx_ok w" and con: "connected a w" and wf: "\<forall>d \<in> set (devs w). info_wf (d_info d)"
    and mem: "m_av w = (\<lambda>_. True)" "unat (m_brk w) + 16 < 2 ^ 64" "length (devs w) * sizeof_relay_entry < 2 ^ 63"
    and room: "has_room a w"
  shows "\<exists>w'. relay_handler_list a w = (Ok (), w')"
proof (cases "devs w = []")
  case True
  then have "arr_length (devices w) = 0" using length_elems[OF ctx_okD(2)[OF ok]] by (simp add: unat_eq_0)
  moreover have "fresh 0 w" using mem by (simp add: fresh_def granted_def)
  then have "\<exists>w'. stream_queue_writing_socket a (relay_code RELAY_HEADER_LIST) 0 [] w = (Ok (), w')"
    by (intro send_succeeds[OF ctx_okD(1)[OF ok] con _ _ room]) simp_all
  ultimately show ?thesis
    by (simp add: relay_handler_list_def check_def gets_def ret_def empty_list_def list_bytes_def)
next
  case False
  note arr = ctx_okD(2)[OF ok]
  let ?n = "length (devs w)" and ?lst = "\<lparr>arr_data = Some (replicate (length (devs w)) None), arr_size = of_nat sizeof_relay_entry,
      arr_capacity = arr_length (devices w), arr_length = 0\<rparr> :: relay_data_list u_array"
  have n: "unat (arr_length (devices w)) = ?n" "arr_length (devices w) \<noteq> 0"
    using length_elems[OF arr] False by (auto simp: unat_eq_0)
  have sz: "unat (of_nat sizeof_relay_entry :: u64) = sizeof_relay_entry" "(of_nat sizeof_relay_entry :: u64) \<noteq> 0"
    by (simp_all add: sizeof_relay_entry_def)
  have init: "u_array_init (m_av w) (of_nat sizeof_relay_entry) (arr_length (devices w)) empty_list = (Ok (), ?lst)"
    using n sz mem by (simp add: u_array_init_def Let_def granted_def empty_list_def)
  from u_array_init_spec[OF init] have lst: "arr_inv ?lst" "elems ?lst = []" by auto
  from build_list_succeeds[OF arr _ lst(1), of 0 ?n] n(1) obtain l where l: "build_list ?n 0 ?lst w = (Ok l, w)" by auto
  from build_list_spec[OF arr _ lst(1), of 0 ?n] l lst(2) have l': "arr_inv l" "arr_size l = of_nat sizeof_relay_entry"
    "elems l = map dev_entry (devs w)" by auto
  note front = list_bytes_front[OF l'(1,3,2) wf]
  let ?send = "stream_queue_writing_socket a (relay_code RELAY_HEADER_LIST) (arr_length l * arr_size l) (list_bytes l)"
  have "relay_handler_list a w = ?send w"
    using n(2) init l unfolding n(1)[symmetric] by (simp add: relay_handler_list_def check_def gets_def)
  moreover have "\<exists>w'. ?send w = (Ok (), w')"
    using front length_list_body[OF wf] mem room
    by (intro send_succeeds[OF ctx_okD(1)[OF ok] con]) (auto simp: fresh_def granted_def)
  ultimately show ?thesis by simp
qed

end
