(* ===== verification/Rcn_Server.thy ===== *)
theory Rcn_Server
  imports Rcn_Progress
begin

section \<open>What a server guarantees\<close>

text \<open>
  The properties of a server: its reaction to every request and every message, the path of an input
  event from the client's event file to the server's uinput device, the release of held keys, the
  device list, and what goes wrong without a peer, with unknown devices and with short messages.
\<close>

subsection \<open>Concrete servers\<close>

definition ctx_of :: "mem \<Rightarrow> device list \<Rightarrow> addr list \<Rightarrow> addr \<Rightarrow> daemon_type \<Rightarrow> rcn_state \<Rightarrow> peer_state \<Rightarrow> d_context" where
  "ctx_of m ds rs p ty st ps = mem.extend m \<lparr>stream_ptrs = array_of 8 10 (p # rs @ map d_stream ds), ep_open = True,
     isock_stream = 0, peer_stream = p, isock_port = 8000, isock_state = PEER_DISCONNECTED, p_state = ps,
     devices = array_of 1768 10 ds, relay_streams = array_of 8 10 rs, usock_fd = 4, d_state = st,
     d_type = ty, d_exit = False, k_ui = [], k_grab = (\<lambda>_. False)\<rparr>"

lemma ctx_of_simps [simp]:
  "m_streams (ctx_of m ds rs p ty st ps) = m_streams m" "m_bufs (ctx_of m ds rs p ty st ps) = m_bufs m"
  "m_brk (ctx_of m ds rs p ty st ps) = m_brk m" "m_av (ctx_of m ds rs p ty st ps) = m_av m"
  "k_open (ctx_of m ds rs p ty st ps) = k_open m" "k_epoll (ctx_of m ds rs p ty st ps) = k_epoll m"
  "peer_stream (ctx_of m ds rs p ty st ps) = p" "p_state (ctx_of m ds rs p ty st ps) = ps"
  "devices (ctx_of m ds rs p ty st ps) = array_of 1768 10 ds" "relay_streams (ctx_of m ds rs p ty st ps) = array_of 8 10 rs"
  "d_state (ctx_of m ds rs p ty st ps) = st" "d_type (ctx_of m ds rs p ty st ps) = ty"
  "d_exit (ctx_of m ds rs p ty st ps) = False" "stream_ptrs (ctx_of m ds rs p ty st ps) = array_of 8 10 (p # rs @ map d_stream ds)"
  by (simp_all add: ctx_of_def mem.defs)

lemma ctx_of_elems [simp]:
  "length ds \<le> 10 \<Longrightarrow> devs (ctx_of m ds rs p ty st ps) = ds" "length rs \<le> 10 \<Longrightarrow> relays (ctx_of m ds rs p ty st ps) = rs"
  by (simp_all add: array_of_inv)

lemma ctx_of_frame [simp]:
  "mem_ok (ctx_of m ds rs p ty st ps) = mem_ok m" "outbox a (ctx_of m ds rs p ty st ps) = outbox a m"
  "connected a (ctx_of m ds rs p ty st ps) = connected a m"
  by (simp_all add: mem_ok_def heap_ok_def outbox_def connected_def cong: option.case_cong)

lemma ctx_of_server_ok:
  assumes "mem_ok m" "length ds \<le> 10" "length rs \<le> 10" "\<forall>a \<in> set rs \<union> d_stream ` set ds. connected a m"
  shows "server_ok (ctx_of m ds rs p ty st ps)"
  using assms by (auto simp: server_ok_def ctx_ok_def array_of_inv)

text \<open>A keyboard (key 30), its stream 48; a relay at 32, the peer at 16.\<close>

definition keyboard :: "addr \<Rightarrow> u64 \<Rightarrow> device" where
  "keyboard a random_id = \<lparr>d_info = zero_info\<lparr>di_evtbit := [2, 0, 0, 0], di_keybit := (replicate max_key_bytes 0)[3 := 64],
      di_random_id := random_id\<rparr>, d_stream = a, d_grabbed = True\<rparr>"

definition demo_mem :: mem where
  "demo_mem = mem_of [(16, fresh_stream STREAM_OP_READING STREAM_TYPE_SOCKET FD_PEER 5),
     (32, fresh_stream STREAM_OP_READING STREAM_TYPE_SOCKET FD_RELAY 6),
     (48, fresh_stream STREAM_OP_WRITING STREAM_TYPE_DEVICE FD_UDEV 7)] (\<lambda>_. [])"

definition demo_server :: "rcn_state \<Rightarrow> peer_state \<Rightarrow> d_context" where
  "demo_server st ps = ctx_of demo_mem [keyboard 48 7] [32] 16 DAEMON_SERVER st ps"

definition demo_client :: d_context where
  "demo_client = ctx_of demo_mem [keyboard 48 7] [32] 16 DAEMON_CLIENT RCN_RUNNING PEER_CONNECTED"

text \<open>The server with a message body at address 64.\<close>

definition demo_received :: "byte list \<Rightarrow> d_context" where
  "demo_received body = ctx_of (demo_mem\<lparr>m_bufs := [64 \<mapsto> body]\<rparr>) [keyboard 48 7] [32] 16 DAEMON_SERVER
     RCN_RUNNING PEER_CONNECTED"

definition with_body :: "u32 \<Rightarrow> stream_item" where
  "with_body v = set_buffer 64 (set_header \<lparr>h_size = 0, h_value = v\<rparr> zero_item)"

definition with_header :: "u32 \<Rightarrow> stream_item" where
  "with_header v = set_header \<lparr>h_size = 0, h_value = v\<rparr> zero_item"

lemma filter_upt_eq: "filter (\<lambda>i. i = k) [0..<n] = (if k < n then [k] else [])"
  by (induction n) auto

lemma release_keyboard: "release_events (d_info (keyboard a random_id)) = [key_up 30, syn_report]"
proof -
  let ?bits = "(replicate max_key_bytes 0)[3 := 64 :: byte]"
  have "has_bit ?bits i \<longleftrightarrow> i = 30" for i
  proof (cases "i div 8 = 3")
    case True
    then have "i \<in> {24, 25, 26, 27, 28, 29, 30, 31}" by auto
    then show ?thesis by (auto simp: has_bit_def dev_consts)
  next
    case False
    then show ?thesis by (auto simp: has_bit_def)
  qed
  then have "has_bit ?bits = (\<lambda>i. i = 30)" by auto
  moreover have "has_bit [2, 0, 0, 0] EV_KEY" by (simp add: has_bit_def dev_consts)
  ultimately show ?thesis by (simp add: release_events_def keyboard_def filter_upt_eq) (simp add: dev_consts)
qed

lemma demo_mem_ok: "mem_ok demo_mem"
  unfolding demo_mem_def by (rule mem_of_ok) auto

lemma demo_mem_connected: "a \<in> {16, 32, 48} \<Longrightarrow> connected a demo_mem" "outbox a demo_mem = []"
proof -
  show "a \<in> {16, 32, 48} \<Longrightarrow> connected a demo_mem" by (auto simp: connected_def demo_mem_def mem_of_def)
  show "outbox a demo_mem = []" by (simp add: outbox_def demo_mem_def mem_of_def)
qed

lemma demo_server_ok:
  "server_ok (demo_server st ps)" "server_with_peer (demo_server st ps)" "devs (demo_server st ps) = [keyboard 48 7]"
  "relays (demo_server st ps) = [32]" "connected 16 (demo_server st ps)" "connected 32 (demo_server st ps)"
  "\<forall>d \<in> set (devs (demo_server st ps)). info_wf (d_info d)" "peer_stream (demo_server st ps) = 16"
  "d_state (demo_server st ps) = st" "p_state (demo_server st ps) = ps" "d_exit (demo_server st ps) = False"
  "d_type (demo_server st ps) = DAEMON_SERVER" "outbox a (demo_server st ps) = []"
proof -
  show ok: "server_ok (demo_server st ps)" unfolding demo_server_def
    by (rule ctx_of_server_ok[OF demo_mem_ok]) (auto simp: keyboard_def intro: demo_mem_connected)
  show "server_with_peer (demo_server st ps)" using ok
    by (simp add: server_with_peer_def) (simp add: demo_server_def demo_mem_connected)
  show "connected 16 (demo_server st ps)" "connected 32 (demo_server st ps)"
    by (simp_all add: demo_server_def demo_mem_connected)
  show d: "devs (demo_server st ps) = [keyboard 48 7]" by (simp add: demo_server_def array_of_inv)
  show "\<forall>d \<in> set (devs (demo_server st ps)). info_wf (d_info d)"
    unfolding d by (simp add: keyboard_def info_wf_def zero_info_def dev_consts)
qed (simp_all add: demo_server_def demo_mem_connected array_of_inv)

lemma demo_received_ok:
  "server_ok (demo_received body)" "devs (demo_received body) = [keyboard 48 7]" "received v body (with_body v) (demo_received body)"
  "d_type (demo_received body) = DAEMON_SERVER"
proof -
  let ?m = "demo_mem\<lparr>m_bufs := [64 \<mapsto> body]\<rparr>"
  have "q_items (s_queue s) = []" if "m_streams demo_mem a = Some s" for a s
    using demo_mem_connected(2)[of a] that by (simp add: outbox_def)
  then have "mem_ok ?m" using demo_mem_ok
    by (auto simp: mem_ok_def heap_ok_def demo_mem_def mem_of_def word_less_nat_alt)
  moreover have "connected a ?m" if "a \<in> {32, 48}" for a
    using demo_mem_connected(1)[of a] that by (auto simp: connected_def)
  ultimately show "server_ok (demo_received body)" unfolding demo_received_def
    by (intro ctx_of_server_ok) (auto simp: keyboard_def)
qed (simp_all add: demo_received_def received_def with_body_def array_of_inv zero_item_def)

lemma demo_client_ok:
  "ctx_ok demo_client" "connected (peer_stream demo_client) demo_client" "peer_stream demo_client = 16"
  "devs demo_client = [keyboard 48 7]" "outbox a demo_client = []" "fresh n demo_client \<longleftrightarrow> n < 2 ^ 63" "has_room 16 demo_client"
proof -
  show "ctx_ok demo_client" unfolding demo_client_def
    by (rule server_okD(1), rule ctx_of_server_ok[OF demo_mem_ok]) (auto simp: keyboard_def intro: demo_mem_connected)
  show "fresh n demo_client \<longleftrightarrow> n < 2 ^ 63"
    by (simp add: fresh_def granted_def demo_client_def demo_mem_def mem_of_def)
  show "has_room 16 demo_client"
    by (simp add: has_room_def demo_client_def demo_mem_def mem_of_def fresh_stream_def array_of_def)
qed (simp_all add: demo_client_def demo_mem_connected array_of_inv)

lemma room_demo: "a \<in> {16, 32, 48} \<Longrightarrow> room a (demo_server st ps) = 10"
  by (auto simp: room_def demo_server_def demo_mem_def mem_of_def fresh_stream_def array_of_def)

lemma header_with_header [simp]: "h_value (msg_header (with_header v)) = v"
  by (simp add: with_header_def)

subsection \<open>Lemmas for the single messages\<close>

lemma store_dev_ok:
  assumes "arr_inv (devices w)" "k < length (devs w)"
  shows "\<exists>w'. store_dev k d w = (Ok (), w') \<and> w' = w\<lparr>devices := devices w'\<rparr> \<and> arr_inv (devices w') \<and> devs w' = (devs w)[k := d]"
proof -
  from assms(1) obtain cs where cs: "arr_data (devices w) = Some cs" "length cs = unat (arr_capacity (devices w))"
    "unat (arr_length (devices w)) \<le> unat (arr_capacity (devices w))" by (auto elim!: arr_invE)
  have k: "k < unat (arr_length (devices w))" using assms length_elems by metis
  let ?arr = "(devices w)\<lparr>arr_data := Some (cs[k := Some d])\<rparr>"
  have "arr_inv ?arr" using assms(1) cs(1) k by (auto simp: arr_inv_def nth_list_update)
  moreover have "elems ?arr = (devs w)[k := d]"
    using cs k by (simp add: elems_def take_update_swap map_update)
  ultimately show ?thesis using cs k by (intro exI[of _ "w\<lparr>devices := ?arr\<rparr>"]) (simp add: store_dev_def)
qed

lemma send_gone_undefined:
  assumes "m_streams w a = None" "fresh 0 w" "heap_ok w"
  shows "fst (send_header a v w) = Undef"
  using assms(1,2) heap_ok_unused[OF assms(3)]
  by (simp add: send_header_def stream_queue_writing_socket_def Let_def calloc_buffer_def check_def fill_buffer_def
      push_item_def gets_def on_stream_def)

subsection \<open>Properties\<close>

text \<open>C6: Every request of a relay to a running or paused server.  For each header value the handler
  does exactly what \<open>relay_spec\<close> says: it posts those entries to those streams in that order and
  changes the daemon's state and exit flag to those values, or it fails after posting a first part.
  In particular a pause releases the keys of all devices, tells every relay and then the peer; without
  a peer it changes nothing and says so; a repeated pause or resume is answered to the asking relay
  only; a resume is answered to nobody.  Values that are no request are refused.\<close>

theorem relay_requests_server:
  assumes "server_with_peer w" "connected a w" "\<forall>d \<in> set (devs w). info_wf (d_info d)"
    and "needs_peer h w \<Longrightarrow> p_state w = PEER_CONNECTED" and "h_value (msg_header it) = relay_code h"
  shows "case relay_spec h a w of None \<Rightarrow> r_handler E a it w = (Fail, w) | Some rx \<Rightarrow> reacts rx (r_handler E a it) w"
  using assms by (rule r_handler_reacts)

theorem relay_requests_server_witness:
  "\<exists>E. reacts ([(48, Evt (key_up 30)), (48, Evt syn_report), (32, Msg 2 []), (16, Msg 3 [])], RCN_PAUSED, False)
    (r_handler E 32 (with_header (relay_code RELAY_HEADER_PAUSE))) (demo_server RCN_RUNNING PEER_CONNECTED)"
proof -
  let ?w = "demo_server RCN_RUNNING PEER_CONNECTED"
  have "release_posts (devs ?w) = [(48, Evt (key_up 30)), (48, Evt syn_report)]"
    by (simp add: release_posts_def demo_server_ok release_keyboard) (simp add: keyboard_def)
  then have "relay_spec RELAY_HEADER_PAUSE 32 ?w = Some ([(48, Evt (key_up 30)), (48, Evt syn_report), (32, Msg 2 []), (16, Msg 3 [])], RCN_PAUSED, False)"
    by (simp add: relay_spec_def pause_spec_def broadcast_posts_def peer_post_def demo_server_ok)
  then show ?thesis
    using relay_requests_server[OF demo_server_ok(2,6,7), of RELAY_HEADER_PAUSE RCN_RUNNING PEER_CONNECTED "with_header (relay_code RELAY_HEADER_PAUSE)"]
    by (simp add: demo_server_ok)
qed

text \<open>C12: Every message of the client to a server that is told to pause or resume, as \<open>reacts\<close> of the
  abstract specification: held keys are released, the relays are told, the state follows the client.\<close>

theorem peer_pause_resume_server:
  assumes "server_ok w" "d_type w = DAEMON_SERVER" "h_value (msg_header it) = peer_code h"
    and "h = PEER_HEADER_PAUSE \<or> h = PEER_HEADER_RESUME"
  shows "reacts (if h = PEER_HEADER_PAUSE then peer_pause_spec w else peer_resume_spec w) (p_handler E a it) w"
  using p_handler_pause_resume[OF assms(1,2)] assms(3,4) by auto

theorem peer_pause_resume_server_witness:
  "\<exists>E. reacts (peer_resume_spec (demo_server RCN_PAUSED PEER_CONNECTED)) (p_handler E 16 (with_header 4)) (demo_server RCN_PAUSED PEER_CONNECTED)"
  using peer_pause_resume_server[OF demo_server_ok(1,12), of "with_header 4" PEER_HEADER_RESUME] by (simp add: demo_server_ok)

text \<open>C1: The path of an input event.  When a client reads event \<open>e\<close> from the event file of a device,
  it queues exactly one message, to the server; a server that receives this message (its body behind
  the message's buffer pointer) queues \<open>e\<close>, unchanged, on the uinput device that was created with the
  same random id and on no other, followed by a SYN report when \<open>e\<close> is a relative movement.\<close>

theorem event_end_to_end:
  assumes client: "ctx_ok w" "connected (peer_stream w) w" "device_of a (devs w) = Some d" "dev_handler a it w = (Ok (), w1)"
    and sent: "outbox (peer_stream w) w1 = outbox (peer_stream w) w @ [Msg v body]"
    and server: "server_ok u" "d' \<in> set (devs u)" "di_random_id (d_info d') = di_random_id (d_info d)"
      "distinct (map (\<lambda>d. di_random_id (d_info d)) (devs u))" and rcv: "received v body it' u"
  shows "posted w w1 [(peer_stream w, Msg v body)] \<and>
    sends (event_posts (d_stream d') (item_event it)) (p_handler E b it') u"
proof
  let ?m = "\<lparr>evt_data = item_event it, evt_random_id = di_random_id (d_info d)\<rparr>"
  have p: "posted w w1 [(peer_stream w, Msg (peer_code PEER_HEADER_EVENT) (enc_peer_event ?m))]"
    using sendsD(2)[OF dev_handler_sends[OF client(1-3)] client(4)] by simp
  from postedD(3)[OF p, of "peer_stream w"] sent
  have m: "v = peer_code PEER_HEADER_EVENT" "body = enc_peer_event ?m" by (simp_all add: posts_at_Cons)
  show "posted w w1 [(peer_stream w, Msg v body)]" unfolding m by (rule p)
  have "devs u ! id_index (di_random_id (d_info d)) (devs u) = d'"
    using id_index_distinct[OF server(2,4)] server(3) by simp
  then have "emit_posts (devs u) ?m = event_posts (d_stream d') (item_event it)"
    by (simp add: emit_posts_def event_posts_def Let_def)
  moreover have "devs u \<noteq> []" using server(2) by auto
  ultimately show "sends (event_posts (d_stream d') (item_event it)) (p_handler E b it') u"
    using p_handler_event_sends[OF server(1) _ rcv[unfolded m], of E b] by simp
qed

theorem event_end_to_end_witness:
  "let e = \<lparr>tv_sec = 1, tv_usec = 2, ev_type = 2, ev_code = 0, ev_value = 5\<rparr>;
       body = enc_peer_event \<lparr>evt_data = e, evt_random_id = 7\<rparr> in
   \<forall>E. \<exists>w1. dev_handler 48 (set_event e zero_item) demo_client = (Ok (), w1) \<and>
     posted demo_client w1 [(16, Msg 2 body)] \<and>
     sends [(48, Evt e), (48, Evt syn_report)] (p_handler E 16 (with_body 2)) (demo_received body)"
proof -
  let ?e = "\<lparr>tv_sec = 1, tv_usec = 2, ev_type = 2, ev_code = 0, ev_value = 5\<rparr>"
  let ?m = "\<lparr>evt_data = ?e, evt_random_id = 7\<rparr>" and ?it = "set_event ?e zero_item"
  note c = demo_client_ok
  have d: "device_of 48 (devs demo_client) = Some (keyboard 48 7)" by (simp add: device_of_def c(4)) (simp add: keyboard_def)
  have id: "di_random_id (d_info (keyboard 48 7)) = 7" "d_stream (keyboard 48 7) = 48" by (simp_all add: keyboard_def)
  have "\<exists>w1. stream_queue_writing_socket (peer_stream demo_client) (peer_code PEER_HEADER_EVENT) (of_nat sizeof_peer_event) (enc_peer_event ?m) demo_client = (Ok (), w1)"
    by (rule send_succeeds[OF ctx_okD(1)[OF c(1)] c(2)]) (simp_all add: sizeof_peer_event_def c)
  then obtain w1 where w1: "dev_handler 48 ?it demo_client = (Ok (), w1)"
    using dev_handler_eq[OF ctx_okD(2)[OF c(1)], of 48 ?it] by (auto simp: d id)
  have "posted demo_client w1 [(16, Msg 2 (enc_peer_event ?m))]"
    using sendsD(2)[OF dev_handler_sends[OF c(1,2) d] w1] by (simp add: id c(3))
  from postedD(3)[OF this, of 16]
  have sent: "outbox (peer_stream demo_client) w1 = outbox (peer_stream demo_client) demo_client @ [Msg 2 (enc_peer_event ?m)]"
    by (simp add: c posts_at_Cons)
  have "event_posts 48 (item_event ?it) = [(48, Evt ?e), (48, Evt syn_report)]"
    by (simp add: event_posts_def dev_consts)
  with event_end_to_end[OF c(1,2) d w1 sent demo_received_ok(1), of "keyboard 48 7", OF _ refl _ demo_received_ok(3)]
  show ?thesis using w1 by (auto simp: demo_received_ok(2) id c(3))
qed

text \<open>C8: Releasing the virtual keys: when \<open>dev_release_virt_keys_all\<close> returns, every device that has keys
  has been sent, after what was already queued for it, one key-up event for each key it can send and
  then one SYN report; devices without keys have been sent nothing.\<close>

theorem all_keys_released:
  assumes "server_ok w" "distinct (map d_stream (devs w))" "dev_release_virt_keys_all w = (Ok (), w')" "d \<in> set (devs w)"
  shows "outbox (d_stream d) w' = outbox (d_stream d) w @ map Evt
     (if has_bit (di_evtbit (d_info d)) EV_KEY
      then map key_up (filter (has_bit (di_keybit (d_info d))) [0..<KEY_MAX]) @ [syn_report] else [])"
proof -
  have "posts_at (d_stream d) (release_posts ds) = map Evt (release_events (d_info d))"
    if "d \<in> set ds" "distinct (map d_stream ds)" for ds
    using that
  proof (induction ds)
    case (Cons c ds)
    have no: "posts_at b (release_posts es) = []" if "b \<notin> d_stream ` set es" for b es
      using that by (intro posts_at_none) (auto simp: release_posts_def)
    show ?case
    proof (cases "c = d")
      case True
      then have "d_stream d \<notin> d_stream ` set ds" using Cons.prems(2) by simp
      then show ?thesis using no[of "d_stream d" ds] True
        by (simp add: release_posts_def posts_at_all comp_def)
    next
      case False
      then have "d \<in> set ds" "d_stream c \<noteq> d_stream d" using Cons.prems by auto
      then have "posts_at (d_stream d) (map (\<lambda>e. (d_stream c, Evt e)) (release_events (d_info c))) = []"
        by (intro posts_at_none) auto
      then show ?thesis using Cons.IH Cons.prems \<open>d \<in> set ds\<close> by (simp add: release_posts_def)
    qed
  qed simp
  from this[OF assms(4,2)] sendsD(2)[OF release_all_sends[OF assms(1)] assms(3) refl]
  show ?thesis by (simp add: posted_def release_events_def)
qed

theorem all_keys_released_witness:
  "let w = demo_server RCN_RUNNING PEER_CONNECTED in \<exists>w'. dev_release_virt_keys_all w = (Ok (), w') \<and>
     outbox 48 w' = [Evt (key_up 30), Evt syn_report]"
proof -
  let ?w = "demo_server RCN_RUNNING PEER_CONNECTED"
  have id: "d_stream (keyboard 48 7) = 48" by (simp add: keyboard_def)
  obtain w' where r: "dev_release_virt_keys_all ?w = (Ok (), w')"
    using release_all_succeeds[OF demo_server_ok(1)] by (auto simp: demo_server_ok release_keyboard id room_demo)
  have "outbox 48 w' = [Evt (key_up 30), Evt syn_report]"
    using all_keys_released[OF demo_server_ok(1) _ r, of "keyboard 48 7"]
      release_keyboard[of 48 7] demo_server_ok(3,13) by (simp add: release_events_def id)
  with r show ?thesis by auto
qed

text \<open>Releasing cannot fail while the queues of the devices have room for the key-up events: it
  returns without asking for memory, whatever else the daemon is doing.\<close>

theorem release_succeeds:
  assumes "server_ok w" "distinct (map d_stream (devs w))"
    and "\<forall>d \<in> set (devs w). length (release_events (d_info d)) \<le> room (d_stream d) w"
  shows "\<exists>w'. dev_release_virt_keys_all w = (Ok (), w')"
  using assms by (rule release_all_succeeds)

theorem release_succeeds_witness:
  "\<exists>w'. dev_release_virt_keys_all (demo_server RCN_PAUSED PEER_DISCONNECTED) = (Ok (), w')"
  using release_succeeds[OF demo_server_ok(1)[of RCN_PAUSED PEER_DISCONNECTED]]
  by (simp add: demo_server_ok release_keyboard room_demo) (simp add: keyboard_def room_demo)

text \<open>C37: The device list.  Asked for the list, a daemon sends the asking relay one message with an
  entry for every device, in order; the relay that receives it prints the first, third, fifth, ...
  device only, because its loop counts twice.\<close>

theorem list_prints_every_second:
  assumes "ctx_ok w" "connected a w" "\<forall>d \<in> set (devs w). info_wf (d_info d)" "relay_handler_list a w = (Ok (), w')"
    and "outbox a w' = outbox a w @ [Msg v body]" "length body < 2 ^ 64"
  shows "handle_request v (of_nat (length body)) body =
    Some (if devs w = [] then Out_no_devices else Out_devices (every_second (map device_line (devs w))))"
proof -
  from postedD(3)[OF sendsD(2)[OF list_sends[OF assms(1-3)] assms(4) refl], of a] assms(5)
  have m: "v = relay_code RELAY_HEADER_LIST" "body = list_body (devs w)" by (simp_all add: posts_at_Cons)
  have "relay_of_code v = Some RELAY_HEADER_LIST" unfolding m by (rule relay_of_code)
  then show ?thesis using request_list_spec[OF assms(3)] assms(6) m by (simp add: handle_request_def)
qed

theorem list_prints_every_second_witness:
  "let w = ctx_of demo_mem [keyboard 48 7, keyboard 48 8, (keyboard 48 9)\<lparr>d_grabbed := False\<rparr>] [32] 16 DAEMON_SERVER RCN_RUNNING PEER_CONNECTED in
   \<exists>w' v body. relay_handler_list 32 w = (Ok (), w') \<and> outbox 32 w' = [Msg v body] \<and>
     handle_request v (of_nat (length body)) body = Some (Out_devices [([], True), ([], False)])"
proof -
  let ?ds = "[keyboard 48 7, keyboard 48 8, (keyboard 48 9)\<lparr>d_grabbed := False\<rparr>]"
  let ?w = "ctx_of demo_mem ?ds [32] 16 DAEMON_SERVER RCN_RUNNING PEER_CONNECTED"
  have ds: "devs ?w = ?ds" by (simp add: array_of_inv)
  have ok: "ctx_ok ?w"
    by (rule server_okD(1), rule ctx_of_server_ok[OF demo_mem_ok]) (auto simp: keyboard_def intro: demo_mem_connected)
  have con: "connected 32 ?w" by (simp add: demo_mem_connected)
  have wf: "\<forall>d \<in> set (devs ?w). info_wf (d_info d)"
    unfolding ds by (simp add: keyboard_def info_wf_def zero_info_def dev_consts)
  have lines: "map device_line ?ds = [([], True), ([], True), ([], False)]"
    by (simp add: device_line_def keyboard_def zero_info_def dev_consts)
  have "room 32 ?w = 10" by (simp add: room_def demo_mem_def mem_of_def fresh_stream_def array_of_def)
  then obtain w' where w': "relay_handler_list 32 ?w = (Ok (), w')"
    using list_succeeds[OF ok con wf] ds by (auto simp: has_room_iff demo_mem_def mem_of_def sizeof_relay_entry_def)
  let ?b = "list_body ?ds"
  have "outbox 32 w' = outbox 32 ?w @ [Msg (relay_code RELAY_HEADER_LIST) ?b]"
    using postedD(3)[OF sendsD(2)[OF list_sends[OF ok con wf] w' refl], of 32] ds by (simp add: posts_at_Cons)
  moreover have "length ?b < 2 ^ 64" using length_list_body[OF wf] ds by (simp add: sizeof_relay_entry_def)
  ultimately have "handle_request (relay_code RELAY_HEADER_LIST) (of_nat (length ?b)) ?b =
      Some (Out_devices (every_second (map device_line ?ds)))"
    using list_prints_every_second[OF ok con wf w'] ds by simp
  then show ?thesis using w' \<open>outbox 32 w' = _\<close> lines
    by (auto simp: demo_mem_connected)
qed

text \<open>C38: An event for a device the server does not know is not refused: \<open>dev_find_by_id\<close> leaves its
  out parameter at the last device it has looked at, so the event is played on that device.\<close>

theorem unknown_device_event:
  assumes "server_ok w" "devs w \<noteq> []" "\<forall>d \<in> set (devs w). di_random_id (d_info d) \<noteq> evt_random_id m"
    and "received (peer_code PEER_HEADER_EVENT) (enc_peer_event m) it w"
  shows "sends (event_posts (d_stream (last (devs w))) (evt_data m)) (p_handler E a it) w"
proof -
  have "devs w ! id_index (evt_random_id m) (devs w) = last (devs w)"
    using id_index_missing[OF assms(3)] assms(2) by (simp add: last_conv_nth)
  then show ?thesis using p_handler_event_sends[OF assms(1,2,4), of E a]
    by (simp add: emit_posts_def event_posts_def Let_def)
qed

theorem unknown_device_event_witness:
  "let e = \<lparr>tv_sec = 0, tv_usec = 0, ev_type = 1, ev_code = 30, ev_value = 1\<rparr> in
   \<forall>E. sends [(48, Evt e)] (p_handler E 16 (with_body 2)) (demo_received (enc_peer_event \<lparr>evt_data = e, evt_random_id = 99\<rparr>))"
proof -
  let ?e = "\<lparr>tv_sec = 0, tv_usec = 0, ev_type = 1, ev_code = 30, ev_value = 1\<rparr>"
  let ?m = "\<lparr>evt_data = ?e, evt_random_id = 99\<rparr>"
  have "received (peer_code PEER_HEADER_EVENT) (enc_peer_event ?m) (with_body 2) (demo_received (enc_peer_event ?m))"
    using demo_received_ok(3)[of 2 "enc_peer_event ?m"] by simp
  from unknown_device_event[OF demo_received_ok(1) _ _ this] show ?thesis
    by (simp add: demo_received_ok(2) event_posts_def dev_consts) (simp add: keyboard_def)
qed

text \<open>A grab notification sets the flag of exactly the device with its random id and changes nothing
  else in the daemon.\<close>

lemma grab_update:
  assumes "arr_inv (devices w)" "d \<in> set (devs w)" "distinct (map (\<lambda>d. di_random_id (d_info d)) (devs w))"
    and "received (peer_code PEER_HEADER_DEV_UPD_GRAB) (enc_upd_grab \<lparr>upd_random_id = di_random_id (d_info d), upd_grab = g\<rparr>) it w"
  shows "\<exists>w'. p_handler E a it w = (Ok (), w') \<and> w' = w\<lparr>devices := devices w'\<rparr> \<and> arr_inv (devices w') \<and>
    devs w' = map (\<lambda>c. if di_random_id (d_info c) = di_random_id (d_info d) then c\<lparr>d_grabbed := g\<rparr> else c) (devs w)"
proof -
  let ?id = "di_random_id (d_info d)" and ?m = "\<lparr>upd_random_id = di_random_id (d_info d), upd_grab = g\<rparr>"
  let ?k = "id_index ?id (devs w)"
  have ne: "devs w \<noteq> []" using assms(2) by auto
  note k = id_index_less[OF ne, of ?id]
  have at: "devs w ! ?k = d" by (rule id_index_distinct[OF assms(2,3)])
  have code: "peer_of_code (h_value (msg_header it)) = Some PEER_HEADER_DEV_UPD_GRAB"
    using assms(4) unfolding received_def by (simp only: peer_of_code)
  have "dec_upd_grab (take 9 (enc_upd_grab ?m)) = ?m"
    by (simp add: dec_upd_grab_def enc_upd_grab_def enc_bool_def field_def nth_append)
  then have eq: "p_handler E a it w = store_dev ?k (d\<lparr>d_grabbed := g\<rparr>) w"
    using code assms(4) dev_find_by_id_spec[OF assms(1)] load_dev_ok[OF assms(1) k] ne at
    by (simp add: p_handler_def peer_handler_dev_upd_grab_def received_def load_struct_def check_def sizeof_upd_grab_def Let_def)
  from store_dev_ok[OF assms(1) k] obtain w' where w': "store_dev ?k (d\<lparr>d_grabbed := g\<rparr>) w = (Ok (), w')"
    "w' = w\<lparr>devices := devices w'\<rparr>" "arr_inv (devices w')" "devs w' = (devs w)[?k := d\<lparr>d_grabbed := g\<rparr>]" by blast
  have "(devs w)[?k := d\<lparr>d_grabbed := g\<rparr>] = map (\<lambda>c. if di_random_id (d_info c) = ?id then c\<lparr>d_grabbed := g\<rparr> else c) (devs w)"
  proof (rule nth_equalityI)
    fix i assume "i < length ((devs w)[?k := d\<lparr>d_grabbed := g\<rparr>])"
    then have i: "i < length (devs w)" by simp
    have "di_random_id (d_info (devs w ! i)) = ?id \<longleftrightarrow> i = ?k"
      using nth_eq_iff_index_eq[OF assms(3), of i ?k] i k at by simp
    then show "(devs w)[?k := d\<lparr>d_grabbed := g\<rparr>] ! i =
        map (\<lambda>c. if di_random_id (d_info c) = ?id then c\<lparr>d_grabbed := g\<rparr> else c) (devs w) ! i"
      using i k at by (auto simp: nth_list_update)
  qed simp
  then show ?thesis using eq w' by auto
qed

theorem grab_update_witness:
  "\<forall>E. \<exists>w'. p_handler E 16 (with_body 1) (demo_received (enc_upd_grab \<lparr>upd_random_id = 7, upd_grab = False\<rparr>)) = (Ok (), w') \<and>
    devs w' = [(keyboard 48 7)\<lparr>d_grabbed := False\<rparr>]"
proof
  fix E
  let ?b = "enc_upd_grab \<lparr>upd_random_id = 7, upd_grab = False\<rparr>"
  have id: "di_random_id (d_info (keyboard 48 7)) = 7" by (simp add: keyboard_def)
  note dr = demo_received_ok[where body="?b"]
  have rcv: "received (peer_code PEER_HEADER_DEV_UPD_GRAB) (enc_upd_grab \<lparr>upd_random_id = di_random_id (d_info (keyboard 48 7)), upd_grab = False\<rparr>)
      (with_body 1) (demo_received ?b)"
    unfolding id using dr(3)[of 1] by simp
  show "\<exists>w'. p_handler E 16 (with_body 1) (demo_received ?b) = (Ok (), w') \<and> devs w' = [(keyboard 48 7)\<lparr>d_grabbed := False\<rparr>]"
    using grab_update[OF ctx_okD(2)[OF server_okD(1)[OF dr(1)]] _ _ rcv, of E 16] dr(2) by auto
qed

text \<open>A grab notification before any device has been announced dereferences the null pointer.\<close>

theorem grab_update_without_devices:
  assumes "arr_inv (devices w)" "devs w = []" "received (peer_code PEER_HEADER_DEV_UPD_GRAB) body it w" "9 \<le> length body"
  shows "fst (p_handler E a it w) = Undef"
proof -
  have "peer_of_code (h_value (msg_header it)) = Some PEER_HEADER_DEV_UPD_GRAB"
    using assms(3) unfolding received_def by (simp only: peer_of_code)
  then show ?thesis using assms dev_find_by_id_spec[OF assms(1)]
    by (simp add: p_handler_def peer_handler_dev_upd_grab_def received_def load_struct_def check_def Let_def undef_def)
qed

theorem grab_update_without_devices_witness:
  "\<forall>E. fst (p_handler E 16 (with_body 1) ((demo_received (replicate 16 0))\<lparr>devices := array_of 1768 10 []\<rparr>)) = Undef"
proof
  fix E
  let ?w = "(demo_received (replicate 16 0))\<lparr>devices := array_of 1768 10 []\<rparr>"
  have "received (peer_code PEER_HEADER_DEV_UPD_GRAB) (replicate 16 0) (with_body 1) ?w"
    using demo_received_ok(3)[of 1 "replicate 16 0"] by (simp add: received_def)
  from grab_update_without_devices[OF _ _ this, of E 16]
  show "fst (p_handler E 16 (with_body 1) ?w) = Undef" by (simp add: array_of_inv)
qed

text \<open>C39: The handlers use the body of a message without looking at its announced size: an event
  message whose body is shorter than the struct makes the server read beyond the block.\<close>

theorem short_event_undefined:
  assumes "received (peer_code PEER_HEADER_EVENT) body it w" "length body < sizeof_peer_event"
  shows "fst (p_handler E a it w) = Undef"
  using p_handler_event[OF assms(1), of E a] assms(2) by simp

theorem short_event_undefined_witness:
  "\<forall>E. fst (p_handler E 16 (with_body 2) (demo_received [1, 2, 3])) = Undef"
  using short_event_undefined[of "[1, 2, 3]" "with_body 2" "demo_received [1, 2, 3]"] demo_received_ok(3)[of 2 "[1, 2, 3]"]
  by (simp add: sizeof_peer_event_def)

text \<open>A relay that resumes a paused server whose peer has gone makes it queue the message on a
  stream that no longer exists (\<open>peer_stream\<close> is null or dangling): \<open>peer_state\<close> is not looked at.\<close>

theorem resume_without_peer_undefined:
  assumes "server_ok w" "d_type w = DAEMON_SERVER" "d_state w = RCN_PAUSED" "devs w = []"
    and "m_streams w (peer_stream w) = None" "fresh 0 w" "heap_ok w"
    and "h = RELAY_HEADER_RESUME \<or> h = RELAY_HEADER_SWITCH" "h_value (msg_header it) = relay_code h"
  shows "fst (r_handler E a it w) = Undef"
proof -
  have "relay_of_code (h_value (msg_header it)) = Some h" unfolding assms(9) by (rule relay_of_code)
  then have eq: "r_handler E a it w = relay_handler_resume E a w" using assms(3,8)
    by (auto simp: r_handler_def relay_handler_switch_def check_def gets_def)
  have "unat (arr_length (devices w)) = 0"
    using length_elems[OF ctx_okD(2)[OF server_okD(1)[OF assms(1)]]] assms(4) by simp
  then have "dev_release_virt_keys_all w = (Ok (), w)"
    by (simp add: dev_release_virt_keys_all_def for_devices_def check_def gets_def ret_def)
  then have "relay_handler_resume E a w = check (send_header (peer_stream w) (peer_code PEER_HEADER_RESUME)) (\<lambda>_. set_rcn_state RCN_RUNNING) w"
    using assms(2,3) by (simp add: relay_handler_resume_def ctrl_by_type_def check_def gets_def)
  moreover have "fst (send_header (peer_stream w) (peer_code PEER_HEADER_RESUME) w) = Undef"
    by (rule send_gone_undefined) (use assms in simp_all)
  ultimately show ?thesis unfolding eq by (simp add: check_def split: prod.splits res.splits)
qed

theorem resume_without_peer_undefined_witness:
  "\<forall>E. fst (r_handler E 32 (with_header (relay_code RELAY_HEADER_RESUME))
     (ctx_of demo_mem [] [32] 0 DAEMON_SERVER RCN_PAUSED PEER_DISCONNECTED)) = Undef"
proof
  fix E
  let ?w = "ctx_of demo_mem [] [32] 0 DAEMON_SERVER RCN_PAUSED PEER_DISCONNECTED"
  have "server_ok ?w" by (rule ctx_of_server_ok[OF demo_mem_ok]) (auto intro: demo_mem_connected)
  moreover from this have "heap_ok ?w" by (auto dest: server_okD ctx_okD mem_okD)
  ultimately show "fst (r_handler E 32 (with_header (relay_code RELAY_HEADER_RESUME)) ?w) = Undef"
    by (intro resume_without_peer_undefined[where h=RELAY_HEADER_RESUME])
      (simp_all add: array_of_inv demo_mem_def mem_of_def fresh_def granted_def)
qed

end
