(* ===== verification/Rcn_Client.thy ===== *)
theory Rcn_Client
  imports Rcn_Server
begin

section \<open>A client and its devices\<close>

text \<open>
  Pausing a client gives its devices back to the machine, resuming it takes them: \<open>dev_ctrl_devices\<close>
  releases or grabs every event file, takes it out of or puts it into the interest list and tells the server.
\<close>

definition set_grab :: "bool \<Rightarrow> device \<Rightarrow> device" where
  "set_grab g d = d\<lparr>d_grabbed := g\<rparr>"

definition grab_msg :: "bool \<Rightarrow> device \<Rightarrow> out_entry" where
  "grab_msg g d = Msg (peer_code PEER_HEADER_DEV_UPD_GRAB)
     (enc_upd_grab \<lparr>upd_random_id = di_random_id (d_info d), upd_grab = g\<rparr>)"

definition fd_at :: "'z mem_scheme \<Rightarrow> addr \<Rightarrow> int option" where
  "fd_at w a = map_option s_fd (m_streams w a)"

text \<open>A client whose devices and peer have live streams with descriptors of their own.\<close>

definition client_ok :: "d_context \<Rightarrow> bool" where
  "client_ok w \<longleftrightarrow> mem_ok w \<and> arr_inv (devices w) \<and> connected (peer_stream w) w \<and>
     (\<forall>d \<in> set (devs w). \<exists>fd. fd_at w (d_stream d) = Some fd \<and> fd_at w (peer_stream w) \<noteq> Some fd)"

text \<open>After the first \<open>k\<close> devices.\<close>

definition grabbed_upto :: "bool \<Rightarrow> d_context \<Rightarrow> nat \<Rightarrow> d_context \<Rightarrow> bool" where
  "grabbed_upto g w0 k w \<longleftrightarrow> client_ok w0 \<and> client_ok w \<and> peer_stream w = peer_stream w0 \<and> fd_at w = fd_at w0 \<and>
     devs w = map (set_grab g) (take k (devs w0)) @ drop k (devs w0) \<and>
     outbox (peer_stream w0) w = outbox (peer_stream w0) w0 @ map (grab_msg g) (take k (devs w0)) \<and>
     (\<forall>d \<in> set (take k (devs w0)). \<forall>fd. fd_at w0 (d_stream d) = Some fd \<longrightarrow>
        k_grab w fd = g \<and> (k_epoll w fd \<noteq> None \<longleftrightarrow> g))"

lemma drain_events_pure: "m_streams w (d_stream d) \<noteq> None \<Longrightarrow> \<exists>q. drain_events E d w = (q, w) \<and> q \<noteq> Undef"
proof -
  have "drain_keys ks \<noteq> Undef" for ks by (induction ks rule: drain_keys.induct) auto
  then show "m_streams w (d_stream d) \<noteq> None \<Longrightarrow> ?thesis"
    by (auto simp: drain_events_def op_simps deref_def)
qed

text \<open>The part of the loop body that asks the kernel and tells the server.\<close>

lemma grab_eq:
  assumes c: "client_ok w" and k: "k < length (devs w)" and fd: "fd_at w (d_stream (devs w ! k)) = Some fd"
  obtains q w2 where "drain_events E (devs w ! k) w = (q, w)" "q \<noteq> Undef"
    "w2 = w\<lparr>k_grab := (k_grab w)(fd := (ctrl = DEV_CTRL_CAPTURE)), devices := devices w2\<rparr>"
    "arr_inv (devices w2)" "devs w2 = (devs w)[k := set_grab (ctrl = DEV_CTRL_CAPTURE) (devs w ! k)]"
    "dev_grab_device_by_ptr E k ctrl w = (case q of Fail \<Rightarrow> (Fail, w) | Undef \<Rightarrow> (Undef, w)
      | Ok _ \<Rightarrow> if e_grab E fd then stream_queue_writing_socket (peer_stream w) (peer_code PEER_HEADER_DEV_UPD_GRAB)
          (of_nat sizeof_upd_grab) (enc_upd_grab \<lparr>upd_random_id = di_random_id (d_info (devs w ! k)),
            upd_grab = (ctrl = DEV_CTRL_CAPTURE)\<rparr>) w2 else (Fail, w))"
proof -
  let ?d = "devs w ! k" and ?g = "ctrl = DEV_CTRL_CAPTURE"
  have ok: "arr_inv (devices w)" using c by (simp add: client_ok_def)
  obtain s where s: "m_streams w (d_stream ?d) = Some s" "s_fd s = fd" using fd by (auto simp: fd_at_def)
  obtain q where q: "drain_events E ?d w = (q, w)" "q \<noteq> Undef" using drain_events_pure[of w ?d E] s(1) by auto
  let ?w1 = "w\<lparr>k_grab := (k_grab w)(fd := ?g)\<rparr>"
  obtain w2 where w2: "store_dev k (?d\<lparr>d_grabbed := ?g\<rparr>) ?w1 = (Ok (), w2)" "w2 = ?w1\<lparr>devices := devices w2\<rparr>"
    "arr_inv (devices w2)" "devs w2 = (devs w)[k := ?d\<lparr>d_grabbed := ?g\<rparr>]"
    using store_dev_ok[of ?w1 k "?d\<lparr>d_grabbed := ?g\<rparr>"] ok k by auto
  show thesis
    by (rule that[OF q, of w2], use w2(2) in simp, rule w2(3), use w2(4) in \<open>simp add: set_grab_def\<close>)
      (use s q(1) w2(1) w2(2)[THEN arg_cong, of peer_stream] load_dev_ok[OF ok k] in
        \<open>cases q; simp add: dev_grab_device_by_ptr_def check_def deref_def check_not_def fail_def modify_def gets_def\<close>)
qed

lemma grab_one:
  assumes c: "client_ok w" and k: "k < length (devs w)" and fd: "fd_at w (d_stream (devs w ! k)) = Some fd"
    and r: "dev_grab_device_by_ptr E k ctrl w = (r, w')"
  shows "r = Fail \<or> r = Ok () \<and> client_ok w' \<and> peer_stream w' = peer_stream w \<and> fd_at w' = fd_at w \<and>
    devs w' = (devs w)[k := set_grab (ctrl = DEV_CTRL_CAPTURE) (devs w ! k)] \<and>
    outbox (peer_stream w) w' = outbox (peer_stream w) w @ [grab_msg (ctrl = DEV_CTRL_CAPTURE) (devs w ! k)] \<and>
    k_grab w' = (k_grab w)(fd := (ctrl = DEV_CTRL_CAPTURE)) \<and> (\<forall>f. k_epoll w' f = None \<longleftrightarrow> k_epoll w f = None) \<and> k_open w' = k_open w"
proof -
  let ?d = "devs w ! k" and ?g = "ctrl = DEV_CTRL_CAPTURE" and ?p = "peer_stream w"
  have ok: "mem_ok w" "arr_inv (devices w)" "connected ?p w" using c by (simp_all add: client_ok_def)
  let ?m = "enc_upd_grab \<lparr>upd_random_id = di_random_id (d_info ?d), upd_grab = ?g\<rparr>"
  let ?send = "stream_queue_writing_socket ?p (peer_code PEER_HEADER_DEV_UPD_GRAB) (of_nat sizeof_upd_grab) ?m"
  obtain q w2 where "drain_events E ?d w = (q, w)" and q: "q \<noteq> Undef" and w2: "w2 = w\<lparr>k_grab := (k_grab w)(fd := ?g), devices := devices w2\<rparr>"
    and inv2: "arr_inv (devices w2)" and devs2: "devs w2 = (devs w)[k := set_grab ?g ?d]"
    and eq: "dev_grab_device_by_ptr E k ctrl w = (case q of Fail \<Rightarrow> (Fail, w) | Undef \<Rightarrow> (Undef, w)
      | Ok _ \<Rightarrow> if e_grab E fd then ?send w2 else (Fail, w))"
    by (rule grab_eq[OF c k fd, where E = E and ctrl = ctrl])
  show ?thesis
  proof (cases "q = Ok () \<and> e_grab E fd")
    case False
    then show ?thesis using eq r q by (cases q) auto
  next
    case True
    then have r3: "?send w2 = (r, w')" using eq r by simp
    have "mem_ok w2 = mem_ok w" "connected ?p w2 = connected ?p w"
      by (subst w2; simp add: mem_ok_def heap_ok_def connected_def)+
    then have ok2: "mem_ok w2" "connected ?p w2" using ok by simp_all
    have len: "unat (of_nat sizeof_upd_grab :: u64) = length ?m" by (simp add: sizeof_upd_grab_def)
    have sends: "sends [(?p, grab_msg ?g ?d)] ?send w2"
      using sends_socket[OF ok2, of "of_nat sizeof_upd_grab" ?m] len by (simp add: grab_msg_def)
    show ?thesis
    proof (cases r)
      case (Ok u)
      have p: "posted w2 w' [(?p, grab_msg ?g ?d)]" using sendsD(2)[OF sends r3] Ok by simp
      note b = same_base_ctx[OF postedD(2)[OF p]]
      have sb: "same_base w2 w'" by (rule postedD(2)[OF p])
      have fds: "fd_at w' = fd_at w"
        using sb by (subst (asm) w2) (auto simp: same_base_def fd_at_def fun_eq_iff)
      have "outbox ?p w2 = outbox ?p w" by (subst w2) (simp add: outbox_def cong: option.case_cong)
      then have out: "outbox ?p w' = outbox ?p w @ [grab_msg ?g ?d]"
        using postedD(3)[OF p, of ?p] by (simp add: posts_at_Cons)
      have "k_open w2 = k_open w" "k_epoll w2 = k_epoll w" "k_grab w2 = (k_grab w)(fd := ?g)" "peer_stream w2 = ?p"
        by (subst w2; simp)+
      then have f: "k_open w' = k_open w" "\<forall>f. k_epoll w' f = None \<longleftrightarrow> k_epoll w f = None" "k_grab w' = (k_grab w)(fd := ?g)"
        "peer_stream w' = ?p" using sb b by (simp_all add: same_base_def)
      have d': "devs w' = (devs w)[k := set_grab ?g ?d]" using devs2 b(1) by simp
      have "client_ok w'" unfolding client_ok_def fds f(4) d'
      proof (intro conjI)
        show "\<forall>d \<in> set ((devs w)[k := set_grab ?g ?d]). \<exists>fd. fd_at w (d_stream d) = Some fd \<and> fd_at w ?p \<noteq> Some fd"
          using c k by (auto simp: client_ok_def set_grab_def dest!: subsetD[OF set_update_subset_insert])
      qed (use postedD(1,4)[OF p] ok2 inv2 b(1) in simp_all)
      then show ?thesis using Ok fds f d' out by simp
    qed (use sendsD(1)[OF sends r3] in simp_all)
  qed
qed

lemma ctrl_epoll_eq:
  assumes "m_streams w a = Some s"
  shows "\<exists>w'. ctrl_epoll ctrl a w = (Fail, w) \<or> ctrl_epoll ctrl a w = (Ok (), w') \<and> w' = w\<lparr>k_epoll := k_epoll w'\<rparr> \<and>
    (k_epoll w' (s_fd s) \<noteq> None \<longleftrightarrow> ctrl = DEV_CTRL_CAPTURE) \<and> (\<forall>f. f \<noteq> s_fd s \<longrightarrow> k_epoll w' f = k_epoll w f)"
  using assms by (cases ctrl; cases "k_open w (s_fd s)"; cases "k_epoll w (s_fd s)")
    (auto simp: ctrl_epoll_def check_def deref_def epoll_ctl_del_def epoll_ctl_add_def)

lemma ctrl_round:
  assumes i: "k < length (devs w0)"
  shows "valid (grabbed_upto (ctrl = DEV_CTRL_CAPTURE) w0 k)
    (check (on_devices (u_array_getr (of_nat k))) (\<lambda>k. check (dev_grab_device_by_ptr E k ctrl)
      (\<lambda>_. check (load_dev k) (\<lambda>d. ctrl_epoll ctrl (d_stream d)))))
    (\<lambda>_. grabbed_upto (ctrl = DEV_CTRL_CAPTURE) w0 (Suc k)) (\<lambda>_. True)"
  unfolding valid_def
proof (intro allI impI)
  fix w assume g: "grabbed_upto (ctrl = DEV_CTRL_CAPTURE) w0 k w"
  let ?g = "ctrl = DEV_CTRL_CAPTURE" and ?d = "devs w0 ! k" and ?p = "peer_stream w0"
  have c: "client_ok w" "peer_stream w = ?p" "fd_at w = fd_at w0"
    "devs w = map (set_grab ?g) (take k (devs w0)) @ drop k (devs w0)" using g by (simp_all add: grabbed_upto_def)
  have k: "k < length (devs w)" "devs w ! k = ?d" using i c(4) by (simp_all add: nth_append)
  have inv: "arr_inv (devices w)" using c(1) by (simp add: client_ok_def)
  have "?d \<in> set (devs w)" using nth_mem[OF k(1)] k(2) by simp
  then obtain fd where fd: "fd_at w (d_stream ?d) = Some fd" "fd_at w ?p \<noteq> Some fd"
    using c(1,2) by (auto simp: client_ok_def)
  obtain r w1 where r: "dev_grab_device_by_ptr E k ctrl w = (r, w1)" by fastforce
  note one = grab_one[OF c(1) k(1) _ r, unfolded k(2), OF fd(1)]
  have start: "check (on_devices (u_array_getr (of_nat k))) (\<lambda>k. check (dev_grab_device_by_ptr E k ctrl)
      (\<lambda>_. check (load_dev k) (\<lambda>d. ctrl_epoll ctrl (d_stream d)))) w =
    check (dev_grab_device_by_ptr E k ctrl) (\<lambda>_. check (load_dev k) (\<lambda>d. ctrl_epoll ctrl (d_stream d))) w"
    by (simp add: check_def[of "on_devices _"] getr_dev_ok[OF inv k(1)])
  show "case check (on_devices (u_array_getr (of_nat k))) (\<lambda>k. check (dev_grab_device_by_ptr E k ctrl)
      (\<lambda>_. check (load_dev k) (\<lambda>d. ctrl_epoll ctrl (d_stream d)))) w of
    (Ok a, s') \<Rightarrow> grabbed_upto ?g w0 (Suc k) s' | (Fail, s') \<Rightarrow> True | (Undef, s') \<Rightarrow> False"
  proof (cases "r = Fail")
    case True
    then show ?thesis unfolding start using r by (simp add: check_def)
  next
    case False
    then have o: "r = Ok ()" "client_ok w1" "peer_stream w1 = ?p" "fd_at w1 = fd_at w" "devs w1 = (devs w)[k := set_grab ?g ?d]"
      "outbox ?p w1 = outbox ?p w @ [grab_msg ?g ?d]" "k_grab w1 = (k_grab w)(fd := ?g)"
      "\<forall>f. k_epoll w1 f = None \<longleftrightarrow> k_epoll w f = None"
      using one c(2) by simp_all
    have k1: "k < length (devs w1)" "devs w1 ! k = set_grab ?g ?d" using o(5) k(1) by simp_all
    have inv1: "arr_inv (devices w1)" using o(2) by (simp add: client_ok_def)
    obtain s where s: "m_streams w1 (d_stream ?d) = Some s" "s_fd s = fd"
      using fd(1) fun_cong[OF o(4), of "d_stream ?d"] by (auto simp: fd_at_def)
    have go: "check (dev_grab_device_by_ptr E k ctrl) (\<lambda>_. check (load_dev k) (\<lambda>d. ctrl_epoll ctrl (d_stream d))) w =
        ctrl_epoll ctrl (d_stream ?d) w1"
      using r o(1) load_dev_ok[OF inv1 k1(1)] k1(2) by (simp add: check_def set_grab_def)
    obtain w2 where "ctrl_epoll ctrl (d_stream ?d) w1 = (Fail, w1) \<or> ctrl_epoll ctrl (d_stream ?d) w1 = (Ok (), w2) \<and>
      w2 = w1\<lparr>k_epoll := k_epoll w2\<rparr> \<and> (k_epoll w2 fd \<noteq> None \<longleftrightarrow> ?g) \<and> (\<forall>f. f \<noteq> fd \<longrightarrow> k_epoll w2 f = k_epoll w1 f)"
      using ctrl_epoll_eq[OF s(1), of ctrl, unfolded s(2)] by (elim exE)
    then show ?thesis
    proof
      assume "ctrl_epoll ctrl (d_stream ?d) w1 = (Fail, w1)"
      then show ?thesis unfolding start go by simp
    next
      assume e: "ctrl_epoll ctrl (d_stream ?d) w1 = (Ok (), w2) \<and>
        w2 = w1\<lparr>k_epoll := k_epoll w2\<rparr> \<and> (k_epoll w2 fd \<noteq> None \<longleftrightarrow> ?g) \<and> (\<forall>f. f \<noteq> fd \<longrightarrow> k_epoll w2 f = k_epoll w1 f)"
      then have w2: "w2 = w1\<lparr>k_epoll := k_epoll w2\<rparr>" by blast
      have f: "peer_stream w2 = ?p" "devices w2 = devices w1" "fd_at w2 = fd_at w0" "outbox ?p w2 = outbox ?p w1"
        "k_grab w2 = k_grab w1" "mem_ok w2 = mem_ok w1"
        using o(3,4) c(3) by (subst w2; simp add: fd_at_def fun_eq_iff outbox_def mem_ok_def heap_ok_def cong: option.case_cong)+
      have take: "take (Suc k) (devs w0) = take k (devs w0) @ [?d]" using i by (simp add: take_Suc_conv_app_nth)
      have d2: "devs w2 = map (set_grab ?g) (take (Suc k) (devs w0)) @ drop (Suc k) (devs w0)"
        using o(5) c(4) i by (simp add: f(2) take list_update_append upd_conv_take_nth_drop)
      have "connected ?p w2"
      proof -
        obtain t where t: "m_streams w1 ?p = Some t" "k_open w1 (s_fd t)" "k_epoll w1 (s_fd t) \<noteq> None"
          using o(2,3) by (auto simp: client_ok_def connected_def)
        moreover have "fd_at w1 ?p = Some (s_fd t)" using t(1) by (simp add: fd_at_def)
        then have "s_fd t \<noteq> fd" using fd(2) o(4) by auto
        moreover have "m_streams w2 = m_streams w1" "k_open w2 = k_open w1" by (subst w2; simp)+
        ultimately show ?thesis using e by (auto simp: connected_def)
      qed
      moreover have "set (devs w2) \<subseteq> set_grab ?g ` set (devs w0) \<union> set (devs w0)"
        unfolding d2 by (auto dest: in_set_takeD in_set_dropD)
      moreover have "\<forall>d \<in> set (devs w0). \<exists>fd. fd_at w0 (d_stream d) = Some fd \<and> fd_at w0 ?p \<noteq> Some fd"
        using g by (simp add: grabbed_upto_def client_ok_def)
      ultimately have "client_ok w2"
        using o(2) f by (fastforce simp: client_ok_def set_grab_def)
      moreover have "k_grab w2 fd' = ?g \<and> (k_epoll w2 fd' \<noteq> None \<longleftrightarrow> ?g)"
        if "d \<in> set (take (Suc k) (devs w0))" "fd_at w0 (d_stream d) = Some fd'" for d fd'
      proof (cases "fd' = fd")
        case True
        then show ?thesis using e f(5) o(7) by simp
      next
        case False
        then have "d \<in> set (take k (devs w0))" using that fd(1) c(3) unfolding take by auto
        then have "k_grab w fd' = ?g \<and> (k_epoll w fd' \<noteq> None \<longleftrightarrow> ?g)" using g that(2) unfolding grabbed_upto_def by blast
        then show ?thesis using e False f(5) o(7,8) by simp
      qed
      ultimately have "grabbed_upto ?g w0 (Suc k) w2"
        using f(1,3) d2 g o(6) f(4) unfolding grabbed_upto_def take by auto
      then show ?thesis unfolding start go using e by simp
    qed
  qed
qed

lemma ctrl_devices_spec:
  assumes "client_ok w"
  shows "case dev_ctrl_devices E ctrl w of (Ok _, w') \<Rightarrow> grabbed_upto (ctrl = DEV_CTRL_CAPTURE) w (length (devs w)) w'
    | (Fail, _) \<Rightarrow> True | (Undef, _) \<Rightarrow> False"
proof -
  let ?g = "ctrl = DEV_CTRL_CAPTURE"
  let ?body = "\<lambda>i. check (on_devices (u_array_getr (of_nat i))) (\<lambda>k. check (dev_grab_device_by_ptr E k ctrl)
      (\<lambda>_. check (load_dev k) (\<lambda>d. ctrl_epoll ctrl (d_stream d))))"
  have "valid (grabbed_upto ?g w 0) (for_each ?body [0..<length (devs w)]) (\<lambda>_. grabbed_upto ?g w (length (devs w))) (\<lambda>_. True)"
    by (rule valid_for_upt) (rule ctrl_round)
  then have v: "case for_each ?body [0..<length (devs w)] w of (Ok _, w') \<Rightarrow> grabbed_upto ?g w (length (devs w)) w'
      | (Fail, _) \<Rightarrow> True | (Undef, _) \<Rightarrow> False"
    using assms by (simp add: valid_def grabbed_upto_def)
  have "arr_inv (devices w)" using assms by (simp add: client_ok_def)
  then have eq: "dev_ctrl_devices E ctrl w = for_each ?body [0..<length (devs w)] w"
    by (simp add: dev_ctrl_devices_def for_devices_def check_def[of "gets _"] gets_def length_elems)
  show ?thesis using v unfolding eq .
qed

subsection \<open>Control succeeds\<close>

text \<open>A kernel that lets every device be grabbed and released.\<close>

definition yields :: "kenv \<Rightarrow> d_context \<Rightarrow> device \<Rightarrow> bool" where
  "yields E w d \<longleftrightarrow> (\<exists>fd. fd_at w (d_stream d) = Some fd \<and> 0 < fd \<and> k_open w fd \<and>
     drain_keys (e_keys E fd) = Ok () \<and> e_grab E fd)"

definition ctrl_budget :: "bool \<Rightarrow> d_context \<Rightarrow> nat \<Rightarrow> d_context \<Rightarrow> bool" where
  "ctrl_budget g w0 i w \<longleftrightarrow> grabbed_upto g w0 i w \<and> k_open w = k_open w0 \<and>
     ample (16 * (length (devs w0) - i)) w \<and> length (devs w0) - i \<le> room (peer_stream w0) w"

lemma ctrl_round_succeeds:
  assumes i: "i < length (devs w0)" and b: "ctrl_budget (ctrl = DEV_CTRL_CAPTURE) w0 i w" and env: "\<forall>d \<in> set (devs w0). yields E w0 d"
  shows "\<exists>w'. check (on_devices (u_array_getr (of_nat i))) (\<lambda>k. check (dev_grab_device_by_ptr E k ctrl)
      (\<lambda>_. check (load_dev k) (\<lambda>d. ctrl_epoll ctrl (d_stream d)))) w = (Ok (), w') \<and>
    ctrl_budget (ctrl = DEV_CTRL_CAPTURE) w0 (Suc i) w'"
proof -
  let ?g = "ctrl = DEV_CTRL_CAPTURE" and ?d = "devs w0 ! i" and ?p = "peer_stream w0" and ?n = "length (devs w0)"
  let ?body = "check (on_devices (u_array_getr (of_nat i))) (\<lambda>k. check (dev_grab_device_by_ptr E k ctrl)
      (\<lambda>_. check (load_dev k) (\<lambda>d. ctrl_epoll ctrl (d_stream d))))"
  note bb = b[unfolded ctrl_budget_def]
  have c: "client_ok w" "peer_stream w = ?p" "fd_at w = fd_at w0" "devs w = map (set_grab ?g) (take i (devs w0)) @ drop i (devs w0)"
    using bb by (simp_all add: grabbed_upto_def)
  have ok: "mem_ok w" "arr_inv (devices w)" "connected ?p w" using c(1,2) by (simp_all add: client_ok_def)
  have k: "i < length (devs w)" "devs w ! i = ?d" using i c(4) by (simp_all add: nth_append)
  obtain n where n: "?n - i = Suc n" using i by (metis Suc_diff_Suc)
  then have n': "?n - Suc i = n" by simp
  obtain fd where fd: "fd_at w (d_stream (devs w ! i)) = Some fd" and y: "0 < fd" "k_open w fd" "drain_keys (e_keys E fd) = Ok ()" "e_grab E fd"
    using bspec[OF env nth_mem[OF i]] c(3) bb k(2) by (auto simp: yields_def)
  obtain s where s: "m_streams w (d_stream ?d) = Some s" "s_fd s = fd" using fd k(2) by (auto simp: fd_at_def)
  let ?m = "enc_upd_grab \<lparr>upd_random_id = di_random_id (d_info ?d), upd_grab = ?g\<rparr>"
  let ?send = "stream_queue_writing_socket (peer_stream w) (peer_code PEER_HEADER_DEV_UPD_GRAB) (of_nat sizeof_upd_grab) ?m"
  obtain q w2 where q: "drain_events E (devs w ! i) w = (q, w)" and w2: "w2 = w\<lparr>k_grab := (k_grab w)(fd := ?g), devices := devices w2\<rparr>"
    and eq: "dev_grab_device_by_ptr E i ctrl w = (case q of Fail \<Rightarrow> (Fail, w) | Undef \<Rightarrow> (Undef, w)
      | Ok _ \<Rightarrow> if e_grab E fd then ?send w2 else (Fail, w))"
    by (rule grab_eq[OF c(1) k(1) fd, where E = E and ctrl = ctrl, unfolded k(2)]) (simp add: k(2))
  have "q = Ok ()" using q s y k(2) by (auto simp: drain_events_def op_simps deref_def split: if_splits)
  moreover have same: "mem_ok w2 = mem_ok w" "connected ?p w2 = connected ?p w" "room ?p w2 = room ?p w" "m_brk w2 = m_brk w" "m_av w2 = m_av w"
    by (subst w2; simp add: mem_ok_def heap_ok_def connected_def room_def cong: option.case_cong)+
  moreover obtain r where r: "room ?p w = Suc r" "n \<le> r" using bb n by (metis Suc_le_D Suc_le_mono)
  moreover have "fresh 16 w2" using bb n same(4,5) by (simp add: fresh_def ample_def)
  moreover have "unat (of_nat sizeof_upd_grab :: u64) = 16" "length ?m = 16" by (simp_all add: sizeof_upd_grab_def)
  ultimately obtain w3 where w3: "dev_grab_device_by_ptr E i ctrl w = (Ok (), w3)" "room ?p w3 = r" "unat (m_brk w3) = unat (m_brk w) + 16"
    "?send w2 = (Ok (), w3)"
    using send_socket_uses_room[of w2 ?p "of_nat sizeof_upd_grab" ?m r "peer_code PEER_HEADER_DEV_UPD_GRAB"] eq y ok c(2) by auto
  have one: "client_ok w3" "fd_at w3 = fd_at w" "devs w3 = (devs w)[i := set_grab ?g ?d]" "k_open w3 = k_open w"
    using grab_one[OF c(1) k(1) fd w3(1)] k(2) by simp_all
  have av: "m_av w3 = m_av w"
    using send_socket_spec[OF _ _ _ w3(4)] ok c(2) same(1,2,5) by (auto simp: same_base_def sizeof_upd_grab_def)
  have inv3: "arr_inv (devices w3)" using one(1) by (simp add: client_ok_def)
  obtain t where t: "m_streams w3 (d_stream ?d) = Some t" "s_fd t = fd"
    using fd k(2) fun_cong[OF one(2), of "d_stream ?d"] by (auto simp: fd_at_def)
  have e: "\<exists>w4. ctrl_epoll ctrl (d_stream ?d) w3 = (Ok (), w4) \<and> w4 = w3\<lparr>k_epoll := k_epoll w4\<rparr>"
    using t y(2) one(4) by (cases ctrl; cases "k_epoll w3 fd") (auto simp: ctrl_epoll_def check_def deref_def epoll_ctl_del_def epoll_ctl_add_def)
  then obtain w4 where w4: "ctrl_epoll ctrl (d_stream ?d) w3 = (Ok (), w4)" "w4 = w3\<lparr>k_epoll := k_epoll w4\<rparr>" by blast
  have "load_dev i w3 = (Ok (set_grab ?g ?d), w3)" using load_dev_ok[OF inv3, of i] one(3) k(1) by simp
  then have ran: "?body w = (Ok (), w4)"
    using getr_dev_ok[OF ok(2) k(1)] w3(1) w4(1) by (simp add: check_def set_grab_def)
  have "grabbed_upto ?g w0 (Suc i) w4" using valid_OkD[OF ctrl_round[OF i] _ ran] bb by simp
  moreover have "k_open w4 = k_open w" "m_brk w4 = m_brk w3" "m_av w4 = m_av w" "room ?p w4 = r"
    by (subst w4(2); use one(4) av w3(2) in \<open>simp add: room_def\<close>)+
  ultimately have "ctrl_budget ?g w0 (Suc i) w4"
    unfolding ctrl_budget_def n' using bb n r(2) w3(3) by (simp add: ample_def)
  then show ?thesis using ran by blast
qed

lemma ctrl_devices_succeed:
  assumes c: "client_ok w" and env: "\<forall>d \<in> set (devs w). yields E w d"
    and mem: "ample (16 * length (devs w)) w" "length (devs w) \<le> room (peer_stream w) w"
  shows "\<exists>w'. dev_ctrl_devices E ctrl w = (Ok (), w')"
proof -
  have "arr_inv (devices w)" using c by (simp add: client_ok_def)
  then have eq: "dev_ctrl_devices E ctrl w = for_each (\<lambda>i. check (on_devices (u_array_getr (of_nat i))) (\<lambda>k. check (dev_grab_device_by_ptr E k ctrl)
      (\<lambda>_. check (load_dev k) (\<lambda>d. ctrl_epoll ctrl (d_stream d))))) [0..<length (devs w)] w"
    (is "_ = for_each ?f _ w")
    by (simp add: dev_ctrl_devices_def for_devices_def check_def[of "gets _"] gets_def length_elems)
  have "ctrl_budget (ctrl = DEV_CTRL_CAPTURE) w 0 w" using c mem by (simp add: ctrl_budget_def grabbed_upto_def)
  then have "\<exists>w'. for_each ?f [0..<length (devs w)] w = (Ok (), w') \<and> ctrl_budget (ctrl = DEV_CTRL_CAPTURE) w (length (devs w)) w'"
    by (rule for_upt_succeeds[rotated]) (rule ctrl_round_succeeds[OF _ _ env])
  then show ?thesis unfolding eq by blast
qed

subsection \<open>Properties\<close>

text \<open>C13: Pausing and resuming on the client.  Unless a call fails, every device in the table, in order, is
  released (or grabbed) in the kernel and in the table, is out of (or in) the interest list of the epoll
  instance, and has been announced to the server with one message behind what was queued before;
  no kernel answer makes it touch a stream or a device that does not exist.\<close>

theorem client_controls_devices:
  assumes "client_ok w"
  shows "case dev_ctrl_devices E ctrl w of
      (Ok _, w') \<Rightarrow> devs w' = map (set_grab (ctrl = DEV_CTRL_CAPTURE)) (devs w) \<and>
        outbox (peer_stream w) w' = outbox (peer_stream w) w @ map (grab_msg (ctrl = DEV_CTRL_CAPTURE)) (devs w) \<and>
        (\<forall>d \<in> set (devs w). \<forall>fd. fd_at w (d_stream d) = Some fd \<longrightarrow>
          k_grab w' fd = (ctrl = DEV_CTRL_CAPTURE) \<and> (k_epoll w' fd \<noteq> None \<longleftrightarrow> ctrl = DEV_CTRL_CAPTURE))
    | (Fail, _) \<Rightarrow> True
    | (Undef, _) \<Rightarrow> False"
proof -
  obtain r w' where r: "dev_ctrl_devices E ctrl w = (r, w')" by fastforce
  show ?thesis using ctrl_devices_spec[OF assms, where E = E and ctrl = ctrl] unfolding r by (cases r) (simp_all add: grabbed_upto_def)
qed

definition granting :: kenv where
  "granting = \<lparr>e_open = (\<lambda>_. None), e_accept = None, e_inet = None, e_setup = True, e_read = (\<lambda>_ _. None),
     e_random = (\<lambda>_. None), e_ui = (\<lambda>_. True), e_grab = (\<lambda>_. True), e_keys = (\<lambda>_. [])\<rparr>"

lemma demo_client_grabs: "client_ok demo_client" "devs demo_client = [keyboard 48 7]" "peer_stream demo_client = 16"
  "fd_at demo_client 48 = Some 7"
proof -
  show d: "devs demo_client = [keyboard 48 7]" "peer_stream demo_client = 16" by (simp_all add: demo_client_def array_of_inv)
  show "fd_at demo_client 48 = Some 7" by (simp add: fd_at_def demo_client_def demo_mem_def mem_of_def)
  show "client_ok demo_client" unfolding client_ok_def d
    by (simp add: demo_client_def demo_mem_ok demo_mem_connected array_of_inv keyboard_def fd_at_def)
      (simp add: demo_mem_def mem_of_def)
qed

theorem client_controls_devices_witness:
  "\<exists>w'. dev_ctrl_devices granting DEV_CTRL_RELEASE demo_client = (Ok (), w') \<and>
    devs w' = [(keyboard 48 7)\<lparr>d_grabbed := False\<rparr>] \<and> k_epoll w' 7 = None \<and> \<not> k_grab w' 7"
proof -
  note demo = demo_client_grabs demo_client_ok(6)
  have "yields granting demo_client (keyboard 48 7)"
    using demo(4) by (simp add: yields_def granting_def keyboard_def) (simp add: demo_client_def demo_mem_def mem_of_def)
  moreover have "ample 16 demo_client" by (simp add: ample_def granted_def demo_client_def demo_mem_def mem_of_def)
  moreover have "1 \<le> room 16 demo_client" using room_demo[of 16] by (simp add: room_def demo_client_def demo_server_def)
  ultimately obtain w' where "dev_ctrl_devices granting DEV_CTRL_RELEASE demo_client = (Ok (), w')"
    using ctrl_devices_succeed[OF demo(1), of granting DEV_CTRL_RELEASE] demo(2,3) by auto
  then show ?thesis
    using client_controls_devices[OF demo_client_grabs(1), where E = granting and ctrl = DEV_CTRL_RELEASE] demo_client_grabs
    by (cases "dev_ctrl_devices granting DEV_CTRL_RELEASE demo_client") (auto simp: set_grab_def keyboard_def simp del: not_None_eq split_paired_All)
qed

end
