(* ===== verification/Rcn_Tables.thy ===== *)
theory Rcn_Tables
  imports Rcn_Daemon
begin

section \<open>The stream tables\<close>

text \<open>
  Three tables refer to the streams of a daemon: the array \<open>stream_ptrs\<close>, the interest list of the
  epoll instance (whose entries carry the pointer \<open>epoll_wait\<close> hands back) and the array of relays.  The
  invariant \<open>tables_ok\<close> says that they only refer to live streams.  It is about operations that
  succeed: a round that fails ends the daemon.
\<close>

subsection \<open>Operations that leave the tables alone\<close>

text \<open>No stream appears, disappears or changes its descriptor or kind; what is registered is a stream
  under its own descriptor, or was registered before.\<close>

definition fd_of :: "epoll_stream \<Rightarrow> int \<times> fd_type" where
  "fd_of s = (s_fd s, s_fd_type s)"

definition frame :: "'z mem_scheme \<Rightarrow> 'z mem_scheme \<Rightarrow> bool" where
  "frame w w' \<longleftrightarrow> unat (m_brk w) \<le> unat (m_brk w') \<and> mem.more w' = mem.more w \<and>
     (\<forall>a. map_option fd_of (m_streams w' a) = map_option fd_of (m_streams w a)) \<and>
     (\<forall>fd m p. k_epoll w' fd = Some (m, p) \<longrightarrow>
        (\<exists>m'. k_epoll w fd = Some (m', p)) \<or> (\<exists>s. m_streams w p = Some s \<and> s_fd s = fd))"

definition frames :: "('a, 'z mem_scheme) op \<Rightarrow> bool" where
  "frames m \<longleftrightarrow> (\<forall>w r w'. m w = (Ok r, w') \<longrightarrow> frame w w')"

named_theorems frames_intros \<open>operations that leave the tables alone\<close>

lemma frame_refl [simp]: "frame w w"
  by (auto simp: frame_def)

lemma frame_stream:
  assumes "frame w w'"
  shows "m_streams w' a = Some s' \<Longrightarrow> \<exists>s. m_streams w a = Some s \<and> fd_of s = fd_of s'"
    and "m_streams w a = Some s \<Longrightarrow> \<exists>s'. m_streams w' a = Some s' \<and> fd_of s' = fd_of s"
proof -
  have "map_option fd_of (m_streams w' a) = map_option fd_of (m_streams w a)" using assms by (simp add: frame_def)
  then show "m_streams w' a = Some s' \<Longrightarrow> \<exists>s. m_streams w a = Some s \<and> fd_of s = fd_of s'"
    and "m_streams w a = Some s \<Longrightarrow> \<exists>s'. m_streams w' a = Some s' \<and> fd_of s' = fd_of s"
    by (cases "m_streams w a"; cases "m_streams w' a"; simp)+
qed

lemma frame_registered:
  assumes "frame w w'" "k_epoll w' fd = Some (m, p)"
  shows "(\<exists>m'. k_epoll w fd = Some (m', p)) \<or> (\<exists>s. m_streams w p = Some s \<and> s_fd s = fd)"
  using assms by (simp add: frame_def)

lemma frame_trans:
  assumes "frame w1 w2" "frame w2 w3"
  shows "frame w1 w3"
proof -
  have "(\<exists>m'. k_epoll w1 fd = Some (m', p)) \<or> (\<exists>s. m_streams w1 p = Some s \<and> s_fd s = fd)"
    if "k_epoll w3 fd = Some (m, p)" for fd m p
    using frame_registered[OF assms(2) that]
  proof
    assume "\<exists>m'. k_epoll w2 fd = Some (m', p)"
    then show ?thesis using frame_registered[OF assms(1)] by blast
  next
    assume "\<exists>s. m_streams w2 p = Some s \<and> s_fd s = fd"
    then obtain s where s: "m_streams w2 p = Some s" "s_fd s = fd" by blast
    from frame_stream(1)[OF assms(1) s(1)] s(2) show ?thesis by (auto simp: fd_of_def)
  qed
  then show ?thesis using assms unfolding frame_def by simp
qed

lemma framesI: "(\<And>w r w'. m w = (Ok r, w') \<Longrightarrow> frame w w') \<Longrightarrow> frames m"
  by (auto simp: frames_def)

lemma framesD: "frames m \<Longrightarrow> m w = (Ok r, w') \<Longrightarrow> frame w w'"
  by (auto simp: frames_def)

lemma frames_basic [frames_intros, simp]:
  "frames (ret x)" "frames fail" "frames undef" "frames (gets f)" "frames (deref a)" "frames (load_next a)"
  by (auto simp: frames_def op_simps deref_def load_next_def split: option.splits if_splits res.splits)

lemma frames_check [frames_intros]: "frames m \<Longrightarrow> (\<And>x. frames (k x)) \<Longrightarrow> frames (check m k)"
  unfolding frames_def check_Ok_iff using frame_trans by blast

lemma frames_check_not [frames_intros]: "frames k \<Longrightarrow> frames (check_not c k)"
  by (simp add: check_not_def)

lemma frames_ignore [frames_intros]:
  "(\<And>w r w'. m w = (r, w') \<Longrightarrow> r \<noteq> Undef \<Longrightarrow> frame w w') \<Longrightarrow> frames k \<Longrightarrow> frames (ignore m k)"
  unfolding frames_def ignore_def by (auto split: prod.splits res.splits) (metis frame_trans res.distinct(3,5))+

lemma frames_on_err [frames_intros]: "frames m \<Longrightarrow> frames (on_err m h)"
  by (auto simp: frames_def on_err_def split: prod.splits res.splits)

lemma frames_for_each [frames_intros]: "(\<And>x. frames (f x)) \<Longrightarrow> frames (for_each f xs)"
  by (induction xs) (auto intro!: frames_intros)

lemma frames_modify [frames_intros]: "(\<And>w. frame w (f w)) \<Longrightarrow> frames (modify f)"
  by (auto simp: frames_def modify_def)

text \<open>Operations inside one stream.\<close>

definition same_fd :: "('a, epoll_stream) op \<Rightarrow> bool" where
  "same_fd m \<longleftrightarrow> (\<forall>s r s'. m s = (r, s') \<longrightarrow> fd_of s' = fd_of s)"

lemma same_fd_intros [frames_intros]:
  "same_fd (on_queue q)" "(\<And>s. fd_of (f s) = fd_of s) \<Longrightarrow> same_fd (modify f)"
  by (auto simp: same_fd_def zoom_def modify_def fd_of_def split: prod.splits)

lemma frames_on_stream [frames_intros]: "same_fd m \<Longrightarrow> frames (on_stream a m)"
  by (auto simp: frames_def frame_def same_fd_def on_stream_def put_stream_def split: option.splits prod.splits)

lemma fd_of_upd [simp]:
  "fd_of (s\<lparr>s_fallback := f\<rparr>) = fd_of s" "fd_of (s\<lparr>s_next := n\<rparr>) = fd_of s" "fd_of (s\<lparr>s_queue := q\<rparr>) = fd_of s"
  "fd_of (s\<lparr>s_default_op := d\<rparr>) = fd_of s" "fd_of (s\<lparr>s_default_type := t\<rparr>) = fd_of s"
  "fd_of (put_next it s) = fd_of s"
  by (simp_all add: fd_of_def put_next_def put_head_def split: next_ptr.split)

lemma frames_free_buffer [frames_intros]: "frames (free_buffer b)"
  by (auto simp: frames_def free_buffer_def frame_def split: if_splits)

lemma frames_sync [frames_intros]: "frames (e_epoll_sync_stream a)"
proof (rule framesI)
  fix w r w' assume "e_epoll_sync_stream a w = (Ok r, w')"
  then obtain s m where "m_streams w a = Some s" "w' = w\<lparr>k_epoll := (k_epoll w)(s_fd s \<mapsto> (m, a))\<rparr>"
    by (auto simp: e_epoll_sync_stream_def check_Ok_iff deref_def load_next_def epoll_ctl_mod_def op_simps
        split: option.splits if_splits ep_res.splits prod.splits)
  then show "frame w w'" by (auto simp: frame_def)
qed

lemma frames_stream_set_default [frames_intros]: "frames (stream_set_default a op ty)"
  unfolding stream_set_default_def Let_def by (auto intro!: frames_intros)

lemma frames_reset [frames_intros]: "frames (stream_clear_fallback a)" "frames (e_epoll_reset_stream a)"
  unfolding stream_clear_fallback_def e_epoll_reset_stream_def by (auto intro!: frames_intros)

lemma frames_push_item [frames_intros]: "frames (push_item a it)"
  unfolding push_item_def by (auto intro!: frames_intros)

lemma frames_calloc_buffer [frames_intros]: "frames (\<lambda>w. case calloc_buffer n w of (b, w') \<Rightarrow> if b = 0 then (Fail, w') else (Ok b, w'))"
  by (auto simp: frames_def calloc_buffer_def frame_def fresh_brk split: if_splits prod.splits)

lemma frames_fill_buffer [frames_intros]: "frames (fill_buffer b n bs)"
  by (auto simp: frames_def fill_buffer_def frame_def split: if_splits)

lemma frames_queue [frames_intros]:
  "frames (stream_queue_writing_socket a v sz bs)" "frames (stream_queue_writing_device a e)"
  unfolding stream_queue_writing_socket_def stream_queue_writing_device_def Let_def by (auto intro!: frames_intros)

lemma frames_store_next [frames_intros]: "frames (store_next a it)" "frames (set_state a st)"
  unfolding store_next_def set_state_def by (auto intro!: frames_intros)

lemma frames_bytes [frames_intros]: "frames (load_bytes a p n)" "frames (store_bytes a p bs)"
  by (auto intro!: frames_intros simp: load_bytes_def store_bytes_def split: stream_place.split)
     (auto simp: frames_def frame_def split: option.splits if_splits)

lemma frames_alloc:
  assumes "\<And>b. frames (k b)"
  shows "frames (\<lambda>w. case calloc_buffer n w of (b, w') \<Rightarrow> if b = 0 then (Fail, w') else check (k b) (\<lambda>_. ret b) w')"
proof -
  have "(\<lambda>w. case calloc_buffer n w of (b, w') \<Rightarrow> if b = 0 then (Fail, w') else check (k b) (\<lambda>_. ret b) w') =
      check (\<lambda>w. case calloc_buffer n w of (b, w') \<Rightarrow> if b = 0 then (Fail, w') else (Ok b, w')) (\<lambda>b. check (k b) (\<lambda>_. ret b))"
    by (rule ext) (auto simp: check_def split: prod.split)
  then show ?thesis using assms by (auto intro!: frames_intros)
qed

lemma frames_calc [frames_intros]: "frames (calc_stream_info a)"
  unfolding calc_stream_info_def Let_def
  by (auto intro!: frames_intros frames_alloc[where k = "\<lambda>b. store_next a (set_buffer b it)" for it] split: stream_type.split)

lemma frames_io [frames_intros]: "frames (sys_read fd a p n ans)" "frames (sys_write fd a p n ans)" "frames (after_io a info x)"
  unfolding sys_read_def sys_write_def after_io_def Let_def
  by (auto intro!: frames_intros simp: frame_def split: io_ans.split io_res.split)

lemma frames_stream_stream [frames_intros]: "frames (stream_stream a ans)"
  unfolding stream_stream_def by (auto intro!: frames_intros split: stream_operation.split)

lemma frames_collect [frames_intros]: "frames (stream_collect a)"
  unfolding stream_collect_def by (auto intro!: frames_intros)

lemma frames_close_items [frames_intros]: "frames (close_items n a)"
  by (induction n) (auto intro!: frames_intros)

subsection \<open>The invariant\<close>

definition kind :: "'z mem_scheme \<Rightarrow> addr \<Rightarrow> fd_type option" where
  "kind w a = map_option s_fd_type (m_streams w a)"

text \<open>A table that has not been initialised is empty.\<close>

definition table_inv :: "'a u_array \<Rightarrow> bool" where
  "table_inv arr \<longleftrightarrow> arr_data arr = None \<or> arr_inv arr"

text \<open>
  Live streams lie below the next free address; \<open>stream_ptrs\<close> holds live streams, each once; what
  \<open>epoll_wait\<close> can report is a live stream under its own descriptor; \<open>relay_streams\<close> holds live streams
  of relays, each once.
\<close>

definition streams_ok :: "d_context \<Rightarrow> bool" where
  "streams_ok w \<longleftrightarrow> 0 < unat (m_brk w) \<and> unat (isock_stream w) < unat (m_brk w) \<and>
     (\<forall>a. kind w a \<noteq> None \<longrightarrow> a \<noteq> 0 \<and> unat a < unat (m_brk w))"

definition ptrs_ok :: "d_context \<Rightarrow> bool" where
  "ptrs_ok w \<longleftrightarrow> table_inv (stream_ptrs w) \<and> distinct (elems (stream_ptrs w)) \<and>
     (\<forall>p \<in> set (elems (stream_ptrs w)). kind w p \<noteq> None)"

definition interest_ok :: "'z mem_scheme \<Rightarrow> bool" where
  "interest_ok w \<longleftrightarrow> (\<forall>fd m p. k_epoll w fd = Some (m, p) \<longrightarrow> (\<exists>s. m_streams w p = Some s \<and> s_fd s = fd))"

definition relays_ok :: "d_context \<Rightarrow> bool" where
  "relays_ok w \<longleftrightarrow> table_inv (relay_streams w) \<and> distinct (elems (relay_streams w)) \<and>
     (\<forall>r \<in> set (elems (relay_streams w)). kind w r = Some FD_RELAY)"

definition base_ok :: "d_context \<Rightarrow> bool" where
  "base_ok w \<longleftrightarrow> streams_ok w \<and> ptrs_ok w \<and> interest_ok w \<and> relays_ok w"

text \<open>On a server the only listening stream is \<open>isock_stream\<close>, and it is gone while a peer is connected.\<close>

definition peers_ok :: "d_context \<Rightarrow> bool" where
  "peers_ok w \<longleftrightarrow> (d_type w = DAEMON_SERVER \<longrightarrow>
     (\<forall>a. kind w a = Some FD_ISOCK \<longrightarrow> a = isock_stream w) \<and>
     (\<forall>a. kind w a = Some FD_PEER \<longrightarrow> kind w (isock_stream w) = None))"

definition tables_ok :: "d_context \<Rightarrow> bool" where
  "tables_ok w \<longleftrightarrow> base_ok w \<and> peers_ok w"

lemma frame_kind:
  assumes "frame w w'" shows "kind w' = kind w"
proof
  fix a
  have "map_option fd_of (m_streams w' a) = map_option fd_of (m_streams w a)" using assms by (simp add: frame_def)
  then have "map_option snd (map_option fd_of (m_streams w' a)) = map_option snd (map_option fd_of (m_streams w a))" by simp
  then show "kind w' a = kind w a" by (simp add: kind_def option.map_comp comp_def fd_of_def)
qed

lemma frame_fields:
  assumes "frame (w :: d_context) w'"
  shows "stream_ptrs w' = stream_ptrs w" "relay_streams w' = relay_streams w" "devices w' = devices w"
    "isock_stream w' = isock_stream w" "d_type w' = d_type w" "unat (m_brk w) \<le> unat (m_brk w')"
  using assms by (cases w; cases w'; simp add: frame_def)+

lemma interest_okD: "interest_ok w \<Longrightarrow> k_epoll w fd = Some (m, p) \<Longrightarrow> \<exists>s. m_streams w p = Some s \<and> s_fd s = fd"
  unfolding interest_ok_def by blast

lemma interest_okI: "(\<And>fd m p. k_epoll w fd = Some (m, p) \<Longrightarrow> \<exists>s. m_streams w p = Some s \<and> s_fd s = fd) \<Longrightarrow> interest_ok w"
  unfolding interest_ok_def by blast

lemma frame_interest:
  assumes "frame w w'" "interest_ok w" shows "interest_ok w'"
proof (rule interest_okI)
  fix fd m p assume "k_epoll w' fd = Some (m, p)"
  from frame_registered[OF assms(1) this] obtain s where s: "m_streams w p = Some s" "s_fd s = fd"
    using interest_okD[OF assms(2)] by blast
  from frame_stream(2)[OF assms(1) s(1)] s(2) show "\<exists>s. m_streams w' p = Some s \<and> s_fd s = fd"
    by (auto simp: fd_of_def)
qed

lemma streams_ok_less: "streams_ok w \<Longrightarrow> kind w a \<noteq> None \<Longrightarrow> a \<noteq> 0 \<and> unat a < unat (m_brk w)"
  unfolding streams_ok_def by blast

lemma frame_base:
  assumes "frame w w'" "base_ok w"
  shows "base_ok w'"
proof -
  note f = frame_fields[OF assms(1)] frame_kind[OF assms(1)]
  have w: "streams_ok w" "ptrs_ok w" "interest_ok w" "relays_ok w" using assms(2) by (simp_all add: base_ok_def)
  have "streams_ok w'"
    unfolding streams_ok_def f
  proof (intro conjI allI impI)
    show "0 < unat (m_brk w')" "unat (isock_stream w) < unat (m_brk w')"
      using w(1) f(6) unfolding streams_ok_def by linarith+
    show "a \<noteq> 0" "unat a < unat (m_brk w')" if "kind w a \<noteq> None" for a
      using streams_ok_less[OF w(1) that] f(6) by linarith+
  qed
  moreover have "ptrs_ok w'" "relays_ok w'" using w(2,4) by (simp_all add: ptrs_ok_def relays_ok_def f)
  ultimately show ?thesis using frame_interest[OF assms(1) w(3)] by (simp add: base_ok_def)
qed

lemma peers_ok_cong: "kind w' = kind w \<Longrightarrow> isock_stream w' = isock_stream w \<Longrightarrow> d_type w' = d_type w \<Longrightarrow> peers_ok w' = peers_ok w"
  by (simp only: peers_ok_def)

lemma frame_tables:
  assumes "frame w w'" "tables_ok w" shows "tables_ok w'"
  using frame_base[OF assms(1)] peers_ok_cong[OF frame_kind[OF assms(1)] frame_fields(4,5)[OF assms(1)]] assms(2)
  unfolding tables_ok_def by blast

subsection \<open>Operations that keep a property\<close>

definition maintains :: "('s \<Rightarrow> bool) \<Rightarrow> ('a, 's) op \<Rightarrow> bool" where
  "maintains I m \<longleftrightarrow> (\<forall>w r w'. I w \<longrightarrow> m w = (Ok r, w') \<longrightarrow> I w')"

named_theorems maintains_intros \<open>operations that keep a property\<close>

lemma maintainsI: "(\<And>w r w'. I w \<Longrightarrow> m w = (Ok r, w') \<Longrightarrow> I w') \<Longrightarrow> maintains I m"
  by (auto simp: maintains_def)

lemma maintainsD: "maintains I m \<Longrightarrow> m w = (Ok r, w') \<Longrightarrow> I w \<Longrightarrow> I w'"
  by (auto simp: maintains_def)

lemma maintains_basic [maintains_intros, simp]: "maintains I (ret x)" "maintains I fail" "maintains I undef" "maintains I (gets f)"
  by (auto simp: maintains_def op_simps)

lemma maintains_check [maintains_intros]: "maintains I m \<Longrightarrow> (\<And>x. maintains I (k x)) \<Longrightarrow> maintains I (check m k)"
  unfolding maintains_def check_Ok_iff by blast

lemma maintains_check_not [maintains_intros]: "maintains I k \<Longrightarrow> maintains I (check_not c k)"
  by (simp add: check_not_def)

lemma maintains_on_err [maintains_intros]: "maintains I m \<Longrightarrow> maintains I (on_err m h)"
  unfolding maintains_def on_err_Ok_iff .

lemma maintains_for_each [maintains_intros]: "(\<And>x. maintains I (f x)) \<Longrightarrow> maintains I (for_each f xs)"
  by (induction xs) (auto intro!: maintains_intros)

lemma maintains_modify [maintains_intros]: "(\<And>w. I w \<Longrightarrow> I (f w)) \<Longrightarrow> maintains I (modify f)"
  by (auto simp: maintains_def modify_def)

lemma frames_keeps: "frames m \<Longrightarrow> maintains tables_ok m"
  unfolding maintains_def frames_def using frame_tables by blast

subsection \<open>Adding a stream\<close>

lemma kind_cong: "m_streams w' = m_streams w \<Longrightarrow> kind w' = kind w"
  by (rule ext) (simp add: kind_def)

lemma maintains_devices [maintains_intros]: "maintains tables_ok (on_devices m)"
proof (rule maintainsI)
  fix w r w' assume t: "tables_ok w" and r: "on_devices m w = (Ok r, w')"
  then obtain d where "w' = w\<lparr>devices := d\<rparr>" by (auto simp: zoom_def split: prod.splits)
  then show "tables_ok w'" using t
    by (simp add: tables_ok_def base_ok_def streams_ok_def ptrs_ok_def interest_ok_def relays_ok_def peers_ok_def kind_cong[of "w\<lparr>devices := d\<rparr>" w])
qed

text \<open>What adding stream \<open>a\<close> of kind \<open>ty\<close> does, apart from the tables themselves.\<close>

definition adds :: "addr \<Rightarrow> fd_type \<Rightarrow> d_context \<Rightarrow> d_context \<Rightarrow> bool" where
  "adds a ty w w' \<longleftrightarrow> kind w a = None \<and> kind w' = (kind w)(a \<mapsto> ty) \<and> ep.more w' = ep.more w \<and>
     a \<noteq> isock_stream w"

lemma ep_more_fields:
  assumes "ep.more (w' :: d_context) = ep.more w"
  shows "relay_streams w' = relay_streams w" "isock_stream w' = isock_stream w" "d_type w' = d_type w"
    "devices w' = devices w" "peer_stream w' = peer_stream w"
  using assms by (cases w; cases w'; simp)+

lemma frame_more: "frame (w :: 'z ep_scheme) w' \<Longrightarrow> ep.more w' = ep.more w \<and> stream_ptrs w' = stream_ptrs w"
  by (cases w; cases w') (simp add: frame_def)

lemma stream_init_frame:
  assumes "stream_init a fd ty w = (Ok (), w')"
  shows "\<exists>s. m_streams w a = Some s \<and> frame (put_stream a (s\<lparr>s_fd := fd\<rparr>) w) w'"
proof -
  let ?rest = "check (gets m_av) (\<lambda>av. check (on_stream a (on_queue (u_queue_init av (of_nat sizeof_stream_item) rcn_std_capacity)))
      (\<lambda>_. case ty of FD_PEER \<Rightarrow> stream_set_default a STREAM_OP_READING STREAM_TYPE_SOCKET
        | FD_RELAY \<Rightarrow> stream_set_default a STREAM_OP_READING STREAM_TYPE_SOCKET
        | FD_DEV \<Rightarrow> stream_set_default a STREAM_OP_READING STREAM_TYPE_DEVICE
        | FD_UDEV \<Rightarrow> stream_set_default a STREAM_OP_WRITING STREAM_TYPE_DEVICE
        | FD_USOCK \<Rightarrow> ret () | FD_ISOCK \<Rightarrow> ret ()))"
  obtain s where s: "m_streams w a = Some s" "?rest (put_stream a (s\<lparr>s_fd := fd, s_next := At_fallback\<rparr>) w) = (Ok (), w')"
    using assms by (auto simp: stream_init_def check_Ok_iff on_stream_def modify_def split: option.splits)
  have "frames ?rest" by (auto intro!: frames_intros split: fd_type.split)
  from framesD[OF this s(2)] have "frame (put_stream a (s\<lparr>s_fd := fd, s_next := At_fallback\<rparr>) w) w'" .
  moreover have "frame (put_stream a (s\<lparr>s_fd := fd\<rparr>) w) (put_stream a (s\<lparr>s_fd := fd, s_next := At_fallback\<rparr>) w)"
    by (auto simp: frame_def put_stream_def fd_of_def)
  ultimately show ?thesis using s(1) frame_trans by blast
qed

lemma kind_put: "kind (put_stream a s w) = (kind w)(a \<mapsto> s_fd_type s)"
  by (auto simp: kind_def put_stream_def)

text \<open>The new block with its stream, before it is entered anywhere.\<close>

lemma base_new_stream:
  assumes b: "base_ok w" and c: "calloc_stream w = (a, w1)" "a \<noteq> 0"
  shows "base_ok (put_stream a s w1) \<and> kind w a = None \<and> kind (put_stream a s w1) = (kind w)(a \<mapsto> s_fd_type s) \<and>
    ep.more w1 = ep.more w \<and> stream_ptrs w1 = stream_ptrs w \<and> a \<noteq> isock_stream w"
proof -
  have fr: "fresh sizeof_epoll_stream w" "a = m_brk w"
    "w1 = w\<lparr>m_streams := (m_streams w)(a \<mapsto> zero_stream), m_brk := m_brk w + 16\<rparr>"
    using c by (auto simp: calloc_stream_def split: if_splits)
  have w: "streams_ok w" "ptrs_ok w" "interest_ok w" "relays_ok w" using b by (simp_all add: base_ok_def)
  have new: "kind w a = None" using streams_ok_less[OF w(1), of a] fr(2) by blast
  let ?v = "put_stream a s w1"
  have k: "kind ?v = (kind w)(a \<mapsto> s_fd_type s)" by (auto simp: kind_def put_stream_def fr(3))
  have brk: "unat (m_brk ?v) = unat (m_brk w) + 16" using fresh_brk[OF fr(1)] by (simp add: put_stream_def fr(3))
  have fields: "stream_ptrs ?v = stream_ptrs w" "relay_streams ?v = relay_streams w" "isock_stream ?v = isock_stream w"
    "k_epoll ?v = k_epoll w" "m_streams ?v = (m_streams w)(a \<mapsto> s)"
    by (simp_all add: put_stream_def fr(3))
  have "streams_ok ?v" unfolding streams_ok_def k brk fields
  proof (intro conjI allI impI)
    show "unat (isock_stream w) < unat (m_brk w) + 16" using w(1) by (simp add: streams_ok_def)
    show "b \<noteq> 0" "unat b < unat (m_brk w) + 16" if "((kind w)(a \<mapsto> s_fd_type s)) b \<noteq> None" for b
      using streams_ok_less[OF w(1), of b] that c(2) fr(2) by (cases "b = a"; fastforce)+
  qed simp
  moreover have "ptrs_ok ?v" using w(2) unfolding ptrs_ok_def fields k by simp
  moreover have "relays_ok ?v" using w(4) new unfolding relays_ok_def fields k by (metis fun_upd_other option.distinct(1))
  moreover have "interest_ok ?v"
  proof (rule interest_okI)
    fix fd m p assume "k_epoll ?v fd = Some (m, p)"
    then obtain t where "m_streams w p = Some t" "s_fd t = fd" using interest_okD[OF w(3)] fields(4) by metis
    then show "\<exists>t. m_streams ?v p = Some t \<and> s_fd t = fd" unfolding fields(5) using new by (auto simp: kind_def)
  qed
  moreover have "a \<noteq> isock_stream w" using w(1) fr(2) by (auto simp: streams_ok_def)
  ultimately show ?thesis using new k by (simp add: base_ok_def fr(3))
qed

lemma elems_add:
  assumes "u_array_add av x arr = (Ok (), arr')" "table_inv arr"
  shows "table_inv arr' \<and> elems arr' = elems arr @ [x]"
proof (cases "arr_data arr")
  case None
  then show ?thesis using assms by (simp add: u_array_add_def op_simps)
next
  case (Some d)
  then have "arr_inv arr" using assms(2) by (simp add: table_inv_def)
  from u_array_add_spec[OF this assms(1)] show ?thesis by (simp add: table_inv_def)
qed

lemma base_add_ptr:
  assumes "base_ok w" "on_ptrs (u_array_add av a) w = (Ok (), w')" "kind w a \<noteq> None" "a \<notin> set (elems (stream_ptrs w))"
  shows "base_ok w' \<and> kind w' = kind w \<and> ep.more w' = ep.more w \<and> k_epoll w' = k_epoll w \<and> m_streams w' = m_streams w"
proof -
  obtain arr where arr: "u_array_add av a (stream_ptrs w) = (Ok (), arr)" "w' = w\<lparr>stream_ptrs := arr\<rparr>"
    using assms(2) by (auto simp: zoom_def split: prod.splits)
  have "table_inv (stream_ptrs w)" using assms(1) by (simp add: base_ok_def ptrs_ok_def)
  from elems_add[OF arr(1) this] show ?thesis using assms(1,3,4) unfolding arr(2)
    by (simp add: base_ok_def ptrs_ok_def streams_ok_def relays_ok_def interest_ok_def kind_cong[of "w\<lparr>stream_ptrs := arr\<rparr>" w])
qed

lemma base_register:
  assumes "base_ok w" "ep_add_in fd a w = (Ok (), w')" "m_streams w a = Some s" "s_fd s = fd"
  shows "base_ok w' \<and> kind w' = kind w \<and> ep.more w' = ep.more w"
proof -
  have w': "w' = w\<lparr>k_epoll := (k_epoll w)(fd \<mapsto> (EPOLLIN, a))\<rparr>"
    using assms(2) by (auto simp: ep_add_in_def epoll_ctl_add_def split: if_splits)
  have i: "interest_ok w" using assms(1) by (simp add: base_ok_def)
  have "interest_ok w'"
  proof (rule interest_okI)
    fix f m p assume "k_epoll w' f = Some (m, p)"
    then show "\<exists>t. m_streams w' p = Some t \<and> s_fd t = f"
      using interest_okD[OF i] assms(3,4) w' by (cases "f = fd") auto
  qed
  then show ?thesis using assms(1) w' kind_cong[of w' w]
    by (simp add: base_ok_def ptrs_ok_def streams_ok_def relays_ok_def)
qed

lemma base_set_type:
  assumes "base_ok w" "on_stream a (modify (\<lambda>s. s\<lparr>s_fd_type := ty\<rparr>)) w = (Ok (), w')" "a \<notin> set (elems (relay_streams w))"
  shows "base_ok w' \<and> kind w' = (kind w)(a \<mapsto> ty) \<and> ep.more w' = ep.more w \<and> stream_ptrs w' = stream_ptrs w \<and>
    (\<forall>s. m_streams w a = Some s \<longrightarrow> m_streams w' a = Some (s\<lparr>s_fd_type := ty\<rparr>))"
proof -
  obtain s where s: "m_streams w a = Some s" "w' = put_stream a (s\<lparr>s_fd_type := ty\<rparr>) w"
    using assms(2) by (auto simp: on_stream_def modify_def split: option.splits)
  then have k: "kind w' = (kind w)(a \<mapsto> ty)" by (simp add: kind_put)
  have w: "streams_ok w" "ptrs_ok w" "interest_ok w" "relays_ok w" using assms(1) by (simp_all add: base_ok_def)
  have fields: "stream_ptrs w' = stream_ptrs w" "relay_streams w' = relay_streams w" "isock_stream w' = isock_stream w"
    "m_brk w' = m_brk w" "k_epoll w' = k_epoll w" using s(2) by (simp_all add: put_stream_def)
  have a: "kind w a \<noteq> None" using s(1) by (simp add: kind_def)
  have "streams_ok w'" using w(1) streams_ok_less[OF w(1) a] unfolding streams_ok_def fields k by auto
  moreover have "ptrs_ok w'" using w(2) unfolding ptrs_ok_def fields k by simp
  moreover have "relays_ok w'" using w(4) assms(3) unfolding relays_ok_def fields k by (metis fun_upd_other)
  moreover have "interest_ok w'"
  proof (rule interest_okI)
    fix f m p assume "k_epoll w' f = Some (m, p)"
    then show "\<exists>t. m_streams w' p = Some t \<and> s_fd t = f"
      using interest_okD[OF w(3), of f m p] s fields(5) by (cases "p = a") (auto simp: put_stream_def)
  qed
  ultimately show ?thesis using k s by (simp add: base_ok_def put_stream_def)
qed

text \<open>\<open>e_epoll_add_getr\<close> and \<open>e_epoll_add_device\<close> keep the tables and add one stream.\<close>

lemma not_relay: "base_ok w \<Longrightarrow> kind w a \<noteq> Some FD_RELAY \<Longrightarrow> a \<notin> set (elems (relay_streams w))"
  by (auto simp: base_ok_def relays_ok_def)

lemma not_ptr: "base_ok w \<Longrightarrow> kind w a = None \<Longrightarrow> a \<notin> set (elems (stream_ptrs w))"
  by (auto simp: base_ok_def ptrs_ok_def)

lemma add_getr_adds:
  assumes b: "base_ok w" and r: "e_epoll_add_getr fd ty w = (Ok a, w')"
  shows "base_ok w' \<and> adds a ty w w'"
proof -
  obtain w1 w2 w3 w4 where s: "new_stream w = (Ok a, w1)" "on_stream a (modify (\<lambda>s. s\<lparr>s_fd_type := ty\<rparr>)) w1 = (Ok (), w2)"
    "stream_init a fd ty w2 = (Ok (), w3)" "on_ptrs (u_array_add (m_av w3) a) w3 = (Ok (), w4)" "ep_add_in fd a w4 = (Ok (), w')"
    using r by (auto simp: e_epoll_add_getr_def check_Ok_iff gets_def ret_def)
  have c: "calloc_stream w = (a, w1)" "a \<noteq> 0" using s(1) by (auto simp: new_stream_def split: prod.splits if_splits)
  obtain t where t: "m_streams w2 a = Some t" "frame (put_stream a (t\<lparr>s_fd := fd\<rparr>) w2) w3"
    using stream_init_frame[OF s(3)] by blast
  obtain u where u: "w2 = put_stream a (u\<lparr>s_fd_type := ty\<rparr>) w1"
    using s(2) by (auto simp: on_stream_def modify_def split: option.splits)
  then have v: "put_stream a (t\<lparr>s_fd := fd\<rparr>) w2 = put_stream a (t\<lparr>s_fd := fd\<rparr>) w1" "s_fd_type t = ty"
    using t(1) by (auto simp: put_stream_def)
  let ?v = "put_stream a (t\<lparr>s_fd := fd\<rparr>) w1"
  note new = base_new_stream[OF b c, of "t\<lparr>s_fd := fd\<rparr>"]
  have f: "frame ?v w3" using t(2) unfolding v(1) .
  have b3: "base_ok w3" "kind w3 = (kind w)(a \<mapsto> ty)" "ep.more w3 = ep.more w" "stream_ptrs w3 = stream_ptrs w"
    using frame_base[OF f] frame_kind[OF f] frame_more[OF f] new v(2) by (simp_all add: put_stream_def)
  obtain t3 where t3: "m_streams w3 a = Some t3" "s_fd t3 = fd"
    using frame_stream(2)[OF f, of a "t\<lparr>s_fd := fd\<rparr>"] by (auto simp: put_stream_def fd_of_def)
  have b4: "base_ok w4 \<and> kind w4 = kind w3 \<and> ep.more w4 = ep.more w3 \<and> k_epoll w4 = k_epoll w3 \<and> m_streams w4 = m_streams w3"
    by (rule base_add_ptr[OF b3(1) s(4)]) (use not_ptr[OF b] new in \<open>simp_all add: b3\<close>)
  have "base_ok w' \<and> kind w' = kind w4 \<and> ep.more w' = ep.more w4"
    by (rule base_register[OF _ s(5)]) (use b4 t3 in auto)
  then show ?thesis using b3 b4 new by (simp add: adds_def)
qed

lemma add_device_adds:
  assumes b: "base_ok w" and r: "e_epoll_add_device fd ty w = (Ok a, w')"
  shows "base_ok w' \<and> adds a ty w w'"
proof -
  obtain w1 w2 w3 w4 where s: "new_stream w = (Ok a, w1)" "stream_init a fd ty w1 = (Ok (), w2)"
    "on_ptrs (u_array_add (m_av w2) a) w2 = (Ok (), w3)" "on_stream a (modify (\<lambda>s. s\<lparr>s_fd_type := ty\<rparr>)) w3 = (Ok (), w4)"
    "ep_add_in fd a w4 = (Ok (), w')"
    using r by (auto simp: e_epoll_add_device_def check_Ok_iff gets_def ret_def)
  have c: "calloc_stream w = (a, w1)" "a \<noteq> 0" using s(1) by (auto simp: new_stream_def split: prod.splits if_splits)
  obtain t where t: "m_streams w1 a = Some t" "frame (put_stream a (t\<lparr>s_fd := fd\<rparr>) w1) w2"
    using stream_init_frame[OF s(2)] by blast
  have ty: "s_fd_type t = FD_USOCK" using c t(1) by (auto simp: calloc_stream_def zero_stream_def split: if_splits)
  note new = base_new_stream[OF b c, of "t\<lparr>s_fd := fd\<rparr>"] and f = t(2)
  have b2: "base_ok w2" "kind w2 = (kind w)(a \<mapsto> FD_USOCK)" "ep.more w2 = ep.more w" "stream_ptrs w2 = stream_ptrs w"
    using frame_base[OF f] frame_kind[OF f] frame_more[OF f] new ty by (simp_all add: put_stream_def)
  obtain t2 where t2: "m_streams w2 a = Some t2" "s_fd t2 = fd"
    using frame_stream(2)[OF f, of a "t\<lparr>s_fd := fd\<rparr>"] by (auto simp: put_stream_def fd_of_def)
  have b3: "base_ok w3 \<and> kind w3 = kind w2 \<and> ep.more w3 = ep.more w2 \<and> k_epoll w3 = k_epoll w2 \<and> m_streams w3 = m_streams w2"
    by (rule base_add_ptr[OF b2(1) s(3)]) (use not_ptr[OF b] new in \<open>simp_all add: b2\<close>)
  have b4: "base_ok w4 \<and> kind w4 = (kind w3)(a \<mapsto> ty) \<and> ep.more w4 = ep.more w3 \<and> stream_ptrs w4 = stream_ptrs w3 \<and>
      (\<forall>s. m_streams w3 a = Some s \<longrightarrow> m_streams w4 a = Some (s\<lparr>s_fd_type := ty\<rparr>))"
    by (rule base_set_type[OF _ s(4)]) (use b3 b2 not_relay[of w3 a] in auto)
  have "base_ok w' \<and> kind w' = kind w4 \<and> ep.more w' = ep.more w4"
    by (rule base_register[OF _ s(5), of "t2\<lparr>s_fd_type := ty\<rparr>"]) (use b3 b4 t2 in auto)
  then show ?thesis using b2 b3 b4 new by (simp add: adds_def)
qed

lemma adds_fields:
  assumes "adds a ty w w'"
  shows "kind w' = (kind w)(a \<mapsto> ty)" "kind w a = None" "relay_streams w' = relay_streams w"
    "isock_stream w' = isock_stream w" "d_type w' = d_type w" "a \<noteq> isock_stream w"
  using assms ep_more_fields[of w' w] by (simp_all add: adds_def)

lemma adds_peers:
  assumes "adds a ty w w'" "peers_ok w" "ty \<noteq> FD_ISOCK" "ty \<noteq> FD_PEER"
  shows "peers_ok w'"
  unfolding peers_ok_def adds_fields[OF assms(1)]
  using assms(2-4) adds_fields(6)[OF assms(1)] by (auto simp: peers_ok_def split: if_splits)

lemma maintains_add [maintains_intros]:
  assumes "ty \<noteq> FD_ISOCK" "ty \<noteq> FD_PEER"
  shows "maintains tables_ok (e_epoll_add_getr fd ty)" "maintains tables_ok (e_epoll_add_device fd ty)" "maintains tables_ok (e_epoll_add fd ty)"
proof -
  show g: "maintains tables_ok (e_epoll_add_getr fd ty)"
    using add_getr_adds adds_peers[OF _ _ assms] by (fastforce intro: maintainsI simp: tables_ok_def)
  show "maintains tables_ok (e_epoll_add_device fd ty)"
    using add_device_adds adds_peers[OF _ _ assms] by (fastforce intro: maintainsI simp: tables_ok_def)
  show "maintains tables_ok (e_epoll_add fd ty)" unfolding e_epoll_add_def by (auto intro!: maintains_intros g)
qed

subsection \<open>Closing a stream\<close>

lemma stream_close_frame:
  assumes "stream_close a w = (Ok (), w')"
  shows "\<exists>u s. frame w u \<and> m_streams u a = Some s \<and> w' = put_stream a (s\<lparr>s_fd := - 1\<rparr>) (sys_close (s_fd s) u)"
proof -
  let ?first = "check (deref a) (\<lambda>s0. check (close_items (Suc (unat (arr_length (q_array (s_queue s0))))) a) (\<lambda>_.
     on_stream a (on_queue u_queue_free)))"
  let ?buf = "\<lambda>s. if msg_buffer (s_fallback s) \<noteq> 0
            then check (free_buffer (msg_buffer (s_fallback s)))
              (\<lambda>_. on_stream a (modify (\<lambda>s. s\<lparr>s_fallback := set_buffer 0 (s_fallback s)\<rparr>)))
            else ret ()"
  obtain w1 s1 u s where w: "?first w = (Ok (), w1)" "m_streams w1 a = Some s1" "?buf s1 w1 = (Ok (), u)"
    "on_stream a (modify (\<lambda>s. s\<lparr>s_fd := - 1\<rparr>)) (sys_close (s_fd s1) u) = (Ok (), w')"
    using assms by (auto simp: stream_close_def check_Ok_iff deref_def modify_def split: option.splits)
  have "frames ?first" by (auto intro!: frames_intros)
  from framesD[OF this w(1)] have f1: "frame w w1" .
  have "frames (?buf s1)" by (auto intro!: frames_intros)
  from framesD[OF this w(3)] have f2: "frame w1 u" .
  obtain t where t: "m_streams u a = Some t" "s_fd t = s_fd s1"
    using frame_stream(2)[OF f2 w(2)] by (auto simp: fd_of_def)
  have "w' = put_stream a (t\<lparr>s_fd := - 1\<rparr>) (sys_close (s_fd t) u)"
    using w(4) t by (simp add: on_stream_def modify_def sys_close_def)
  then show ?thesis using frame_trans[OF f1 f2] t(1) by blast
qed

lemma elems_remove:
  assumes "u_array_find_index a arr = (Ok i, arr1)" "u_array_remove i arr1 = (Ok (), arr2)" "table_inv arr"
  shows "table_inv arr2 \<and> elems arr2 = remove1 a (elems arr)"
proof -
  have "arr_data arr \<noteq> None" using assms(1) by (auto simp: u_array_find_index_def op_simps split: if_splits)
  then have inv: "arr_inv arr" using assms(3) by (auto simp: table_inv_def)
  then have i: "arr1 = arr" "a \<in> set (elems arr)" "i = of_nat (index_of a (elems arr))"
    using assms(1) by (auto simp: u_array_find_index_spec split: if_splits)
  then have u: "unat i = index_of a (elems arr)" using index_fits[OF inv] index_of_less by metis
  from u_array_remove_spec[OF inv, of i] obtain arr' where "arr_inv arr'" "u_array_remove i arr = (Ok (), arr')"
    "elems arr' = drop_nth (unat i) (elems arr)" using index_of_less[OF i(2)] u by auto
  then show ?thesis using assms(2) i(1,2) u drop_index_of[OF i(2)] by (simp add: table_inv_def)
qed

lemma ep_del_eq: "ep_del fd w = (Ok (), w') \<Longrightarrow> w' = w \<or> w' = w\<lparr>k_epoll := (k_epoll w)(fd := None)\<rparr>"
  by (auto simp: ep_del_def epoll_ctl_del_def split: if_splits)

lemma close_simple_base:
  assumes b: "base_ok w" and r: "e_epoll_close_remove_simple a w = (Ok (), w')" and rel: "a \<notin> set (elems (relay_streams w))"
  shows "base_ok w' \<and> kind w' = (kind w)(a := None) \<and> ep.more w' = ep.more w"
proof -
  have w: "streams_ok w" "ptrs_ok w" "interest_ok w" "relays_ok w" using b by (simp_all add: base_ok_def)
  obtain s w1 i w2 w3 w4 where st: "m_streams w a = Some s" "ep_del (s_fd s) w = (Ok (), w1)"
    "on_ptrs (u_array_find_index a) w1 = (Ok i, w2)" "on_ptrs (u_array_remove i) w2 = (Ok (), w3)"
    "stream_close a w3 = (Ok (), w4)" "free_stream a w4 = (Ok (), w')"
    using r by (auto simp: e_epoll_close_remove_simple_def on_err_Ok_iff check_Ok_iff deref_def split: option.splits)
  obtain arr1 arr where arr: "u_array_find_index a (stream_ptrs w1) = (Ok i, arr1)" "u_array_remove i arr1 = (Ok (), arr)"
    "w3 = w1\<lparr>stream_ptrs := arr\<rparr>"
    using st(3,4) by (auto simp: zoom_def split: prod.splits)
  have w1: "stream_ptrs w1 = stream_ptrs w" "m_streams w1 = m_streams w" "ep.more w1 = ep.more w" "m_brk w1 = m_brk w"
    "k_epoll w1 fd = Some x \<Longrightarrow> k_epoll w fd = Some x" for fd x
    using ep_del_eq[OF st(2)] by (auto split: if_splits)
  have arr2: "table_inv arr" "elems arr = remove1 a (elems (stream_ptrs w))"
    using elems_remove[OF arr(1,2)] w(2) by (simp_all add: w1 ptrs_ok_def)
  have i3: "interest_ok w3"
    using interest_okD[OF w(3)] w1(5) by (auto intro!: interest_okI simp: arr(3) w1(2))
  obtain u t where u: "frame w3 u" "m_streams u a = Some t" "w4 = put_stream a (t\<lparr>s_fd := - 1\<rparr>) (sys_close (s_fd t) u)"
    using stream_close_frame[OF st(5)] by blast
  have a: "kind w a \<noteq> None" using st(1) by (simp add: kind_def)
  then have nz: "a \<noteq> 0" using streams_ok_less[OF w(1)] by blast
  then have w': "w' = u\<lparr>k_open := (k_open u)(s_fd t := False), k_epoll := (k_epoll u)(s_fd t := None), m_streams := (m_streams u)(a := None)\<rparr>"
    using st(6) by (simp add: free_stream_def u(3) put_stream_def sys_close_def)
  note f = frame_kind[OF u(1)] frame_more[OF u(1)] frame_fields(6)[OF u(1)]
  have k: "kind w' = (kind w)(a := None)"
  proof
    fix x show "kind w' x = ((kind w)(a := None)) x"
      using fun_cong[OF f(1), of x] by (simp add: w' kind_def arr(3) w1(2))
  qed
  have more: "ep.more w' = ep.more w" "stream_ptrs w' = arr" using f(2) by (simp_all add: w' arr(3) w1)
  have brk: "unat (m_brk w) \<le> unat (m_brk w')" using f(3) by (simp add: w' arr(3) w1)
  note fields = ep_more_fields[OF more(1)]
  have "streams_ok w'" unfolding streams_ok_def fields
  proof (intro conjI allI impI)
    show "0 < unat (m_brk w')" "unat (isock_stream w) < unat (m_brk w')"
      using w(1) brk unfolding streams_ok_def by linarith+
    show "b \<noteq> 0" "unat b < unat (m_brk w')" if "kind w' b \<noteq> None" for b
      using streams_ok_less[OF w(1), of b] that brk k by (auto split: if_splits)
  qed
  moreover have "ptrs_ok w'" using w(2) arr2 unfolding ptrs_ok_def more(2) k by auto
  moreover have "relays_ok w'" using w(4) rel unfolding relays_ok_def fields k by auto
  moreover have "interest_ok w'"
  proof (rule interest_okI)
    fix fd m p assume "k_epoll w' fd = Some (m, p)"
    then have fd: "fd \<noteq> s_fd t" "k_epoll u fd = Some (m, p)" by (auto simp: w' split: if_splits)
    with interest_okD[OF frame_interest[OF u(1) i3] fd(2)] u(2)
    show "\<exists>s. m_streams w' p = Some s \<and> s_fd s = fd" by (auto simp: w')
  qed
  ultimately show ?thesis using k more by (simp add: base_ok_def)
qed

lemma close_simple_tables:
  assumes "tables_ok w" "e_epoll_close_remove_simple a w = (Ok (), w')" "a \<notin> set (elems (relay_streams w))"
  shows "tables_ok w'"
proof -
  have c: "base_ok w' \<and> kind w' = (kind w)(a := None) \<and> ep.more w' = ep.more w"
    by (rule close_simple_base[OF _ assms(2,3)]) (use assms(1) in \<open>simp add: tables_ok_def\<close>)
  then have "isock_stream w' = isock_stream w" "d_type w' = d_type w" using ep_more_fields by blast+
  then show ?thesis using c assms(1) by (auto simp: tables_ok_def peers_ok_def split: if_splits)
qed

text \<open>The relay's stream is taken out of \<open>relay_streams\<close> before it is closed.\<close>

lemma r_close_relay_tables:
  assumes "tables_ok w" "r_close_relay a w = (r, w1)" "r \<noteq> Undef"
  shows "tables_ok w1 \<and> a \<notin> set (elems (relay_streams w1)) \<and> m_streams w1 = m_streams w"
proof -
  have rel: "table_inv (relay_streams w)" "distinct (elems (relay_streams w))"
    using assms(1) by (simp_all add: tables_ok_def base_ok_def relays_ok_def)
  obtain q arr where arr: "check (u_array_find_index a) u_array_remove (relay_streams w) = (q, arr)" "r = q" "w1 = w\<lparr>relay_streams := arr\<rparr>"
    using assms(2) by (auto simp: r_close_relay_def check_def zoom_def split: prod.splits res.splits)
  have "table_inv arr \<and> elems arr = remove1 a (elems (relay_streams w))"
  proof (cases "arr_inv (relay_streams w) \<and> a \<in> set (elems (relay_streams w))")
    case True
    then obtain i where i: "u_array_find_index a (relay_streams w) = (Ok i, relay_streams w)" "i = of_nat (index_of a (elems (relay_streams w)))"
      by (simp add: u_array_find_index_spec)
    have "unat i < length (elems (relay_streams w))"
      using index_fits[of "relay_streams w" "index_of a (elems (relay_streams w))"] index_of_less[of a] True i(2) by simp
    then have "u_array_remove i (relay_streams w) = (Ok (), arr)"
      using u_array_remove_spec[of "relay_streams w" i] True arr(1) i(1) by (auto simp: check_def)
    from elems_remove[OF i(1) this rel(1)] show ?thesis .
  next
    case False
    have "arr = relay_streams w \<and> a \<notin> set (elems (relay_streams w))"
    proof (cases "arr_data (relay_streams w)")
      case None
      then show ?thesis using arr(1) by (simp add: u_array_find_index_def elems_def op_simps)
    next
      case (Some d)
      then have inv: "arr_inv (relay_streams w)" using rel(1) by (simp add: table_inv_def)
      with False show ?thesis using arr(1) by (simp add: check_def u_array_find_index_spec[OF inv])
    qed
    then show ?thesis using rel(1) by (simp add: remove1_idem)
  qed
  then show ?thesis using assms(1) rel(2) unfolding arr(3)
    by (auto simp: tables_ok_def base_ok_def streams_ok_def ptrs_ok_def interest_ok_def relays_ok_def peers_ok_def
        kind_cong[of "w\<lparr>relay_streams := arr\<rparr>" w] dest: notin_set_remove1)
qed

end
