(* ===== verification/Rcn_Udev.thy ===== *)
theory Rcn_Udev
  imports Rcn_Client Rcn_Tables
begin

section \<open>A device crosses the network\<close>

text \<open>
  What the server does with a \<open>PEER_HEADER_DEV_CRT\<close> message (\<open>dev_init_udev\<close>, \<open>dev_apply_udev_info\<close>,
  rcn_device.c): the capabilities of the announced device become one list of requests to uinput,
  \<open>udev_reqs\<close>, defined from the announcement alone; the handler sends exactly that list, opens a stream for
  the new descriptor and enters the device in the table, and everything that existed before keeps its place
  (\<open>grown\<close>).  A refused request closes the descriptor again.  With memory, room and a willing kernel the
  outcome depends on the length of the name alone.
\<close>

subsection \<open>The requests made of uinput\<close>

definition set_bits :: "byte list \<Rightarrow> nat \<Rightarrow> nat list" where
  "set_bits bits n = filter (has_bit bits) [0..<n]"

definition udev_caps :: "device_info \<Rightarrow> ui_req list" where
  "udev_caps i = UI_SET_EVBIT EV_SYN # map UI_SET_PROPBIT (set_bits (di_propbit i) INPUT_PROP_MAX)
     @ (if has_bit (di_evtbit i) EV_KEY then UI_SET_EVBIT EV_KEY # map UI_SET_KEYBIT (set_bits (di_keybit i) KEY_MAX) else [])
     @ (if has_bit (di_evtbit i) EV_REL then UI_SET_EVBIT EV_REL # map UI_SET_RELBIT (set_bits (di_relbit i) REL_MAX) else [])
     @ (if has_bit (di_evtbit i) EV_ABS then UI_SET_EVBIT EV_ABS # concat (map (\<lambda>k. [UI_SET_ABSBIT k, UI_ABS_SETUP k (di_absinfo i ! k)])
         (set_bits (di_absbit i) ABS_MAX)) else [])"

definition virt_info :: "device_info \<Rightarrow> device_info" where
  "virt_info i = i\<lparr>di_name := virt_name (takeWhile (\<lambda>c. c \<noteq> 0) (di_name i))\<rparr>"

definition udev_reqs :: "device_info \<Rightarrow> ui_req list" where
  "udev_reqs i = udev_caps i @ [UI_DEV_SETUP (di_dev_id i) (di_name (virt_info i)), UI_DEV_CREATE]"

text \<open>A list of requests; the first one that is refused ends it.\<close>

definition ask :: "kenv \<Rightarrow> int \<Rightarrow> ui_req list \<Rightarrow> (unit, d_context) op" where
  "ask E fd rs = for_each (ui_ioctl E fd) rs"

lemma ask_append: "ask E fd (xs @ ys) = check (ask E fd xs) (\<lambda>_. ask E fd ys)"
  by (simp add: ask_def for_each_append)

lemma ask_Cons: "ask E fd (x # xs) = check (ui_ioctl E fd x) (\<lambda>_. ask E fd xs)"
  by (simp add: ask_def)

lemma ask_Nil: "ask E fd [] = ret ()"
  by (simp add: ask_def)

lemma ask_eq: "ask E fd rs w = (if list_all (e_ui E) rs then Ok () else Fail,
    w\<lparr>k_ui := k_ui w @ map (Pair fd) (takeWhile (e_ui E) rs)\<rparr>)"
proof (induction rs arbitrary: w)
  case (Cons r rs)
  then show ?case by (simp add: ask_Cons check_def ui_ioctl_def check_not_def fail_def modify_def)
qed (simp add: ask_Nil ret_def)

lemma set_udev_bits_ask: "set_udev_bits E fd f bits n = ask E fd (map f (set_bits bits n))"
  by (simp add: set_udev_bits_def ask_def set_bits_def for_each_map for_each_filter)

lemma abs_ask: "for_each (\<lambda>i. if has_bit (di_absbit t) i
     then check (ui_ioctl E fd (UI_SET_ABSBIT i)) (\<lambda>_. ui_ioctl E fd (UI_ABS_SETUP i (di_absinfo t ! i))) else ret ()) ks =
   ask E fd (concat (map (\<lambda>k. [UI_SET_ABSBIT k, UI_ABS_SETUP k (di_absinfo t ! k)]) (filter (has_bit (di_absbit t)) ks)))"
  by (induction ks) (simp_all add: ask_Cons ask_Nil check_assoc)

lemma apply_udev_eq:
  assumes "0 \<in> set (di_name t)"
  shows "apply_udev_info E fd b t = check (ask E fd (udev_caps t)) (\<lambda>_.
    check (store_struct b name_offset (di_name (virt_info t))) (\<lambda>_.
    check (ask E fd [UI_DEV_SETUP (di_dev_id t) (di_name (virt_info t)), UI_DEV_CREATE]) (\<lambda>_. ret (virt_info t))))"
proof -
  let ?s = "takeWhile (\<lambda>c. c \<noteq> 0) (di_name t)"
  have s: "c_string (di_name t) = Some ?s" using assms by (simp add: c_string_def)
  show ?thesis unfolding apply_udev_info_def s udev_caps_def
    by (simp add: ask_append ask_Cons ask_Nil set_udev_bits_ask set_bits_def abs_ask check_assoc virt_info_def)
qed

subsection \<open>A new stream among the old ones\<close>

definition grown :: "d_context \<Rightarrow> d_context \<Rightarrow> bool" where
  "grown w w' \<longleftrightarrow> mem_ok w' \<and> arr_inv (stream_ptrs w') \<and> arr_inv (devices w') \<and> relay_streams w' = relay_streams w \<and>
     peer_stream w' = peer_stream w \<and> d_type w' = d_type w \<and> d_state w' = d_state w \<and> m_av w' = m_av w \<and>
     (\<forall>a. fd_at w a \<noteq> None \<longrightarrow> fd_at w' a = fd_at w a) \<and> (\<forall>a. connected a w \<longrightarrow> connected a w')"

lemma grown_trans: "grown u v \<Longrightarrow> grown v w \<Longrightarrow> grown u w"
  unfolding grown_def by (metis (no_types, lifting))

lemma stream_added_grown:
  assumes ok: "mem_ok w" "arr_inv (devices w)" and add: "stream_added a fd ty w w'"
  shows "grown w w' \<and> fd_at w' a = Some fd \<and> fd_at w a = None \<and> kind w' a = Some ty \<and> connected a w' \<and>
    devices w' = devices w \<and> k_ui w' = k_ui w \<and> (\<forall>b. outbox b w' = outbox b w) \<and> ptrs w' = ptrs w @ [a] \<and>
    (\<forall>b. fd_at w b = Some fd \<longrightarrow> \<not> connected b w)"
proof -
  obtain q where q: "m_streams w' = (m_streams w)(a \<mapsto> ready_stream ty fd ty q)" "q_inv q" "q_items q = []"
    using add by (auto simp: stream_added_def)
  note rs = ready_stream_ok[OF q(2,3), of ty fd ty]
  have k: "a \<noteq> 0" "m_streams w a = None" "m_bufs w' = m_bufs w" "k_open w' = k_open w" "k_open w fd" "k_epoll w fd = None"
    "k_epoll w' = (k_epoll w)(fd \<mapsto> (EPOLLIN, a))" "arr_inv (stream_ptrs w')" "ptrs w' = ptrs w @ [a]"
    "ep.more w' = ep.more w" "heap_ok w'" "m_av w' = m_av w"
    using add by (simp_all add: stream_added_def)
  note f = ep_more_fields[OF k(10)]
  have more: "peer_stream w' = peer_stream w" "d_state w' = d_state w" "devices w' = devices w" "k_ui w' = k_ui w"
    using k(10) by (cases w; cases w'; simp)+
  have mem: "mem_ok w'" unfolding mem_ok_def
    using k(11) mem_okD(2,3)[OF ok(1)] rs by (auto simp: q(1) k(3) split: if_splits)
  have con: "connected b w'" if b: "connected b w" for b
  proof -
    obtain s where "m_streams w b = Some s" "k_open w (s_fd s)" "k_epoll w (s_fd s) \<noteq> None"
      using b by (auto simp: connected_def)
    moreover from this have "b \<noteq> a" using k(2) by auto
    ultimately show ?thesis using q(1) k(4,7) by (auto simp: connected_def)
  qed
  have out: "outbox b w' = outbox b w" for b
    using rs(2) k(2) by (auto simp: outbox_def q(1) k(3) split: option.splits)
  show ?thesis unfolding grown_def
    using mem con out k more f rs ok(2)
    by (auto simp: fd_at_def kind_def q(1) connected_def)
qed


text \<open>Steps before the stream is added: they touch the heap and the log of requests only.\<close>

lemma mem_ok_same_length:
  assumes "mem_ok w" "m_bufs w b = Some bs" "length bs' = length bs"
  shows "mem_ok (w\<lparr>m_bufs := (m_bufs w)(b \<mapsto> bs')\<rparr>)"
proof -
  have "item_ok ((m_bufs w)(b \<mapsto> bs')) it" if "item_ok (m_bufs w) it" for it
    using that assms(2,3) by (auto simp: item_ok_def)
  then show ?thesis using assms(1,2) by (fastforce simp: mem_ok_def heap_ok_def list_all_iff)
qed

lemma add_device_cases:
  assumes ok: "mem_ok w" "arr_inv (stream_ptrs w)" "arr_inv (devices w)" and r: "e_epoll_add_device fd ty w = (r, w')"
  obtains a where "r = Ok a" "stream_added a fd ty w w'"
  | "r = Fail" "devs w' = devs w" "k_ui w' = k_ui w" "arr_inv (devices w')"
proof -
  have "devices w' = devices w \<and> k_ui w' = k_ui w" if "ep.more w' = ep.more w"
    using that by (cases w; cases w'; simp)
  then show thesis
    using add_device_spec[OF mem_okD(1)[OF ok(1)] ok(2) r] ok(3) that by (auto simp: add_failed_def)
qed

text \<open>The descriptor of a device that could not be set up is closed again.\<close>

lemma add_to_table:
  assumes inv: "arr_inv (devices w)" and r: "check (gets m_av) (\<lambda>av. check (on_devices (u_array_add av d)) k) w = (r, w')"
  obtains ds w1 where "w1 = w\<lparr>devices := ds\<rparr>" "arr_inv ds" "elems ds = devs w @ [d]" "k () w1 = (r, w')"
  | ds where "r = Fail" "w' = w\<lparr>devices := ds\<rparr>" "arr_inv ds" "elems ds = devs w"
proof -
  obtain r1 ds where a: "u_array_add (m_av w) d (devices w) = (r1, ds)" by fastforce
  from u_array_add_spec[OF inv a] r a that show thesis
    by (cases r1) (auto simp: check_def gets_def zoom_def)
qed


lemma mem_ok_brk:
  assumes "mem_ok w" "fresh n w"
  shows "mem_ok (w\<lparr>m_brk := m_brk w + 16\<rparr>)"
  using assms heap_ok_grow[OF mem_okD(1)[OF assms(1)] assms(2), of "w\<lparr>m_brk := m_brk w + 16\<rparr>"]
  by (simp add: mem_ok_def)

lemma virt_name_length [simp]: "length (di_name (virt_info i)) = 80"
  by (auto simp: virt_info_def virt_name_def strncpy_def virt_prefix_def dev_consts min_def)

text \<open>A name of more than 68 characters fills the array behind the prefix and is not terminated.\<close>

lemma virt_name_terminated:
  "0 \<in> set (di_name (virt_info i)) \<longleftrightarrow> length (takeWhile (\<lambda>c. c \<noteq> 0) (di_name i)) \<le> 68"
proof -
  let ?s = "takeWhile (\<lambda>c. c \<noteq> 0) (di_name i)" and ?p = "virt_prefix @ takeWhile (\<lambda>c. c \<noteq> 0) (di_name i)"
  have "0 \<notin> set ?s" by (auto dest: set_takeWhileD)
  moreover have "0 \<notin> set virt_prefix" by (simp add: virt_prefix_def)
  ultimately have "0 \<notin> set ?p" by simp
  then have no: "0 \<notin> set (take k ?p)" for k by (meson in_set_takeD)
  have eq: "di_name (virt_info i) = take 80 (take 159 ?p @ replicate 80 0)"
    unfolding virt_info_def virt_name_def strncpy_def dev_consts by simp
  have len: "length ?p = 11 + length ?s" by (simp add: virt_prefix_def)
  show ?thesis
  proof (cases "length ?s \<le> 68")
    case True
    then have "di_name (virt_info i) = ?p @ replicate (80 - length ?p) 0" unfolding eq using len by (simp add: min_def)
    then show ?thesis using True len by simp
  next
    case False
    then have "di_name (virt_info i) = take 80 ?p" unfolding eq using len by (simp add: min_def)
    then show ?thesis using False no by simp
  qed
qed

definition udev_made :: "kenv \<Rightarrow> device_info \<Rightarrow> d_context \<Rightarrow> d_context \<Rightarrow> int \<Rightarrow> addr \<Rightarrow> bool" where
  "udev_made E i w w' fd a \<longleftrightarrow> e_open E RCN_DEV_UINPUT_PATH = Some fd \<and> grown w w' \<and>
     list_all (e_ui E) (udev_reqs i) \<and> k_ui w' = k_ui w @ map (Pair fd) (udev_reqs i) \<and>
     devs w' = devs w @ [\<lparr>d_info = virt_info i, d_stream = a, d_grabbed = False\<rparr>] \<and>
     fd_at w a = None \<and> fd_at w' a = Some fd \<and> kind w' a = Some FD_UDEV \<and> connected a w'"

text \<open>The last steps: a stream for the descriptor and an entry in the table.\<close>

definition udev_add :: "int \<Rightarrow> device_info \<Rightarrow> (unit, d_context) op" where
  "udev_add fd info = check (e_epoll_add_device fd FD_UDEV) (\<lambda>a. check (gets m_av) (\<lambda>av.
      check (on_devices (u_array_add av \<lparr>d_info = info, d_stream = a, d_grabbed = False\<rparr>)) (\<lambda>_.
        case c_string (di_name info) of None \<Rightarrow> undef | Some _ \<Rightarrow> ret ())))"

text \<open>The state in which they run.\<close>

definition asked :: "device_info \<Rightarrow> int \<Rightarrow> addr \<Rightarrow> d_context \<Rightarrow> d_context" where
  "asked i fd b w = w\<lparr>k_open := (k_open w)(fd := True), m_brk := m_brk w + 16,
     m_bufs := (m_bufs w)(b \<mapsto> overwrite name_offset (di_name (virt_info i)) (enc_device_info i)),
     k_ui := k_ui w @ map (Pair fd) (udev_reqs i)\<rparr>"

lemma dev_init_udev_eq:
  assumes body: "m_bufs w b = Some (enc_device_info i)" "info_wf i"
    and name: "0 \<in> set (di_name i)"
    and fd: "e_open E RCN_DEV_UINPUT_PATH = Some fd" and mem: "fresh sizeof_device w"
  shows "if list_all (e_ui E) (udev_reqs i)
    then dev_init_udev E b w = on_err (udev_add fd (virt_info i)) (modify (sys_close fd)) (asked i fd b w)
    else \<exists>w'. dev_init_udev E b w = (Fail, w') \<and> devs w' = devs w \<and> \<not> k_open w' fd"
proof -
  let ?v = "virt_info i" and ?w0 = "w\<lparr>k_open := (k_open w)(fd := True)\<rparr>"
  let ?w1 = "?w0\<lparr>m_brk := m_brk ?w0 + 16\<rparr>"
  let ?last = "[UI_DEV_SETUP (di_dev_id i) (di_name ?v), UI_DEV_CREATE]"
  let ?body = "check (ask E fd (udev_caps i)) (\<lambda>_. check (store_struct b name_offset (di_name ?v)) (\<lambda>_.
        check (ask E fd ?last) (\<lambda>_. udev_add fd ?v)))"
  have "dec_device_info (take sizeof_device_info (enc_device_info i)) = i"
    using dec_enc_device_info[OF body(2), of "[]"] length_enc_device_info[OF body(2)] by simp
  moreover have "fresh sizeof_device ?w0" using mem by (simp add: fresh_def)
  ultimately have eq: "dev_init_udev E b w = on_err ?body (modify (sys_close fd)) ?w1"
    using fd body length_enc_device_info[OF body(2)]
    by (simp add: dev_init_udev_def check_def[of "got_fd _"] got_fd_def on_err_def check_def[of calloc_device] calloc_device_def
        check_def[of "load_struct _ _"] load_struct_def apply_udev_eq[OF name] check_assoc udev_add_def)
  have off: "name_offset + length (di_name ?v) \<le> length (enc_device_info i)"
    using length_enc_device_info[OF body(2)] by (simp add: name_offset_def sizeof_device_info_def)
  have body_eq: "?body ?w1 = (if list_all (e_ui E) (udev_reqs i) then udev_add fd ?v (asked i fd b w)
    else (Fail, snd (?body ?w1)))" "\<not> list_all (e_ui E) (udev_reqs i) \<Longrightarrow> devices (snd (?body ?w1)) = devices w"
    using off body(1)
    by (auto simp: check_def[of "ask _ _ _"] ask_eq check_def[of "store_struct _ _ _"] store_struct_def udev_reqs_def asked_def
        takeWhile_eq_all_conv[THEN iffD2] list_all_iff split: if_splits)
  show ?thesis
  proof (cases "list_all (e_ui E) (udev_reqs i)")
    case True
    then show ?thesis unfolding eq on_err_def using body_eq(1) by simp
  next
    case False
    then have "?body ?w1 = (Fail, snd (?body ?w1))" using body_eq(1) by simp
    then show ?thesis unfolding eq on_err_def using body_eq(2) False
      by (cases "?body ?w1") (auto simp: modify_def sys_close_def)
  qed
qed

lemma asked_grown:
  assumes ok: "mem_ok w" "arr_inv (stream_ptrs w)" "arr_inv (devices w)" and mem: "fresh sizeof_device w"
    and body: "m_bufs w b = Some (enc_device_info i)" "info_wf i"
  shows "grown w (asked i fd b w)"
proof -
  let ?blk = "overwrite name_offset (di_name (virt_info i)) (enc_device_info i)"
  have "length ?blk = length (enc_device_info i)"
    using length_enc_device_info[OF body(2)] by (simp add: name_offset_def sizeof_device_info_def)
  from mem_ok_same_length[OF mem_ok_brk[OF ok(1) mem] _ this, of b] body(1)
  have "mem_ok (asked i fd b w)" by (simp add: asked_def mem_ok_def heap_ok_def)
  then show ?thesis unfolding grown_def using ok by (auto simp: asked_def fd_at_def connected_def)
qed

lemma dev_init_udev_spec:
  assumes ok: "mem_ok w" "arr_inv (stream_ptrs w)" "arr_inv (devices w)"
    and body: "m_bufs w b = Some (enc_device_info i)" "info_wf i"
    and name: "0 \<in> set (di_name i)" "length (takeWhile (\<lambda>c. c \<noteq> 0) (di_name i)) \<le> 68"
    and r: "dev_init_udev E b w = (r, w')"
  shows "(\<exists>fd a. r = Ok () \<and> udev_made E i w w' fd a) \<or>
    r = Fail \<and> devs w' = devs w \<and> (\<forall>fd. e_open E RCN_DEV_UINPUT_PATH = Some fd \<longrightarrow> \<not> k_open w' fd)"
proof (cases "e_open E RCN_DEV_UINPUT_PATH")
  case None
  then show ?thesis using r by (auto simp: dev_init_udev_def check_def got_fd_def)
next
  case fd: (Some fd)
  show ?thesis
  proof (cases "fresh sizeof_device w")
    case False
    then show ?thesis using r fd
      by (auto simp: dev_init_udev_def check_def got_fd_def calloc_device_def fresh_def on_err_def modify_def sys_close_def)
  next
    case mem: True
    note eq = dev_init_udev_eq[OF body name(1) fd mem]
    let ?w2 = "asked i fd b w" and ?v = "virt_info i"
    note g2 = asked_grown[OF ok mem body, of fd]
    show ?thesis
    proof (cases "list_all (e_ui E) (udev_reqs i)")
      case False
      then show ?thesis using eq r fd by auto
    next
      case granted: True
      obtain q u where q: "udev_add fd ?v ?w2 = (q, u)" by fastforce
      have out: "(r, w') = on_err (udev_add fd ?v) (modify (sys_close fd)) ?w2" using eq granted r by simp
      have fail: ?thesis if "q = Fail" "devs u = devs w"
        using out q that fd by (auto simp: on_err_def modify_def sys_close_def)
      obtain ra w3 where ra: "e_epoll_add_device fd FD_UDEV ?w2 = (ra, w3)" by fastforce
      have ok2: "mem_ok ?w2" "arr_inv (stream_ptrs ?w2)" "arr_inv (devices ?w2)" and same: "devices ?w2 = devices w"
        "k_ui ?w2 = k_ui w @ map (Pair fd) (udev_reqs i)" "\<And>a. fd_at ?w2 a = fd_at w a"
        using g2 ok by (simp_all add: grown_def asked_def fd_at_def)
      from ok2 ra show ?thesis
      proof (cases rule: add_device_cases)
        case (1 a)
        note g3 = stream_added_grown[OF ok2(1,3) 1(2)]
        let ?d = "\<lparr>d_info = ?v, d_stream = a, d_grabbed = False\<rparr>"
        have inv3: "arr_inv (devices w3)" using g3 ok2(3) by simp
        have go3: "check (gets m_av) (\<lambda>av. check (on_devices (u_array_add av ?d)) (\<lambda>_. ret ())) w3 = (q, u)"
          using q ra 1(1) virt_name_terminated[of i] name(2) by (simp add: udev_add_def check_def[of "e_epoll_add_device _ _"] c_string_def)
        from inv3 go3 show ?thesis
        proof (cases rule: add_to_table)
          case t: (1 ds w4)
          have "u = w3\<lparr>devices := ds\<rparr>" "q = Ok ()" using t by (simp_all add: ret_def)
          then have w': "r = Ok ()" "w' = w3\<lparr>devices := ds\<rparr>" using out q by (simp_all add: on_err_def)
          have "grown w w3" using grown_trans[OF g2] g3 by simp
          then have g: "grown w w'" unfolding w' grown_def
            using t(2) by (auto simp: mem_ok_def heap_ok_def fd_at_def connected_def)
          have "fd_at w' = fd_at w3" "kind w' = kind w3" "connected a w' = connected a w3" "k_ui w' = k_ui w3"
            unfolding w' by (simp_all add: fd_at_def kind_def connected_def fun_eq_iff)
          then have "udev_made E i w w' fd a" unfolding udev_made_def
            using fd g granted t(3) g3 same by (simp add: w'(2))
          then show ?thesis using w'(1) by blast
        next
          case t: (2 ds)
          then show ?thesis using fail g3 same by simp
        qed
      next
        case 2
        then have "q = Fail" "u = w3" using q ra by (auto simp: udev_add_def check_def)
        then show ?thesis using fail 2(2) same by simp
      qed
    qed
  qed
qed

subsection \<open>Adding a device succeeds\<close>

lemma init_queue_succeeds:
  assumes "granted av (unat c * unat z)" "0 < z" "0 < c"
  shows "\<exists>q'. u_queue_init av z c q = (Ok (), q') \<and> q_inv q' \<and> q_items q' = []"
proof -
  obtain r q' where r: "u_queue_init av z c q = (r, q')" by fastforce
  moreover have "r = Ok ()" using r assms
    by (auto simp: u_queue_init_def u_array_init_def op_simps Let_def word_le_nat_alt word_less_nat_alt unat_gt_0 unat_eq_0 split: if_splits)
  ultimately show ?thesis using u_queue_init_spec[OF r] by auto
qed

lemma add_device_succeeds:
  fixes w :: "'z ep_scheme"
  assumes "ample 16 w" "arr_inv (stream_ptrs w)" "spare (stream_ptrs w) = Suc n" "heap_ok w"
    and "k_open w fd" "k_epoll w fd = None" "ty = FD_DEV \<or> ty = FD_UDEV"
  shows "\<exists>a w'. e_epoll_add_device fd ty w = (Ok a, w') \<and> spare (stream_ptrs w') = n"
proof -
  let ?a = "m_brk w"
  have a: "?a \<noteq> 0" using heap_ok_unused[OF assms(4)] by simp
  have fr: "fresh sizeof_epoll_stream w" using ample_fresh[OF assms(1)] by (simp add: sizeof_epoll_stream_def)
  let ?s = "zero_stream\<lparr>s_fd := fd, s_next := At_fallback\<rparr>"
  have "granted (m_av w) 480" using assms(1) by (simp add: ample_def)
  then obtain q where q: "u_queue_init (m_av w) (of_nat sizeof_stream_item) rcn_std_capacity (s_queue ?s) = (Ok (), q)"
    using init_queue_succeeds[of "m_av w" rcn_std_capacity "of_nat sizeof_stream_item"]
    by (auto simp: rcn_std_capacity_def sizeof_stream_item_def)
  obtain p where p: "u_array_add (m_av w) ?a (stream_ptrs w) = (Ok (), p)" "spare p = n"
    using add_uses_spare[OF assms(2,3)] by blast
  have "fst (e_epoll_add_device fd ty w) = Ok ?a \<and> stream_ptrs (snd (e_epoll_add_device fd ty w)) = p"
    using fr assms(5,6,7) a q p
    by (auto simp: e_epoll_add_device_def new_stream_def calloc_stream_def check_def stream_init_def on_stream_def modify_def
      gets_def zoom_def put_stream_def stream_set_default_def check_not_def deref_def Let_def zero_stream_def
      ep_add_in_def epoll_ctl_add_def ret_def)
  then show ?thesis using p(2) by (metis prod.collapse)
qed

definition srv_ok :: "d_context \<Rightarrow> bool" where
  "srv_ok w \<longleftrightarrow> mem_ok w \<and> arr_inv (stream_ptrs w) \<and> arr_inv (devices w)"

lemma grown_srv: "grown w w' \<Longrightarrow> srv_ok w'"
  by (simp add: grown_def srv_ok_def)

lemma grown_refl: "srv_ok w \<Longrightarrow> grown w w"
  by (simp add: grown_def srv_ok_def)

definition portable :: "device \<Rightarrow> bool" where
  "portable d \<longleftrightarrow> info_wf (d_info d) \<and> 0 \<in> set (di_name (d_info d)) \<and>
     length (takeWhile (\<lambda>c. c \<noteq> 0) (di_name (d_info d))) \<le> 68"

lemma p_handler_crt:
  assumes "received (peer_code PEER_HEADER_DEV_CRT) body it w"
  shows "p_handler E a it w = dev_init_udev E (msg_buffer it) w"
proof -
  have "peer_of_code (h_value (msg_header it)) = Some PEER_HEADER_DEV_CRT"
    using assms unfolding received_def by (simp only: peer_of_code)
  then show ?thesis by (simp add: p_handler_def peer_handler_dev_crt_def)
qed

lemma p_handler_crt_spec:
  assumes "srv_ok w" "portable d" "received (peer_code PEER_HEADER_DEV_CRT) (enc_device_info (d_info d)) it w"
    and "p_handler E a it w = (r, w')"
  shows "(\<exists>fd b. r = Ok () \<and> udev_made E (d_info d) w w' fd b) \<or>
    r = Fail \<and> devs w' = devs w \<and> (\<forall>fd. e_open E RCN_DEV_UINPUT_PATH = Some fd \<longrightarrow> \<not> k_open w' fd)"
proof -
  have "dev_init_udev E (msg_buffer it) w = (r, w')" using assms(4) p_handler_crt[OF assms(3), of E a] by simp
  from dev_init_udev_spec[OF _ _ _ _ _ _ _ this, of "d_info d"] assms(1-3)
  show ?thesis by (auto simp: srv_ok_def portable_def received_def)
qed


text \<open>With memory, room and a willing kernel the outcome depends on the name alone.\<close>

lemma dev_init_udev_result:
  assumes ok: "srv_ok w" and i: "info_wf i" "0 \<in> set (di_name i)" "m_bufs w b = Some (enc_device_info i)"
    and kernel: "e_open E RCN_DEV_UINPUT_PATH = Some fd" "k_epoll w fd = None" "list_all (e_ui E) (udev_reqs i)"
    and mem: "ample 32 w" "0 < spare (stream_ptrs w)" "0 < spare (devices w)"
  shows "fst (dev_init_udev E b w) = (if length (takeWhile (\<lambda>c. c \<noteq> 0) (di_name i)) \<le> 68 then Ok () else Undef)"
    and "\<forall>c. c \<noteq> b \<longrightarrow> m_bufs (snd (dev_init_udev E b w)) c = m_bufs w c"
proof -
  let ?w2 = "asked i fd b w"
  have ok: "mem_ok w" "arr_inv (stream_ptrs w)" "arr_inv (devices w)" using ok by (simp_all add: srv_ok_def)
  have fr: "fresh sizeof_device w" using ample_fresh[OF mem(1)] by (simp add: sizeof_device_def)
  note brk = fresh_brk[OF fr]
  note g2 = asked_grown[OF ok fr i(3,1), of fd]
  obtain n where n: "spare (stream_ptrs w) = Suc n" using mem(2) by (metis Suc_pred)
  have "heap_ok ?w2" using g2 by (simp add: grown_def mem_okD(1))
  then have "\<exists>a w'. e_epoll_add_device fd FD_UDEV ?w2 = (Ok a, w') \<and> spare (stream_ptrs w') = n"
    by (intro add_device_succeeds) (use mem(1) kernel(2) brk ok(2) n in \<open>simp_all add: asked_def ample_def\<close>)
  then obtain a w3 where a: "e_epoll_add_device fd FD_UDEV ?w2 = (Ok a, w3)" by blast
  have ok2: "mem_ok ?w2" "arr_inv (stream_ptrs ?w2)" "arr_inv (devices ?w2)" using g2 by (simp_all add: grown_def)
  have added: "stream_added a fd FD_UDEV ?w2 w3" using add_device_cases[OF ok2 a] by auto
  note g3 = stream_added_grown[OF ok2(1,3) added]
  have "devices w3 = devices w" using g3 by (simp add: asked_def)
  then obtain p' where p': "u_array_add (m_av w3) \<lparr>d_info = virt_info i, d_stream = a, d_grabbed = False\<rparr> (devices w3) = (Ok (), p')"
    using add_uses_spare[OF ok(3), of "spare (devices w) - 1"] mem(3) by auto
  then have "fst (udev_add fd (virt_info i) ?w2) = (if 0 \<in> set (di_name (virt_info i)) then Ok () else Undef)"
    and "snd (udev_add fd (virt_info i) ?w2) = w3\<lparr>devices := p'\<rparr>"
    using a by (simp_all add: udev_add_def check_def gets_def zoom_def c_string_def ret_def undef_def)
  moreover have "m_bufs w3 c = m_bufs w c" if "c \<noteq> b" for c using added that by (simp add: stream_added_def asked_def)
  ultimately show "fst (dev_init_udev E b w) = (if length (takeWhile (\<lambda>c. c \<noteq> 0) (di_name i)) \<le> 68 then Ok () else Undef)"
    "\<forall>c. c \<noteq> b \<longrightarrow> m_bufs (snd (dev_init_udev E b w)) c = m_bufs w c"
    using dev_init_udev_eq[OF i(3,1,2) kernel(1) fr] kernel(3)
    by (cases "udev_add fd (virt_info i) ?w2"; simp add: on_err_def virt_name_terminated split: if_splits)+
qed

subsection \<open>A mouse\<close>

text \<open>A kernel with one event file, a mouse without a name: two axes and no keys.\<close>

definition demo_env :: kenv where
  "demo_env = \<lparr>e_open = (\<lambda>p. Some (if p = RCN_DEV_UINPUT_PATH then 9 else 8)), e_accept = None, e_inet = None, e_setup = True,
     e_read = (\<lambda>_ q. Some (if q = EVIOCGBIT 0 4 then [4] else if q = EVIOCGBIT EV_REL 2 then [3] else [])),
     e_random = (\<lambda>_. Some 7), e_ui = (\<lambda>_. True), e_grab = (\<lambda>_. True), e_keys = (\<lambda>_. [])\<rparr>"

definition mouse_info :: device_info where
  "mouse_info = zero_info\<lparr>di_evtbit := [4, 0, 0, 0], di_relbit := [3, 0], di_random_id := 7\<rparr>"

definition mouse :: device where
  "mouse = \<lparr>d_info = mouse_info, d_stream = 0, d_grabbed = False\<rparr>"

lemma has_bit_zeros [simp]: "has_bit (replicate n 0) i = False"
  by (simp add: has_bit_def)

lemma set_bits_zeros [simp]: "set_bits (replicate n 0) k = []"
  by (simp add: set_bits_def)

lemma mouse_portable: "portable mouse"
  by (simp add: portable_def mouse_def mouse_info_def info_wf_def zero_info_def dev_consts)

lemma mouse_reqs: "udev_reqs mouse_info = [UI_SET_EVBIT 0, UI_SET_EVBIT 2, UI_SET_RELBIT 0, UI_SET_RELBIT 1,
    UI_DEV_SETUP (replicate 8 0) (di_name (virt_info mouse_info)), UI_DEV_CREATE]"
proof -
  have "set_bits [3, 0] REL_MAX = [0, 1]"
    by (simp add: set_bits_def dev_consts upt_rec has_bit_def)
  moreover have "\<not> has_bit [4, 0, 0, 0] EV_KEY" "has_bit [4, 0, 0, 0] EV_REL" "\<not> has_bit [4, 0, 0, 0] EV_ABS"
    by (simp_all add: has_bit_def dev_consts)
  ultimately show ?thesis
    by (simp add: udev_reqs_def udev_caps_def mouse_info_def zero_info_def) (simp add: dev_consts)
qed

lemma mouse_read: "dev_get_device_info demo_env fd zero_info = Some mouse_info"
proof -
  have nil: "fill arr [] = arr" for arr by (simp add: fill_def)
  have "fill (replicate 4 0) [4] = [4, 0, 0, 0]" "fill (replicate 2 0) [3] = [3, 0]"
    by (simp_all add: fill_def overwrite_def eval_nat_numeral)
  moreover have "\<not> has_bit [4, 0, 0, 0] 3" by (simp add: has_bit_def)
  ultimately show ?thesis
    by (simp add: dev_get_device_info_def demo_env_def mouse_info_def zero_info_def dev_consts nil)
qed


text \<open>A server without devices that holds the message \<open>body\<close> at address 64.\<close>

definition bare_server :: "(addr \<rightharpoonup> byte list) \<Rightarrow> d_context" where
  "bare_server bufs = ctx_of (demo_mem\<lparr>m_bufs := bufs, k_epoll := [5 \<mapsto> (EPOLLIN, 16)]\<rparr>) [] [] 16 DAEMON_SERVER RCN_RUNNING PEER_CONNECTED"

lemma bare_server_ok:
  assumes "\<forall>b. bufs b \<noteq> None \<longrightarrow> 0 < b \<and> b < 4096"
  shows "srv_ok (bare_server bufs)" "devs (bare_server bufs) = []" "k_ui (bare_server bufs) = []" "m_bufs (bare_server bufs) = bufs"
    "ample 32 (bare_server bufs)" "spare (stream_ptrs (bare_server bufs)) = 9" "spare (devices (bare_server bufs)) = 10"
    "k_epoll (bare_server bufs) 9 = None"
proof -
  have "q_items (s_queue s) = []" if "m_streams demo_mem a = Some s" for a s
    using demo_mem_connected(2)[of a] that by (simp add: outbox_def)
  moreover have "stream_ok s" if "m_streams demo_mem a = Some s" for a s
    using mem_okD(2)[OF demo_mem_ok that] .
  moreover have "heap_ok (demo_mem\<lparr>m_bufs := bufs\<rparr>)"
    using mem_okD(1)[OF demo_mem_ok] assms by (auto simp: heap_ok_def demo_mem_def mem_of_def word_less_nat_alt)
  ultimately have "mem_ok (demo_mem\<lparr>m_bufs := bufs\<rparr>)" by (auto simp: mem_ok_def)
  then have "mem_ok (bare_server bufs)" by (simp add: bare_server_def)
  then show "srv_ok (bare_server bufs)" by (simp add: srv_ok_def) (simp add: bare_server_def array_of_inv)
  have "k_ui (ctx_of m [] [] 16 DAEMON_SERVER RCN_RUNNING PEER_CONNECTED) = []" for m
    by (simp add: ctx_of_def mem.defs)
  then show "k_ui (bare_server bufs) = []" by (simp add: bare_server_def)
qed (simp_all add: bare_server_def ample_def granted_def demo_mem_def mem_of_def spare_def array_of_def elems_def)

text \<open>C9: A server that receives the announcement of a device either makes exactly the requests the
  announcement asks for, in order, on the descriptor it has opened, and adds the device with the prefixed name and a
  live stream at the end of its table, everything it had before unchanged; or it fails, with its table as
  it was and the descriptor of uinput closed.\<close>

theorem device_recreated:
  assumes "srv_ok w" "portable d" "received (peer_code PEER_HEADER_DEV_CRT) (enc_device_info (d_info d)) it w"
  shows "case p_handler E a it w of
      (Ok _, w') \<Rightarrow> \<exists>fd b. udev_made E (d_info d) w w' fd b
    | (Fail, w') \<Rightarrow> devs w' = devs w \<and> (\<forall>fd. e_open E RCN_DEV_UINPUT_PATH = Some fd \<longrightarrow> \<not> k_open w' fd)
    | (Undef, _) \<Rightarrow> False"
proof -
  obtain r w' where r: "p_handler E a it w = (r, w')" by fastforce
  show ?thesis using p_handler_crt_spec[OF assms r] unfolding r by (elim disjE exE conjE) (simp; blast)+
qed

theorem device_recreated_witness:
  "\<exists>w' b. p_handler demo_env 16 (with_body 0) (bare_server [64 \<mapsto> enc_device_info mouse_info]) = (Ok (), w') \<and>
    devs w' = [\<lparr>d_info = virt_info mouse_info, d_stream = b, d_grabbed = False\<rparr>] \<and> connected b w' \<and>
    k_ui w' = map (Pair 9) [UI_SET_EVBIT 0, UI_SET_EVBIT 2, UI_SET_RELBIT 0, UI_SET_RELBIT 1,
      UI_DEV_SETUP (replicate 8 0) (di_name (virt_info mouse_info)), UI_DEV_CREATE]"
proof -
  let ?w = "bare_server [64 \<mapsto> enc_device_info mouse_info]"
  have ok: "srv_ok ?w" "devs ?w = []" "k_ui ?w = []" "m_bufs ?w = [64 \<mapsto> enc_device_info mouse_info]" "ample 32 ?w"
    "spare (stream_ptrs ?w) = 9" "spare (devices ?w) = 10" "k_epoll ?w 9 = None"
    by (rule bare_server_ok; simp)+
  have info: "d_info mouse = mouse_info" by (simp add: mouse_def)
  have buf: "msg_buffer (with_body 0) = 64" by (simp add: with_body_def zero_item_def)
  have rcv: "received (peer_code PEER_HEADER_DEV_CRT) (enc_device_info (d_info mouse)) (with_body 0) ?w"
    by (simp add: received_def ok(4) info with_body_def zero_item_def)
  have env: "e_open demo_env RCN_DEV_UINPUT_PATH = Some 9" "\<And>r. e_ui demo_env r" by (simp_all add: demo_env_def)
  obtain w' where w': "p_handler demo_env 16 (with_body 0) ?w = (Ok (), w')"
    using p_handler_crt[OF rcv, of demo_env 16] dev_init_udev_result[OF ok(1), of mouse_info 64 demo_env 9] ok env mouse_portable
    by (cases "dev_init_udev demo_env 64 ?w") (simp add: buf portable_def info list_all_iff)
  from device_recreated[OF ok(1) mouse_portable rcv, of demo_env 16] w' obtain fd b where m: "udev_made demo_env mouse_info ?w w' fd b"
    by (auto simp: info)
  then have "fd = 9" using env(1) by (simp add: udev_made_def)
  with m show ?thesis using w' ok(2,3) by (intro exI[of _ w'] exI[of _ b]) (simp add: udev_made_def mouse_reqs)
qed

text \<open>C40: A device whose name is longer than 68 characters is created, and then undefined behaviour
  follows: with the prefix in front the name fills all 80 bytes, is not terminated, and the log line at
  the end of \<open>dev_init_udev\<close> prints it with \<open>%s\<close>.\<close>

theorem long_name_undefined:
  assumes "srv_ok w" "info_wf i" "0 \<in> set (di_name i)" "68 < length (takeWhile (\<lambda>c. c \<noteq> 0) (di_name i))"
    and "received (peer_code PEER_HEADER_DEV_CRT) (enc_device_info i) it w"
    and "e_open E RCN_DEV_UINPUT_PATH = Some fd" "k_epoll w fd = None" "list_all (e_ui E) (udev_reqs i)"
    and "ample 32 w" "0 < spare (stream_ptrs w)" "0 < spare (devices w)"
  shows "fst (p_handler E a it w) = Undef"
  using dev_init_udev_result[OF assms(1-3) _ assms(6-11), of "msg_buffer it"] p_handler_crt[OF assms(5), of E a] assms(4,5)
  by (simp add: received_def)

theorem long_name_undefined_witness:
  "fst (p_handler demo_env 16 (with_body 0) (bare_server [64 \<mapsto> enc_device_info (mouse_info\<lparr>di_name := replicate 70 97 @ replicate 10 0\<rparr>)])) = Undef"
proof -
  let ?i = "mouse_info\<lparr>di_name := replicate 70 97 @ replicate 10 0\<rparr>"
  let ?w = "bare_server [64 \<mapsto> enc_device_info ?i]"
  have ok: "srv_ok ?w" "m_bufs ?w = [64 \<mapsto> enc_device_info ?i]" "ample 32 ?w"
    "spare (stream_ptrs ?w) = 9" "spare (devices ?w) = 10" "k_epoll ?w 9 = None"
    by (rule bare_server_ok; simp)+
  have "info_wf ?i" using mouse_portable by (simp add: portable_def mouse_def info_wf_def dev_consts)
  moreover have "takeWhile (\<lambda>c. c \<noteq> 0) (di_name ?i) = replicate 70 97" 
    using takeWhile_append2[of "replicate 70 97" "\<lambda>c. c \<noteq> 0" "replicate 10 (0 :: byte)"] by simp
  moreover have "received (peer_code PEER_HEADER_DEV_CRT) (enc_device_info ?i) (with_body 0) ?w"
    by (simp add: received_def ok(2) with_body_def zero_item_def)
  ultimately show ?thesis
    by (intro long_name_undefined[where fd = 9]) (use ok in \<open>simp_all add: demo_env_def list_all_iff\<close>)
qed


end
