(* ===== verification/Rcn_Announce.thy ===== *)
theory Rcn_Announce
  imports Rcn_Udev
begin

section \<open>A client announces its devices\<close>

text \<open>
  \<open>dev_get_device_info\<close>, \<open>dev_init_device\<close> and the loop of \<open>dev_init_devices_arg\<close> (rcn_device.c): what is read
  from an event file always has the type of \<open>struct device_info\<close>; every path of the command line becomes one
  entry of the table and one \<open>PEER_HEADER_DEV_CRT\<close> message, in order.  The second half shows that this
  succeeds when the kernel admits the files and the tables, the outbox and the memory have room.
\<close>

subsection \<open>What the client learns of a device\<close>

lemma length_fill [simp]: "length (fill arr ans) = length arr"
  by (simp add: fill_def overwrite_def)

lemma fill_keeps_last: "length ans < length arr \<Longrightarrow> drop (length ans) (fill arr ans) = drop (length ans) arr"
  by (simp add: fill_def overwrite_def)

lemma read_absinfo_typed:
  assumes "read_absinfo E fd bits as = Some as'" "length as = n" "\<forall>a \<in> set as. length a = 24"
  shows "length as' = n \<and> (\<forall>a \<in> set as'. length a = 24)"
proof -
  let ?f = "\<lambda>i acc. Option.bind acc (\<lambda>as. if \<not> has_bit bits i then Some as
        else Option.bind (e_read E fd (EVIOCGABS i)) (\<lambda>v. Some (as[i := fill (as ! i) v])))"
  have "(case fold ?f ks acc of None \<Rightarrow> True | Some as \<Rightarrow> length as = n \<and> (\<forall>a \<in> set as. length a = 24))"
    if "case acc of None \<Rightarrow> True | Some as \<Rightarrow> length as = n \<and> (\<forall>a \<in> set as. length a = 24)" for ks acc
    using that
  proof (induction ks arbitrary: acc)
    case (Cons k ks)
    have "case ?f k acc of None \<Rightarrow> True | Some as \<Rightarrow> length as = n \<and> (\<forall>a \<in> set as. length a = 24)"
    proof (cases acc)
      case (Some as)
      have "length (fill (as ! k) v) = 24" if "k < length as" for v using Some Cons.prems that by simp
      moreover have "as[k := x] = as" if "\<not> k < length as" for x using that by (metis list_update_beyond not_less)
      ultimately show ?thesis using Some Cons.prems
        by (cases "k < length as"; cases "e_read E fd (EVIOCGABS k)")
          (auto dest!: subsetD[OF set_update_subset_insert])
    qed simp
    then show ?case using Cons.IH by simp
  qed simp
  from this[of "Some as" "[0..<ABS_MAX]"] assms show ?thesis by (simp add: read_absinfo_def)
qed

lemma device_info_wf:
  assumes "dev_get_device_info E fd zero_info = Some i"
  shows "info_wf i \<and> 0 \<in> set (di_name i)"
proof -
  have zero: "0 \<in> set (fill (replicate 80 0) (take 79 nm))" for nm
  proof -
    have "last (fill (replicate 80 0) (take 79 nm)) = 0" by (simp add: fill_def overwrite_def)
    moreover have "fill (replicate 80 0) (take 79 nm) \<noteq> []" using length_fill[of "replicate 80 0"] by (metis length_replicate list.size(3) zero_neq_numeral)
    ultimately show ?thesis by (metis last_in_set)
  qed
  from assms show ?thesis
    by (auto simp: dev_get_device_info_def bind_eq_Some_conv Let_def zero_info_def info_wf_def dev_consts zero
        split: if_splits dest!: read_absinfo_typed[where n=64])
qed

text \<open>C15: What a client learns of a device, whatever the kernel answers to the queries, is a well-formed
  \<open>struct device_info\<close>: every array has its declared length, the name is terminated within it, the struct
  occupies its size on the wire and reads back unchanged there.\<close>

theorem device_info_typed:
  assumes "dev_get_device_info E fd zero_info = Some i"
  shows "info_wf i \<and> 0 \<in> set (di_name i) \<and> length (enc_device_info i) = sizeof_device_info \<and>
    dec_device_info (enc_device_info i @ rest) = i"
  using device_info_wf[OF assms] length_enc_device_info dec_enc_device_info by (simp add: sizeof_device_info_def)

theorem device_info_typed_witness:
  "dev_get_device_info demo_env 8 zero_info = Some mouse_info \<and> 0 \<in> set (di_name mouse_info) \<and>
   dec_device_info (enc_device_info mouse_info @ [1, 2]) = mouse_info"
  using device_info_typed[OF mouse_read[of 8], of "[1, 2]"] mouse_read[of 8] by simp

subsection \<open>Opening and announcing\<close>

text \<open>What is fixed when a device of path \<open>p\<close> has been set up.\<close>

definition opened :: "kenv \<Rightarrow> d_context \<Rightarrow> string \<Rightarrow> device \<Rightarrow> bool" where
  "opened E w p d \<longleftrightarrow> \<not> d_grabbed d \<and> (\<exists>fd. e_open E p = Some fd \<and> fd_at w (d_stream d) = Some fd \<and>
     fd_at w (peer_stream w) \<noteq> Some fd \<and> dev_get_device_info E fd zero_info = Some (d_info d))"

definition announce_msg :: "device \<Rightarrow> out_entry" where
  "announce_msg d = Msg (peer_code PEER_HEADER_DEV_CRT) (enc_device_info (d_info d))"

definition table_ok :: "d_context \<Rightarrow> bool" where
  "table_ok w \<longleftrightarrow> mem_ok w \<and> arr_inv (stream_ptrs w) \<and> arr_inv (devices w) \<and> connected (peer_stream w) w"

lemma grown_table: "grown w w' \<Longrightarrow> table_ok w \<Longrightarrow> table_ok w'"
  by (simp add: grown_def table_ok_def)

lemma grown_opened: "grown w w' \<Longrightarrow> table_ok w \<Longrightarrow> opened E w p d \<Longrightarrow> opened E w' p d"
  unfolding grown_def opened_def table_ok_def connected_def fd_at_def
  by (metis (no_types, lifting) option.distinct(1) option.simps(9))

lemma grown_devices:
  assumes "grown w w'" "arr_inv ds"
  shows "grown w (w'\<lparr>devices := ds\<rparr>)"
  using assms by (simp add: grown_def mem_ok_def heap_ok_def fd_at_def connected_def)

lemma dev_init_device_spec:
  assumes ok: "table_ok w" and r: "dev_init_device E path w = (r, w')"
  shows "(\<exists>d. r = Ok (length (devs w)) \<and> grown w w' \<and> devs w' = devs w @ [d] \<and> opened E w' path d \<and>
      (\<forall>b. outbox b w' = outbox b w) \<and> fd_at w (d_stream d) = None) \<or> r = Fail"
proof (cases "fresh sizeof_device w \<and> e_open E path \<noteq> None")
  case False
  then show ?thesis using r by (auto simp: dev_init_device_def check_def calloc_device_def got_fd_def split: if_splits)
next
  case True
  note tok = ok[unfolded table_ok_def]
  obtain fd where fd: "e_open E path = Some fd" using True by auto
  let ?w1 = "w\<lparr>m_brk := m_brk w + 16, k_open := (k_open w)(fd := True)\<rparr>"
  let ?rest = "\<lambda>a. check (case dev_get_device_info E fd zero_info of Some i \<Rightarrow> ret i | None \<Rightarrow> fail) (\<lambda>info.
     check (gets m_av) (\<lambda>av.
     check (on_devices (u_array_add av \<lparr>d_info = info, d_stream = a, d_grabbed = False\<rparr>)) (\<lambda>_.
     check (gets (\<lambda>w. arr_length (devices w) - 1)) (\<lambda>last_i.
     check (on_devices (u_array_getr last_i)) (\<lambda>k.
     check (load_dev k) (\<lambda>d. case c_string (di_name (d_info d)) of None \<Rightarrow> undef | Some _ \<Rightarrow> ret k))))))"
  have go: "check (e_epoll_add_device fd FD_DEV) ?rest ?w1 = (r, w')"
    using r True fd by (simp add: dev_init_device_def check_def[of calloc_device] calloc_device_def check_def[of "got_fd _"] got_fd_def)
  have "mem_ok (w\<lparr>m_brk := m_brk w + 16\<rparr>)" using mem_ok_brk[of w sizeof_device] tok True by simp
  then have ok1: "mem_ok ?w1" by (simp add: mem_ok_def heap_ok_def)
  have g1: "grown w ?w1" unfolding grown_def using ok1 tok by (auto simp: fd_at_def connected_def)
  obtain ra w3 where ra: "e_epoll_add_device fd FD_DEV ?w1 = (ra, w3)" by fastforce
  have "arr_inv (stream_ptrs ?w1)" "arr_inv (devices ?w1)" using tok by simp_all
  from ok1 this ra show ?thesis
  proof (cases rule: add_device_cases)
    case (1 a)
    note g3 = stream_added_grown[OF ok1 _ 1(2)]
    have go3: "?rest a w3 = (r, w')" using go ra 1(1) by (simp add: check_def[of "e_epoll_add_device _ _"])
    show ?thesis
    proof (cases "dev_get_device_info E fd zero_info")
      case None
      then show ?thesis using go3 by (simp add: fail_def check_def)
    next
      case (Some i)
      let ?d = "\<lparr>d_info = i, d_stream = a, d_grabbed = False\<rparr>"
      let ?fin = "\<lambda>_. check (gets (\<lambda>w. arr_length (devices w) - 1)) (\<lambda>last_i. check (on_devices (u_array_getr last_i)) (\<lambda>k.
        check (load_dev k) (\<lambda>d. case c_string (di_name (d_info d)) of None \<Rightarrow> undef | Some _ \<Rightarrow> ret k)))"
      have inv3: "arr_inv (devices w3)" using g3 tok by simp
      have go4: "check (gets m_av) (\<lambda>av. check (on_devices (u_array_add av ?d)) ?fin) w3 = (r, w')"
        using go3 Some by simp
      have gw3: "grown w w3" using grown_trans[OF g1] g3 tok by simp
      from inv3 go4 show ?thesis
      proof (cases rule: add_to_table)
        case t: (1 ds w4)
        have inv4: "arr_inv (devices w4)" "devs w4 = devs w @ [?d]" using t(1-3) g3 tok by simp_all
        have "arr_length (devices w4) = of_nat (unat (arr_length (devices w4)))" by simp
        also have "unat (arr_length (devices w4)) = Suc (length (devs w))" using length_elems[OF inv4(1)] inv4(2) by simp
        finally have "arr_length (devices w4) - 1 = of_nat (length (devs w))" by simp
        then have "w' = w4" "r = Ok (length (devs w))"
          using t(4) getr_dev_ok[OF inv4(1), of "length (devs w)"] load_dev_ok[OF inv4(1), of "length (devs w)"] inv4(2)
            device_info_wf[OF Some]
          by (simp_all add: check_def gets_def c_string_def ret_def nth_append)
        moreover have "grown w w4" unfolding t(1) by (rule grown_devices[OF gw3 t(2)])
        moreover have "opened E w4 path ?d"
        proof -
          have "connected (peer_stream w) ?w1" using tok g1 by (simp add: grown_def)
          moreover from this have "fd_at ?w1 (peer_stream w) \<noteq> None" by (auto simp: connected_def fd_at_def)
          moreover have "fd_at ?w1 (peer_stream w) \<noteq> Some fd" using g3 tok calculation(1) by auto
          ultimately have "fd_at w3 (peer_stream w3) \<noteq> Some fd"
            using g3 tok by (simp add: grown_def)
          then show ?thesis using fd Some g3 tok by (simp add: opened_def t(1) fd_at_def)
        qed
        moreover have "outbox b w4 = outbox b w" for b
        proof -
          have "outbox b w4 = outbox b w3" unfolding t(1) by (rule outbox_cong) simp_all
          also have "\<dots> = outbox b ?w1" using g3 tok by simp
          also have "\<dots> = outbox b w" by (rule outbox_cong) simp_all
          finally show ?thesis .
        qed
        ultimately show ?thesis using inv4(2) g3 tok by (auto simp: fd_at_def)
      qed simp
    qed
  next
    case 2
    then show ?thesis using go ra by (simp add: check_def)
  qed
qed


lemma posted_grown:
  assumes "posted w w' ps" "table_ok w"
  shows "grown w w' \<and> devices w' = devices w \<and> table_ok w'"
proof -
  note sb = postedD(2)[OF assms(1)]
  have "fd_at w' = fd_at w" using sb by (auto simp: same_base_def fd_at_def fun_eq_iff)
  then have "grown w w'" using assms same_base_ctx[OF sb] postedD(1,4)[OF assms(1)] sb
    by (simp add: grown_def table_ok_def same_base_def)
  then show ?thesis using assms(2) same_base_ctx[OF sb] by (simp add: grown_table)
qed

lemma announce_spec:
  assumes ok: "table_ok w" and k: "k < length (devs w)" "info_wf (d_info (devs w ! k))"
  shows "sends [(peer_stream w, announce_msg (devs w ! k))] (announce_device k) w"
proof -
  let ?d = "devs w ! k"
  have t: "mem_ok w" "connected (peer_stream w) w" "arr_inv (devices w)" using ok by (simp_all add: table_ok_def)
  have eq: "announce_device k w = stream_queue_writing_socket (peer_stream w) (peer_code PEER_HEADER_DEV_CRT)
      (of_nat sizeof_device_info) (enc_device_info (d_info ?d)) w"
    using load_dev_ok[OF t(3) k(1)] by (simp add: announce_device_def check_def gets_def)
  have "unat (of_nat sizeof_device_info :: u64) = length (enc_device_info (d_info ?d))"
    using length_enc_device_info[OF k(2)] by (simp add: sizeof_device_info_def)
  then have "sends [(peer_stream w, announce_msg ?d)] (stream_queue_writing_socket (peer_stream w)
      (peer_code PEER_HEADER_DEV_CRT) (of_nat sizeof_device_info) (enc_device_info (d_info ?d))) w"
    using sends_socket[OF t(1,2), of "of_nat sizeof_device_info" "enc_device_info (d_info ?d)" "peer_code PEER_HEADER_DEV_CRT"]
    by (simp add: announce_msg_def)
  then show ?thesis unfolding sends_def eq .
qed

definition announced_upto :: "kenv \<Rightarrow> string list \<Rightarrow> d_context \<Rightarrow> nat \<Rightarrow> d_context \<Rightarrow> bool" where
  "announced_upto E paths w0 k w \<longleftrightarrow> table_ok w \<and> peer_stream w = peer_stream w0 \<and> d_type w = d_type w0 \<and>
     (\<exists>ds. devs w = devs w0 @ ds \<and> list_all2 (opened E w) (take k paths) ds \<and>
        outbox (peer_stream w0) w = outbox (peer_stream w0) w0 @ map announce_msg ds)"

lemma announce_round:
  assumes i: "i < length (elems paths)" and inv: "arr_inv paths"
  shows "valid (announced_upto E (elems paths) w0 i)
    (\<lambda>w. case u_array_getv (of_nat i) paths of
         (Ok dev_path, _) \<Rightarrow> check (dev_init_device E dev_path) announce_device w
       | (Fail, _) \<Rightarrow> (Fail, w) | (Undef, _) \<Rightarrow> (Undef, w))
    (\<lambda>_. announced_upto E (elems paths) w0 (Suc i)) (\<lambda>_. True)"
  unfolding valid_def
proof (intro allI impI)
  fix w assume a: "announced_upto E (elems paths) w0 i w"
  let ?path = "elems paths ! i" and ?p = "peer_stream w0"
  from a obtain ds where ok: "table_ok w" and p: "peer_stream w = ?p" "d_type w = d_type w0" and ds: "devs w = devs w0 @ ds"
    "list_all2 (opened E w) (take i (elems paths)) ds" "outbox ?p w = outbox ?p w0 @ map announce_msg ds"
    by (auto simp: announced_upto_def)
  have get: "u_array_getv (of_nat i) paths = (Ok ?path, paths)"
    using u_array_getv_spec[OF inv, of "of_nat i"] index_fits[OF inv i] i by simp
  obtain r w1 where r: "dev_init_device E ?path w = (r, w1)" by fastforce
  show "case (case u_array_getv (of_nat i) paths of
         (Ok dev_path, _) \<Rightarrow> check (dev_init_device E dev_path) announce_device w
       | (Fail, _) \<Rightarrow> (Fail, w) | (Undef, _) \<Rightarrow> (Undef, w)) of
      (Ok _, s') \<Rightarrow> announced_upto E (elems paths) w0 (Suc i) s' | (Fail, s') \<Rightarrow> True | (Undef, s') \<Rightarrow> False"
    using dev_init_device_spec[OF ok r]
  proof (elim disjE exE conjE)
    fix d assume d: "r = Ok (length (devs w))" "grown w w1" "devs w1 = devs w @ [d]" "opened E w1 ?path d"
      "\<forall>b. outbox b w1 = outbox b w"
    have ok1: "table_ok w1" by (rule grown_table[OF d(2) ok])
    have p1: "peer_stream w1 = ?p" "d_type w1 = d_type w0" using d(2) p by (simp_all add: grown_def)
    have at: "devs w1 ! length (devs w) = d" "length (devs w) < length (devs w1)" using d(3) by simp_all
    have "info_wf (d_info d)" using d(4) device_info_wf by (auto simp: opened_def)
    then have s: "sends [(?p, announce_msg d)] (announce_device (length (devs w))) w1"
      using announce_spec[OF ok1 at(2)] at(1) p1 by simp
    obtain q w2 where q: "announce_device (length (devs w)) w1 = (q, w2)" by fastforce
    have eq: "check (dev_init_device E ?path) announce_device w = (q, w2)" using r d(1) q by (simp add: check_def)
    show ?thesis
    proof (cases q)
      case (Ok u)
      have post: "posted w1 w2 [(?p, announce_msg d)]" using sendsD(2)[OF s q] Ok by simp
      note g = posted_grown[OF post ok1]
      have g2: "grown w w2" using grown_trans[OF d(2)] g by simp
      have "list_all2 (opened E w2) (take (Suc i) (elems paths)) (ds @ [d])"
      proof -
        have "list_all2 (opened E w2) (take i (elems paths)) ds"
          using ds(2) by (rule list_all2_mono) (rule grown_opened[OF g2 ok])
        moreover have "opened E w2 ?path d" using g ok1 d(4) by (blast intro: grown_opened)
        ultimately show ?thesis using i by (simp add: take_Suc_conv_app_nth list_all2_appendI)
      qed
      moreover have "outbox ?p w2 = outbox ?p w0 @ map announce_msg (ds @ [d])"
        using postedD(3)[OF post, of ?p] d(5) ds(3) by (simp add: posts_at_Cons)
      moreover have "peer_stream w2 = ?p" "d_type w2 = d_type w0" using g p1 by (simp_all add: grown_def)
      ultimately have "announced_upto E (elems paths) w0 (Suc i) w2"
        unfolding announced_upto_def using g d(3) ds(1) by auto
      then show ?thesis using get eq Ok by simp
    next
      case Undef
      then show ?thesis using sendsD(1)[OF s q] by simp
    qed (use get eq in simp)
  next
    assume "r = Fail"
    then show ?thesis using get r by (simp add: check_def)
  qed
qed

lemma announce_all:
  assumes "table_ok w" "arr_inv paths"
  shows "case dev_init_devices_arg E paths w of
      (Ok _, w') \<Rightarrow> announced_upto E (elems paths) w (length (elems paths)) w' | (Fail, _) \<Rightarrow> True | (Undef, _) \<Rightarrow> False"
proof -
  have "valid (announced_upto E (elems paths) w 0) (dev_init_devices_arg E paths)
      (\<lambda>_. announced_upto E (elems paths) w (length (elems paths))) (\<lambda>_. True)"
    unfolding dev_init_devices_arg_def length_elems[OF assms(2), symmetric]
    by (rule valid_for_upt) (rule announce_round[OF _ assms(2)])
  moreover have "announced_upto E (elems paths) w 0 w" using assms(1) by (simp add: announced_upto_def)
  ultimately show ?thesis by (simp add: valid_def)
qed

subsection \<open>Opening succeeds\<close>

lemma dev_init_device_succeeds:
  assumes ok: "table_ok w" and mem: "ample 32 w" "spare (stream_ptrs w) = Suc n" "spare (devices w) = Suc m"
    and env: "e_open E path = Some fd" "k_epoll w fd = None" "dev_get_device_info E fd zero_info \<noteq> None"
  shows "\<exists>w'. dev_init_device E path w = (Ok (length (devs w)), w') \<and> spare (stream_ptrs w') = n \<and> spare (devices w') = m \<and>
    unat (m_brk w') = unat (m_brk w) + 32 \<and> m_av w' = m_av w \<and> room (peer_stream w) w' = room (peer_stream w) w \<and>
    (\<forall>f. f \<noteq> fd \<longrightarrow> k_epoll w' f = k_epoll w f) \<and> (\<forall>f. k_open w' f \<longleftrightarrow> k_open w f \<or> f = fd)"
proof -
  note tok = ok[unfolded table_ok_def]
  obtain i where i: "dev_get_device_info E fd zero_info = Some i" using env(3) by auto
  have fr: "fresh sizeof_device w" using ample_fresh[OF mem(1)] by (simp add: sizeof_device_def)
  let ?w1 = "w\<lparr>m_brk := m_brk w + 16, k_open := (k_open w)(fd := True)\<rparr>"
  have "mem_ok (w\<lparr>m_brk := m_brk w + 16\<rparr>)" using mem_ok_brk[OF _ fr] tok by simp
  then have ok1: "mem_ok ?w1" by (simp add: mem_ok_def heap_ok_def)
  note brk = fresh_brk[OF fr]
  have "\<exists>a w'. e_epoll_add_device fd FD_DEV ?w1 = (Ok a, w') \<and> spare (stream_ptrs w') = n"
    by (rule add_device_succeeds) (use mem brk tok env(2) mem_okD(1)[OF ok1] in \<open>simp_all add: ample_def\<close>)
  then obtain a w3 where a: "e_epoll_add_device fd FD_DEV ?w1 = (Ok a, w3)" "spare (stream_ptrs w3) = n" by blast
  have ok1': "arr_inv (stream_ptrs ?w1)" "arr_inv (devices ?w1)" using tok by simp_all
  have added: "stream_added a fd FD_DEV ?w1 w3" using add_device_cases[OF ok1 ok1' a(1)] by auto
  note g3 = stream_added_grown[OF ok1 ok1'(2) added]
  let ?d = "\<lparr>d_info = i, d_stream = a, d_grabbed = False\<rparr>"
  have dev: "devices w3 = devices w" using g3 by simp
  obtain ds where ds: "u_array_add (m_av w3) ?d (devices w3) = (Ok (), ds)" "spare ds = m"
    using add_uses_spare[of "devices w3" m] dev tok mem(3) by auto
  have inv: "arr_inv ds" "elems ds = devs w @ [?d]" using u_array_add_spec[OF _ ds(1)] dev tok by auto
  let ?w4 = "w3\<lparr>devices := ds\<rparr>"
  have inv4: "arr_inv (devices ?w4)" "length (devs w) < length (devs ?w4)" "devs ?w4 ! length (devs w) = ?d" using inv by simp_all
  have "unat (arr_length ds) = Suc (length (devs w))" using length_elems[OF inv(1)] inv(2) by simp
  moreover have "arr_length ds = of_nat (unat (arr_length ds))" by simp
  ultimately have len: "arr_length ds - 1 = of_nat (length (devs w))" by simp
  have "dev_init_device E path w = (Ok (length (devs w)), ?w4)"
    using fr env(1) a(1) i ds(1) len getr_dev_ok[OF inv4(1,2)] load_dev_ok[OF inv4(1,2)] inv4(3) device_info_wf[OF i]
    by (simp add: dev_init_device_def check_def[of calloc_device] calloc_device_def check_def[of "got_fd _"] got_fd_def
        check_def[of "e_epoll_add_device _ _"] check_def[of "gets _"] gets_def check_def[of "on_devices (u_array_add _ _)"] zoom_def[of _ _ "u_array_add _ _"])
      (simp add: check_def ret_def c_string_def)
  moreover have "room (peer_stream w) ?w4 = room (peer_stream w) w"
  proof -
    obtain q where q: "m_streams w3 = (m_streams w)(a \<mapsto> ready_stream FD_DEV fd FD_DEV q)" "m_streams w a = None"
      using added by (auto simp: stream_added_def)
    moreover have "m_streams w (peer_stream w) \<noteq> None" using tok by (auto simp: connected_def)
    ultimately show ?thesis by (auto simp: room_def)
  qed
  moreover have "unat (m_brk ?w4) = unat (m_brk w) + 32"
  proof -
    have "m_brk w3 = m_brk w + 16 + 16" using added by (simp add: stream_added_def)
    moreover have "fresh sizeof_device ?w1" using mem(1) brk by (simp add: ample_def fresh_def sizeof_device_def)
    ultimately show ?thesis using fresh_brk[of sizeof_device ?w1] brk by simp
  qed
  ultimately show ?thesis using a(2) ds(2) added
    by (intro exI[of _ ?w4]) (auto simp: stream_added_def)
qed


text \<open>An event file the kernel lets a client have.\<close>

definition admitted :: "kenv \<Rightarrow> string \<Rightarrow> bool" where
  "admitted E p \<longleftrightarrow> (\<exists>fd. e_open E p = Some fd \<and> 0 < fd \<and> dev_get_device_info E fd zero_info \<noteq> None \<and>
     drain_keys (e_keys E fd) = Ok () \<and> e_grab E fd)"

definition announce_budget :: "kenv \<Rightarrow> string list \<Rightarrow> d_context \<Rightarrow> nat \<Rightarrow> d_context \<Rightarrow> bool" where
  "announce_budget E paths w0 i w \<longleftrightarrow> announced_upto E paths w0 i w \<and>
     ample (16 * length paths + 48 * (length paths - i)) w \<and> length paths - i \<le> spare (stream_ptrs w) \<and>
     length paths - i \<le> spare (devices w) \<and> length paths + (length paths - i) \<le> room (peer_stream w0) w \<and>
     (\<forall>j < length paths. \<forall>fd. e_open E (paths ! j) = Some fd \<longrightarrow> (if j < i then k_open w fd else k_epoll w fd = None))"

lemma announce_round_succeeds:
  assumes inv: "arr_inv paths" and i: "i < length (elems paths)" and a: "announce_budget E (elems paths) w0 i w"
    and env: "\<forall>p \<in> set (elems paths). admitted E p" "distinct (map (e_open E) (elems paths))"
  shows "\<exists>w'. (case u_array_getv (of_nat i) paths of
         (Ok dev_path, _) \<Rightarrow> check (dev_init_device E dev_path) announce_device w
       | (Fail, _) \<Rightarrow> (Fail, w) | (Undef, _) \<Rightarrow> (Undef, w)) = (Ok (), w') \<and> announce_budget E (elems paths) w0 (Suc i) w'"
proof -
  let ?ps = "elems paths" and ?p = "peer_stream w0"
  let ?path = "?ps ! i" and ?n = "length (elems paths)" and ?body = "\<lambda>w. case u_array_getv (of_nat i) paths of
         (Ok dev_path, _) \<Rightarrow> check (dev_init_device E dev_path) announce_device w
       | (Fail, _) \<Rightarrow> (Fail, w) | (Undef, _) \<Rightarrow> (Undef, w)"
  note b = a[unfolded announce_budget_def]
  have ok: "table_ok w" "peer_stream w = ?p" using b by (simp_all add: announced_upto_def)
  obtain k where k: "?n - i = Suc k" using i by (metis Suc_diff_Suc)
  then have k': "?n - Suc i = k" by simp
  obtain fd where fd: "e_open E ?path = Some fd" "dev_get_device_info E fd zero_info \<noteq> None"
    using bspec[OF env(1) nth_mem[OF i]] by (auto simp: admitted_def)
  have free: "k_epoll w fd = None" using b i fd(1) by auto
  have mem: "ample 32 w" using b k by (simp add: ample_def)
  obtain n m where nm: "spare (stream_ptrs w) = Suc n" "spare (devices w) = Suc m" "k \<le> n" "k \<le> m"
    using b k by (metis Suc_le_D Suc_le_mono)
  from dev_init_device_succeeds[OF ok(1) mem nm(1,2) fd(1) free fd(2)] obtain w1 where
    w1: "dev_init_device E ?path w = (Ok (length (devs w)), w1)" "spare (stream_ptrs w1) = n" "spare (devices w1) = m"
      "unat (m_brk w1) = unat (m_brk w) + 32" "m_av w1 = m_av w" "room ?p w1 = room ?p w"
      "\<forall>f. f \<noteq> fd \<longrightarrow> k_epoll w1 f = k_epoll w f" "\<forall>f. k_open w1 f \<longleftrightarrow> k_open w f \<or> f = fd"
    using ok(2) by auto
  from dev_init_device_spec[OF ok(1) w1(1)] obtain d where d: "grown w w1" "devs w1 = devs w @ [d]" "opened E w1 ?path d" by auto
  have t1: "table_ok w1" "peer_stream w1 = ?p" using grown_table[OF d(1) ok(1)] d(1) ok(2) by (simp_all add: grown_def)
  have wf: "info_wf (d_info d)" using d(3) device_info_wf by (auto simp: opened_def)
  have at: "load_dev (length (devs w)) w1 = (Ok d, w1)"
    using load_dev_ok[of w1 "length (devs w)"] t1(1) d(2) by (simp add: table_ok_def)
  have len: "unat (of_nat sizeof_device_info :: u64) = 1752" "length (enc_device_info (d_info d)) = 1752"
    using length_enc_device_info[OF wf] by (simp_all add: sizeof_device_info_def)
  have "ample 16 w1" "fresh 1752 w1" using b w1(4,5) k by (auto simp: ample_def fresh_def)
  moreover obtain r where r: "room ?p w1 = Suc r" "?n + k \<le> r" using b k w1(6) by (metis Suc_le_D Suc_le_mono add_Suc_right)
  ultimately obtain w2 where w2: "stream_queue_writing_socket ?p (peer_code PEER_HEADER_DEV_CRT) (of_nat sizeof_device_info)
      (enc_device_info (d_info d)) w1 = (Ok (), w2)" "room ?p w2 = r" "unat (m_brk w2) = unat (m_brk w1) + 16"
    using send_socket_uses_room[of w1 ?p "of_nat sizeof_device_info" "enc_device_info (d_info d)" r "peer_code PEER_HEADER_DEV_CRT"]
      t1 len by (auto simp: table_ok_def)
  have get: "u_array_getv (of_nat i) paths = (Ok ?path, paths)"
    using u_array_getv_spec[OF inv, of "of_nat i"] index_fits[OF inv i] i by simp
  have ran: "?body w = (Ok (), w2)"
    using get w1(1) at w2(1) t1(2) by (simp add: check_def announce_device_def gets_def)
  have up: "announced_upto E ?ps w0 (Suc i) w2"
    using valid_OkD[OF announce_round[OF i inv, of E w0] _ ran] b by simp
  have sb: "same_base w1 w2"
    using send_socket_spec[OF _ _ _ w2(1)] t1 len by (simp add: table_ok_def)
  have "if j < Suc i then k_open w2 f else k_epoll w2 f = None" if j: "j < ?n" "e_open E (?ps ! j) = Some f" for j f
  proof -
    have "f = fd \<longleftrightarrow> j = i" using nth_eq_iff_index_eq[OF env(2), of j i] j i fd(1) by auto
    moreover have "if j < i then k_open w f else k_epoll w f = None" using b j by blast
    ultimately show ?thesis using w1(7,8) sb by (auto simp: same_base_def)
  qed
  moreover have "ample (16 * ?n + 48 * (?n - Suc i)) w2"
    unfolding k' using b k w1(4,5) w2(3) sb by (simp add: ample_def same_base_def)
  ultimately have "announce_budget E ?ps w0 (Suc i) w2"
    unfolding announce_budget_def k' using up nm w1(2,3) w2(2) r same_base_ctx[OF sb] by simp
  then show ?thesis using ran by blast
qed

end
