(* ===== verification/Rcn_Mirror.thy ===== *)
theory Rcn_Mirror
  imports Rcn_Announce
begin

section \<open>The server mirrors the client\<close>

text \<open>
  Client and server composed: \<open>dev_init_device_ctx\<close> (rcn_device.c) of a client opens, announces and grabs
  the devices of its command line; the messages it leaves in the outbox of the peer stream, handed in order
  to the server's \<open>p_handler\<close> (rcn_peer.c), build a table of virtual devices that mirrors the client's.
  \<open>serves\<close> is the step relation of the server between which anything may happen that leaves its device
  table alone; the transport of the messages is the subject of Rcn_Wire.
\<close>

subsection \<open>Setting up a client\<close>

lemma list_all2_right: "list_all2 P xs ys \<Longrightarrow> y \<in> set ys \<Longrightarrow> \<exists>x \<in> set xs. P x y"
  by (induction rule: list_all2_induct) auto

lemma announced_client_ok:
  assumes "announced_upto E paths w0 k w" "devs w0 = []"
  shows "client_ok w"
proof -
  obtain ds where ds: "devs w = ds" "list_all2 (opened E w) (take k paths) ds" and t: "table_ok w"
    using assms by (auto simp: announced_upto_def)
  have "\<exists>p. opened E w p d" if "d \<in> set (devs w)" for d
    using list_all2_right[OF ds(2), of d] that ds(1) by auto
  then have "\<forall>d \<in> set (devs w). \<exists>fd. fd_at w (d_stream d) = Some fd \<and> fd_at w (peer_stream w) \<noteq> Some fd"
    unfolding opened_def by blast
  then show ?thesis using t by (simp add: client_ok_def table_ok_def)
qed

text \<open>A client whose set-up has succeeded: one grabbed device per path, in order.\<close>

definition client_ready :: "kenv \<Rightarrow> string list \<Rightarrow> d_context \<Rightarrow> d_context \<Rightarrow> device list \<Rightarrow> bool" where
  "client_ready E paths w w' ds \<longleftrightarrow> client_ok w' \<and> peer_stream w' = peer_stream w \<and>
     list_all2 (opened E w') paths ds \<and> devs w' = map (set_grab True) ds \<and>
     outbox (peer_stream w) w' = outbox (peer_stream w) w @ map announce_msg ds @ map (grab_msg True) ds \<and>
     (\<forall>d \<in> set ds. \<forall>fd. fd_at w' (d_stream d) = Some fd \<longrightarrow> k_grab w' fd \<and> k_epoll w' fd \<noteq> None)"

lemma client_set_up:
  assumes w: "mem_ok w" "arr_inv (stream_ptrs w)" "connected (peer_stream w) w" and paths: "arr_inv paths"
  shows "case dev_init_device_ctx E paths DAEMON_CLIENT w of
      (Ok _, w') \<Rightarrow> \<exists>ds. client_ready E (elems paths) w w' ds | (Fail, _) \<Rightarrow> True | (Undef, _) \<Rightarrow> False"
proof -
  obtain r0 arr where arr: "u_array_init (m_av w) (of_nat sizeof_device) rcn_std_capacity (devices w) = (r0, arr)" by fastforce
  let ?w0 = "w\<lparr>devices := arr\<rparr>" and ?k = "length (elems paths)"
  show ?thesis
  proof (cases "r0 = Ok ()")
    case False
    then show ?thesis using arr u_array_init_spec[OF arr]
      by (auto simp: dev_init_device_ctx_def check_def gets_def zoom_def)
  next
    case True
    then have inv: "arr_inv arr" "elems arr = []" using u_array_init_spec[OF arr] by auto
    have eq: "dev_init_device_ctx E paths DAEMON_CLIENT w =
        check (dev_init_devices_arg E paths) (\<lambda>_. dev_ctrl_devices E DEV_CTRL_CAPTURE) ?w0"
      using arr True by (simp add: dev_init_device_ctx_def check_def[of "gets _"] gets_def check_def[of "on_devices _"] zoom_def)
    have "table_ok ?w0" using w inv(1) by (simp add: table_ok_def mem_ok_def heap_ok_def connected_def)
    note ann = announce_all[OF this paths, of E]
    have box0: "outbox (peer_stream w) ?w0 = outbox (peer_stream w) w" by (rule outbox_cong) simp_all
    obtain r1 w1 where r1: "dev_init_devices_arg E paths ?w0 = (r1, w1)" by fastforce
    show ?thesis
    proof (cases "r1 = Ok ()")
      case False
      then show ?thesis using ann unfolding eq r1 by (cases r1) (simp_all add: r1 check_def)
    next
      case ok: True
      then have a: "announced_upto E (elems paths) ?w0 ?k w1" using ann r1 by simp
      then obtain ds where ds: "devs w1 = ds" "list_all2 (opened E w1) (elems paths) ds" "peer_stream w1 = peer_stream w"
        "outbox (peer_stream w) w1 = outbox (peer_stream w) w @ map announce_msg ds"
        using inv(2) box0 by (auto simp: announced_upto_def)
      have "client_ok w1" using announced_client_ok[OF a] inv(2) by simp
      note ctrl = ctrl_devices_spec[OF this, where E = E and ctrl = DEV_CTRL_CAPTURE]
      obtain r2 w2 where r2: "dev_ctrl_devices E DEV_CTRL_CAPTURE w1 = (r2, w2)" by fastforce
      show ?thesis
      proof (cases "r2 = Ok ()")
        case False
        then show ?thesis using ctrl r2 unfolding eq by (cases r2) (simp_all add: r1 ok check_def)
      next
        case ok2: True
        then have g: "grabbed_upto True w1 (length ds) w2" using ctrl r2 ds(1) by simp
        have opened: "opened E w2 p d" if "opened E w1 p d" for p d
          using that g by (simp add: opened_def grabbed_upto_def)
        have "client_ready E (elems paths) w w2 ds" unfolding client_ready_def
          using g ds opened by (auto simp: grabbed_upto_def elim: list_all2_mono)
        then show ?thesis unfolding eq by (auto simp: r1 ok r2 ok2 check_def)
      qed
    qed
  qed
qed


text \<open>The whole set-up.\<close>

lemma client_starts_spec:
  assumes w: "mem_ok w" "arr_inv (stream_ptrs w)" "connected (peer_stream w) w" and paths: "arr_inv paths" "length (elems paths) \<le> 10"
    and env: "\<forall>p \<in> set (elems paths). admitted E p" "distinct (map (e_open E) (elems paths))"
      "\<forall>p \<in> set (elems paths). \<forall>fd. e_open E p = Some fd \<longrightarrow> k_epoll w fd = None"
    and mem: "ample (64 * length (elems paths)) w" "length (elems paths) \<le> spare (stream_ptrs w)"
      "2 * length (elems paths) \<le> room (peer_stream w) w"
  shows "\<exists>w' ds. dev_init_device_ctx E paths DAEMON_CLIENT w = (Ok (), w') \<and> client_ready E (elems paths) w w' ds"
proof -
  let ?ps = "elems paths" and ?n = "length (elems paths)" and ?p = "peer_stream w"
  obtain r0 arr where arr: "u_array_init (m_av w) (of_nat sizeof_device) rcn_std_capacity (devices w) = (r0, arr)" by fastforce
  have "granted (m_av w) 17680" using mem(1) by (simp add: ample_def)
  then have r0: "r0 = Ok ()" "spare arr = 10" using arr
    by (auto simp: u_array_init_def Let_def rcn_std_capacity_def sizeof_device_def spare_def split: if_splits)
  then have inv: "arr_inv arr" "elems arr = []" using u_array_init_spec[OF arr] by auto
  let ?w0 = "w\<lparr>devices := arr\<rparr>"
  have eq: "dev_init_device_ctx E paths DAEMON_CLIENT w =
      check (dev_init_devices_arg E paths) (\<lambda>_. dev_ctrl_devices E DEV_CTRL_CAPTURE) ?w0"
    using arr r0(1) by (simp add: dev_init_device_ctx_def check_def[of "gets _"] gets_def check_def[of "on_devices _"] zoom_def)
  have t0: "table_ok ?w0" using w inv(1) by (simp add: table_ok_def mem_ok_def heap_ok_def connected_def)
  have "\<forall>j < ?n. \<forall>fd. e_open E (?ps ! j) = Some fd \<longrightarrow> k_epoll w fd = None" using env(3) nth_mem by blast
  then have "announce_budget E ?ps ?w0 0 ?w0"
    unfolding announce_budget_def using t0 mem r0(2) paths(2) by (simp add: announced_upto_def ample_def room_def)
  then have "\<exists>w1. dev_init_devices_arg E paths ?w0 = (Ok (), w1) \<and> announce_budget E ?ps ?w0 ?n w1"
    unfolding dev_init_devices_arg_def length_elems[OF paths(1), symmetric]
    by (rule for_upt_succeeds[rotated]) (rule announce_round_succeeds[OF paths(1) _ _ env(1,2)])
  then obtain w1 where w1: "dev_init_devices_arg E paths ?w0 = (Ok (), w1)" "announce_budget E ?ps ?w0 ?n w1" by blast
  then have up: "announced_upto E ?ps ?w0 ?n w1" by (simp add: announce_budget_def)
  have c: "client_ok w1" using announced_client_ok[OF up] inv(2) by simp
  have op: "list_all2 (opened E w1) ?ps (devs w1)" "peer_stream w1 = ?p" using up inv(2) by (auto simp: announced_upto_def)
  then have len: "length (devs w1) = ?n" by (simp add: list_all2_lengthD)
  have "yields E w1 d" if d: "d \<in> set (devs w1)" for d
  proof -
    obtain j where j: "j < ?n" "devs w1 ! j = d" using d len by (metis in_set_conv_nth)
    then have "opened E w1 (?ps ! j) d" using op(1) by (metis list_all2_nthD)
    moreover have "\<forall>fd. e_open E (?ps ! j) = Some fd \<longrightarrow> k_open w1 fd" using w1(2) j(1) by (simp add: announce_budget_def)
    ultimately show ?thesis using bspec[OF env(1) nth_mem[OF j(1)]] by (auto simp: opened_def admitted_def yields_def)
  qed
  then obtain w2 where w2: "dev_ctrl_devices E DEV_CTRL_CAPTURE w1 = (Ok (), w2)"
    using ctrl_devices_succeed[OF c, of E DEV_CTRL_CAPTURE] w1(2) len op(2) by (auto simp: announce_budget_def)
  have "dev_init_device_ctx E paths DAEMON_CLIENT w = (Ok (), w2)" unfolding eq using w1(1) w2 by (simp add: check_def)
  then show ?thesis using client_set_up[OF w paths(1), of E] by auto
qed

subsection \<open>A server that receives messages\<close>

text \<open>Whatever happens between two messages, as long as it leaves the device table and its streams alone.\<close>

definition between :: "d_context \<Rightarrow> d_context \<Rightarrow> bool" where
  "between w w' \<longleftrightarrow> grown w w' \<and> devices w' = devices w \<and> k_ui w' = k_ui w"

inductive serves :: "kenv \<Rightarrow> out_entry list \<Rightarrow> d_context \<Rightarrow> d_context \<Rightarrow> bool" for E where
  serves_done: "serves E [] w w"
| serves_next: "received v body it w \<Longrightarrow> p_handler E a it w = (Ok (), w1) \<Longrightarrow> between w1 w2 \<Longrightarrow>
    serves E ms w2 w' \<Longrightarrow> serves E (Msg v body # ms) w w'"

inductive_cases serves_NilE: "serves E [] w w'"
inductive_cases serves_MsgE: "serves E (Msg v body # ms) w w'"

text \<open>The requests made for a list of devices, each of its own descriptor.\<close>

definition requests :: "d_context \<Rightarrow> device list \<Rightarrow> device list \<Rightarrow> (int \<times> ui_req) list" where
  "requests w ds es = concat (map (\<lambda>(d, e). map (Pair (the (fd_at w (d_stream e)))) (udev_reqs (d_info d))) (zip ds es))"

definition made_of :: "d_context \<Rightarrow> device \<Rightarrow> device \<Rightarrow> bool" where
  "made_of w d e \<longleftrightarrow> d_info e = virt_info (d_info d) \<and> \<not> d_grabbed e \<and> connected (d_stream e) w \<and> fd_at w (d_stream e) \<noteq> None"

lemma serves_announcements:
  assumes "srv_ok u" "serves E (map announce_msg ds @ ms) u u'" "\<forall>d \<in> set ds. portable d"
  shows "\<exists>v es. serves E ms v u' \<and> grown u v \<and> devs v = devs u @ es \<and> list_all2 (made_of v) ds es \<and>
    k_ui v = k_ui u @ requests v ds es"
  using assms
proof (induction ds arbitrary: u)
  case Nil
  then show ?case by (intro exI[of _ u] exI[of _ "[]"]) (simp add: grown_refl requests_def)
next
  case (Cons d ds)
  from Cons.prems(2) obtain it a w1 w2 where s: "received (peer_code PEER_HEADER_DEV_CRT) (enc_device_info (d_info d)) it u"
    "p_handler E a it u = (Ok (), w1)" "between w1 w2" "serves E (map announce_msg ds @ ms) w2 u'"
    unfolding announce_msg_def list.map append_Cons by (elim serves_MsgE) blast
  have d: "portable d" using Cons.prems(3) by simp
  from p_handler_crt_spec[OF Cons.prems(1) d s(1,2)] obtain fd b where m: "udev_made E (d_info d) u w1 fd b" by auto
  let ?e = "\<lparr>d_info = virt_info (d_info d), d_stream = b, d_grabbed = False\<rparr>"
  have b: "grown w1 w2" "devs w2 = devs u @ [?e]" "k_ui w2 = k_ui u @ map (Pair fd) (udev_reqs (d_info d))"
    "fd_at w1 b = Some fd" "connected b w1" "grown u w1"
    using m s(3) by (simp_all add: udev_made_def between_def)
  then have w2: "fd_at w2 b = Some fd" "connected b w2" "grown u w2"
    using grown_trans[OF b(6,1)] by (simp_all add: grown_def)
  from Cons.IH[OF grown_srv[OF b(1)] s(4)] Cons.prems(3) obtain v es where v: "serves E ms v u'" "grown w2 v"
    "devs v = devs w2 @ es" "list_all2 (made_of v) ds es" "k_ui v = k_ui w2 @ requests v ds es" by auto
  have fd: "fd_at v b = Some fd" "connected b v" using v(2) w2 by (simp_all add: grown_def)
  then have "made_of v d ?e" by (simp add: made_of_def)
  then show ?case
    by (intro exI[of _ v] exI[of _ "?e # es"])
      (use v b(2,3) grown_trans[OF w2(3) v(2)] fd in \<open>simp add: requests_def\<close>)
qed

lemma map_unique_id:
  assumes "distinct (map (\<lambda>d. di_random_id (d_info d)) (pre @ e # post))"
  shows "map (\<lambda>c. if di_random_id (d_info c) = di_random_id (d_info e) then f c else c) (pre @ e # post) = pre @ f e # post"
proof -
  have "di_random_id (d_info c) \<noteq> di_random_id (d_info e)" if "c \<in> set pre \<union> set post" for c
    using assms that by (auto simp: image_iff)
  then show ?thesis by (simp add: map_idI)
qed

lemma serves_grabs:
  assumes "srv_ok u" "serves E (map (grab_msg g) ds) u u'" "devs u = pre @ post"
    and "list_all2 (\<lambda>d e. di_random_id (d_info e) = di_random_id (d_info d)) ds post"
    and "distinct (map (\<lambda>d. di_random_id (d_info d)) (devs u))"
  shows "grown u u' \<and> devs u' = pre @ map (set_grab g) post \<and> k_ui u' = k_ui u"
  using assms
proof (induction ds arbitrary: u pre post)
  case Nil
  then show ?case by (auto elim: serves_NilE simp: grown_refl)
next
  case (Cons d ds)
  from Cons.prems(4) obtain e es where post: "post = e # es" and id: "di_random_id (d_info e) = di_random_id (d_info d)"
    and rest: "list_all2 (\<lambda>d e. di_random_id (d_info e) = di_random_id (d_info d)) ds es" by (cases post) auto
  from Cons.prems(2) obtain it a w1 w2 where s: "received (peer_code PEER_HEADER_DEV_UPD_GRAB)
      (enc_upd_grab \<lparr>upd_random_id = di_random_id (d_info e), upd_grab = g\<rparr>) it u"
    "p_handler E a it u = (Ok (), w1)" "between w1 w2" "serves E (map (grab_msg g) ds) w2 u'"
    unfolding grab_msg_def list.map id by (elim serves_MsgE) blast
  have inv: "arr_inv (devices u)" "e \<in> set (devs u)" using Cons.prems(1,3) post by (simp_all add: srv_ok_def)
  from grab_update[OF inv Cons.prems(5) s(1), of E a] s(2) have w1: "w1 = u\<lparr>devices := devices w1\<rparr>" "arr_inv (devices w1)"
    "devs w1 = map (\<lambda>c. if di_random_id (d_info c) = di_random_id (d_info e) then c\<lparr>d_grabbed := g\<rparr> else c) (devs u)" by auto
  have devs1: "devs w1 = (pre @ [set_grab g e]) @ es"
    using w1(3) map_unique_id[of pre e es] Cons.prems(5) unfolding Cons.prems(3) post by (simp add: set_grab_def)
  have "grown u w1" by (subst w1(1)) (rule grown_devices[OF grown_refl[OF Cons.prems(1)] w1(2)])
  then have g: "grown u w2" using s(3) grown_trans unfolding between_def by blast
  have k: "k_ui w2 = k_ui u" "devs w2 = (pre @ [set_grab g e]) @ es"
    using s(3) devs1 w1(1)[THEN arg_cong, of k_ui] by (simp_all add: between_def)
  have "map (\<lambda>d. di_random_id (d_info d)) (devs w2) = map (\<lambda>d. di_random_id (d_info d)) (devs u)"
    unfolding k(2) Cons.prems(3) post by (simp add: set_grab_def)
  with Cons.IH[OF grown_srv[OF g] s(4) k(2) rest] Cons.prems(5)
  have "grown w2 u' \<and> devs u' = (pre @ [set_grab g e]) @ map (set_grab g) es \<and> k_ui u' = k_ui w2" by simp
  then show ?case using grown_trans[OF g] k(1) post by simp
qed

subsection \<open>Client and server\<close>

definition mirror :: "d_context \<Rightarrow> device \<Rightarrow> device \<Rightarrow> bool" where
  "mirror w d e \<longleftrightarrow> d_info e = virt_info (d_info d) \<and> d_grabbed e = d_grabbed d \<and> connected (d_stream e) w"

text \<open>C3: When the set-up of a client has succeeded and its server has handled, in order and without a
  failure, the messages the set-up queued, the server has exactly one virtual device per path of the
  client's command line, in that order: each mirrors the device the client holds, with the name prefixed,
  the same capabilities and random id and the same grab flag, on a live stream; and uinput has been asked
  for exactly the capabilities the client announced, each device on its own descriptor.\<close>

theorem client_mirrored:
  assumes client: "mem_ok w" "arr_inv (stream_ptrs w)" "connected (peer_stream w) w" "arr_inv paths"
      "outbox (peer_stream w) w = []" "dev_init_device_ctx E paths DAEMON_CLIENT w = (Ok (), w')"
    and ids: "distinct (map (\<lambda>d. di_random_id (d_info d)) (devs w'))"
    and names: "\<forall>d \<in> set (devs w'). length (takeWhile (\<lambda>c. c \<noteq> 0) (di_name (d_info d))) \<le> 68"
    and server: "srv_ok u" "devs u = []" "serves F (outbox (peer_stream w) w') u u'"
  shows "length (devs w') = length (elems paths) \<and> list_all2 (mirror u') (devs w') (devs u') \<and>
    k_ui u' = k_ui u @ requests u' (devs w') (devs u')"
proof -
  obtain ds where ds: "client_ready E (elems paths) w w' ds"
    using client_set_up[OF client(1-4), of E] client(6) by auto
  then have dw: "devs w' = map (set_grab True) ds" and op: "list_all2 (opened E w') (elems paths) ds"
    and out: "outbox (peer_stream w) w' = map announce_msg ds @ map (grab_msg True) ds"
    using client(5) by (simp_all add: client_ready_def)
  have port: "portable d" if d: "d \<in> set ds" for d
  proof -
    obtain fd where "dev_get_device_info E fd zero_info = Some (d_info d)"
      using list_all2_right[OF op d] by (auto simp: opened_def)
    moreover have "length (takeWhile (\<lambda>c. c \<noteq> 0) (di_name (d_info d))) \<le> 68" using names d by (simp add: dw set_grab_def)
    ultimately show ?thesis using device_info_wf by (simp add: portable_def)
  qed
  from serves_announcements[OF server(1) server(3)[unfolded out]] port server(2) obtain v es where
    v: "serves F (map (grab_msg True) ds) v u'" "grown u v" "devs v = es" "list_all2 (made_of v) ds es"
      "k_ui v = k_ui u @ requests v ds es" by auto
  have same: "list_all2 (\<lambda>d e. di_random_id (d_info e) = di_random_id (d_info d)) ds es"
    using v(4) by (rule list_all2_mono) (simp add: made_of_def virt_info_def)
  then have "map (\<lambda>d. di_random_id (d_info d)) es = map (\<lambda>d. di_random_id (d_info d)) ds"
    by (induction rule: list_all2_induct) auto
  then have "distinct (map (\<lambda>d. di_random_id (d_info d)) (devs v))"
    using ids v(3) by (simp add: dw comp_def set_grab_def)
  from serves_grabs[OF grown_srv[OF v(2)] v(1) _ same this, of "[]"] v(3)
  have u': "grown v u'" "devs u' = map (set_grab True) es" "k_ui u' = k_ui v" by simp_all
  have "list_all2 (mirror u') (map (set_grab True) ds) (map (set_grab True) es)"
    using v(4) u'(1) by (auto simp: list_all2_map1 list_all2_map2 mirror_def made_of_def set_grab_def grown_def elim!: list_all2_mono)
  moreover have "requests v ds es = requests u' (map (set_grab True) ds) (map (set_grab True) es)"
    using v(4) u'(1)
  proof (induction rule: list_all2_induct)
    case (Cons d ds e es)
    then have "fd_at u' (d_stream e) = fd_at v (d_stream e)" by (simp add: made_of_def grown_def)
    then show ?case using Cons by (simp add: requests_def set_grab_def)
  qed (simp add: requests_def)
  moreover have "length (devs w') = length (elems paths)" using op dw by (simp add: list_all2_lengthD)
  ultimately show ?thesis using v(5) u'(2,3) dw by simp
qed

subsection \<open>A client with one mouse\<close>

definition fresh_client :: d_context where
  "fresh_client = ctx_of (demo_mem\<lparr>k_epoll := [5 \<mapsto> (EPOLLIN, 16)]\<rparr>) [] [] 16 DAEMON_CLIENT RCN_RUNNING PEER_CONNECTED"

definition one_path :: "string u_array" where
  "one_path = array_of 8 10 [''/dev/input/event0'']"

text \<open>C14: A client with at most ten distinct event files the kernel admits, and with memory, streams and
  room in the outbox of its server's stream, sets itself up successfully: it ends with one grabbed device
  per path in order, having announced every device before the first grab.\<close>

theorem client_starts:
  assumes "mem_ok w" "arr_inv (stream_ptrs w)" "connected (peer_stream w) w" "arr_inv paths" "length (elems paths) \<le> 10"
    and "\<forall>p \<in> set (elems paths). admitted E p" "distinct (map (e_open E) (elems paths))"
      "\<forall>p \<in> set (elems paths). \<forall>fd. e_open E p = Some fd \<longrightarrow> k_epoll w fd = None"
    and "ample (64 * length (elems paths)) w" "length (elems paths) \<le> spare (stream_ptrs w)"
      "2 * length (elems paths) \<le> room (peer_stream w) w"
  shows "\<exists>w' ds. dev_init_device_ctx E paths DAEMON_CLIENT w = (Ok (), w') \<and> client_ready E (elems paths) w w' ds"
  using assms by (rule client_starts_spec)

lemma fresh_client_ok:
  shows "mem_ok fresh_client" "arr_inv (stream_ptrs fresh_client)" "peer_stream fresh_client = 16" "connected 16 fresh_client"
    "outbox 16 fresh_client = []" "ample 64 fresh_client" "spare (stream_ptrs fresh_client) = 9" "room 16 fresh_client = 10"
    "k_epoll fresh_client 8 = None"
proof -
  have "q_items (s_queue s) = []" if "m_streams demo_mem a = Some s" for a s
    using demo_mem_connected(2)[of a] that by (simp add: outbox_def)
  then have "mem_ok (demo_mem\<lparr>k_epoll := [5 \<mapsto> (EPOLLIN, 16)]\<rparr>)"
    using demo_mem_ok by (simp add: mem_ok_def heap_ok_def)
  then show "mem_ok fresh_client" by (simp add: fresh_client_def)
  have "outbox 16 (demo_mem\<lparr>k_epoll := [5 \<mapsto> (EPOLLIN, 16)]\<rparr>) = outbox 16 demo_mem" by (rule outbox_cong) simp_all
  then show "outbox 16 fresh_client = []" using demo_mem_connected(2)[of 16] by (simp add: fresh_client_def)
  show "arr_inv (stream_ptrs fresh_client)" by (simp add: fresh_client_def array_of_inv)
qed (simp_all add: fresh_client_def ample_def granted_def demo_mem_def mem_of_def spare_def array_of_def elems_def room_def connected_def fresh_stream_def)

lemma one_path_ok: "arr_inv one_path" "elems one_path = [''/dev/input/event0'']"
  by (simp_all add: one_path_def array_of_inv)

lemma mouse_admitted: "admitted demo_env ''/dev/input/event0''" "e_open demo_env ''/dev/input/event0'' = Some 8"
proof -
  show "e_open demo_env ''/dev/input/event0'' = Some 8" by (simp add: demo_env_def RCN_DEV_UINPUT_PATH_def)
  then show "admitted demo_env ''/dev/input/event0''" using mouse_read[of 8]
    by (simp add: admitted_def) (simp add: demo_env_def)
qed

lemma one_mouse:
  assumes "client_ready demo_env (elems one_path) fresh_client w' ds"
  shows "\<exists>d. ds = [d] \<and> d_info d = mouse_info \<and> \<not> d_grabbed d"
  using assms mouse_admitted(2) mouse_read
  by (auto simp: client_ready_def one_path_ok list_all2_Cons1 opened_def)

theorem client_starts_witness:
  "\<exists>w' d. dev_init_device_ctx demo_env one_path DAEMON_CLIENT fresh_client = (Ok (), w') \<and> d_info d = mouse_info \<and>
     devs w' = [set_grab True d] \<and> outbox 16 w' = [announce_msg d, grab_msg True d]"
proof -
  have "\<exists>w' ds. dev_init_device_ctx demo_env one_path DAEMON_CLIENT fresh_client = (Ok (), w') \<and>
      client_ready demo_env (elems one_path) fresh_client w' ds"
    by (rule client_starts) (use fresh_client_ok one_path_ok mouse_admitted in \<open>simp_all\<close>)
  then obtain w' ds where w: "dev_init_device_ctx demo_env one_path DAEMON_CLIENT fresh_client = (Ok (), w')"
      "client_ready demo_env (elems one_path) fresh_client w' ds" by blast
  then obtain d where "ds = [d]" "d_info d = mouse_info" using one_mouse by blast
  then show ?thesis using w fresh_client_ok by (auto simp: client_ready_def)
qed


definition waiting_server :: d_context where
  "waiting_server = bare_server [64 \<mapsto> enc_device_info mouse_info, 80 \<mapsto> enc_upd_grab \<lparr>upd_random_id = 7, upd_grab = True\<rparr>]"

lemma waiting_server_serves:
  assumes d: "d_info d = mouse_info"
  shows "\<exists>u'. serves demo_env [announce_msg d, grab_msg True d] waiting_server u'"
proof -
  let ?w = waiting_server
  have ok: "srv_ok ?w" "devs ?w = []" "ample 32 ?w" "spare (stream_ptrs ?w) = 9" "spare (devices ?w) = 10" "k_epoll ?w 9 = None"
    "m_bufs ?w = [64 \<mapsto> enc_device_info mouse_info, 80 \<mapsto> enc_upd_grab \<lparr>upd_random_id = 7, upd_grab = True\<rparr>]"
    unfolding waiting_server_def by (rule bare_server_ok; simp)+
  have info: "info_wf mouse_info" "0 \<in> set (di_name mouse_info)" "length (takeWhile (\<lambda>c. c \<noteq> 0) (di_name mouse_info)) \<le> 68"
    using mouse_portable by (simp_all add: portable_def mouse_def)
  have env: "e_open demo_env RCN_DEV_UINPUT_PATH = Some 9" "\<And>r. e_ui demo_env r" by (simp_all add: demo_env_def)
  have buf: "msg_buffer (with_body v) = 64" for v by (simp add: with_body_def zero_item_def)
  have rcv: "received (peer_code PEER_HEADER_DEV_CRT) (enc_device_info (d_info mouse)) (with_body 0) ?w"
    by (simp add: received_def ok(7) mouse_def with_body_def zero_item_def)
  have "fst (dev_init_udev demo_env 64 ?w) = Ok ()" "\<forall>c. c \<noteq> 64 \<longrightarrow> m_bufs (snd (dev_init_udev demo_env 64 ?w)) c = m_bufs ?w c"
    using dev_init_udev_result[OF ok(1) info(1,2), of 64 demo_env 9] info(3) ok env by (simp_all add: list_all_iff)
  then obtain w1 where w1: "p_handler demo_env 16 (with_body 0) ?w = (Ok (), w1)" "m_bufs w1 80 = m_bufs ?w 80"
    using p_handler_crt[OF rcv, of demo_env 16] by (cases "dev_init_udev demo_env 64 ?w") (simp add: buf)
  from p_handler_crt_spec[OF ok(1) mouse_portable rcv w1(1)] ok(2) obtain b where
    m: "grown ?w w1" "devs w1 = [\<lparr>d_info = virt_info mouse_info, d_stream = b, d_grabbed = False\<rparr>]"
    by (auto simp: udev_made_def mouse_def)
  have id: "di_random_id (virt_info mouse_info) = 7" by (simp add: virt_info_def mouse_info_def)
  let ?it = "set_buffer 80 (with_header (peer_code PEER_HEADER_DEV_UPD_GRAB))"
  have rcv2: "received (peer_code PEER_HEADER_DEV_UPD_GRAB) (enc_upd_grab \<lparr>upd_random_id = di_random_id (d_info (devs w1 ! 0)), upd_grab = True\<rparr>) ?it w1"
    by (simp add: received_def with_header_def zero_item_def w1(2) ok(7) m(2) id)
  from grab_update[OF _ _ _ rcv2, of demo_env 16] m obtain w2 where w2: "p_handler demo_env 16 ?it w1 = (Ok (), w2)"
    "arr_inv (devices w2)" "w2 = w1\<lparr>devices := devices w2\<rparr>"
    by (auto simp: grown_def)
  have "between w1 w1" "between w2 w2"
    using grown_srv[OF m(1)] w2(2) grown_devices[OF grown_refl[OF grown_srv[OF m(1)]] w2(2)] w2(3)
    by (auto simp: between_def intro!: grown_refl grown_srv)
  moreover have "di_random_id (d_info d) = di_random_id (d_info (devs w1 ! 0))" using d m(2) by (simp add: virt_info_def)
  ultimately show ?thesis using rcv rcv2 w1(1) w2(1) d unfolding announce_msg_def grab_msg_def
    by (auto intro!: serves.intros simp: mouse_def)
qed

theorem client_mirrored_witness:
  "\<exists>w' u' e. dev_init_device_ctx demo_env one_path DAEMON_CLIENT fresh_client = (Ok (), w') \<and>
     serves demo_env (outbox 16 w') waiting_server u' \<and> devs u' = [e] \<and> d_info e = virt_info mouse_info \<and> d_grabbed e"
proof -
  have ok: "srv_ok waiting_server" "devs waiting_server = []" unfolding waiting_server_def by (rule bare_server_ok; simp)+
  have start: "\<exists>w' ds. dev_init_device_ctx demo_env one_path DAEMON_CLIENT fresh_client = (Ok (), w') \<and>
      client_ready demo_env (elems one_path) fresh_client w' ds"
    by (rule client_starts_spec) (use fresh_client_ok one_path_ok mouse_admitted in \<open>simp_all\<close>)
  then obtain w' ds where w: "dev_init_device_ctx demo_env one_path DAEMON_CLIENT fresh_client = (Ok (), w')"
      "client_ready demo_env (elems one_path) fresh_client w' ds" by blast
  then obtain d where d: "ds = [d]" "d_info d = mouse_info" using one_mouse by blast
  have c: "devs w' = [set_grab True d]" "outbox 16 w' = [announce_msg d, grab_msg True d]"
    using w(2) d fresh_client_ok by (simp_all add: client_ready_def)
  obtain u' where u': "serves demo_env (outbox 16 w') waiting_server u'" using waiting_server_serves[OF d(2)] c(2) by auto
  have "length (takeWhile (\<lambda>c. c \<noteq> 0) (di_name mouse_info)) \<le> 68"
    using mouse_portable by (simp add: portable_def mouse_def)
  then have "list_all2 (mirror u') (devs w') (devs u')"
    using client_mirrored[OF fresh_client_ok(1,2) _ one_path_ok(1) _ w(1) _ _ ok, of demo_env u'] u' c d fresh_client_ok
    by (simp add: set_grab_def)
  then obtain e where "devs u' = [e]" "mirror u' (set_grab True d) e" using c(1) by (auto simp: list_all2_Cons1)
  then show ?thesis using w(1) u' d(2) by (auto simp: mirror_def set_grab_def)
qed

end
