(* ===== verification/Rcn_Session.thy ===== *)
theory Rcn_Session imports Rcn_Server Rcn_Udev begin

section \<open>A request of the user, end to end\<close>

text \<open>
  The two ends of the relay protocol put together: \<open>relay_start\<close> (rcn_relay.c) in the process the user
  started, \<open>r_handler\<close> and its handlers in the daemon.  The first part shows that a relay that waits
  for its answer changes nothing but the message it reads (a second contract on top of
  \<open>transfer_progress\<close>, interpreted on the same stream operations), the second that a session that
  receives an answer prints it, closes its connection and has sent exactly its request, the third
  compares what the user is told, for every request and every state of the daemon, with what is documented.
\<close>

subsection \<open>Reading leaves the rest alone\<close>

text \<open>An unqueued stream with descriptor \<open>fd\<close>, and what has been written everywhere.\<close>

definition quiet :: "addr \<Rightarrow> int \<Rightarrow> stream_item u_queue \<Rightarrow> (int \<Rightarrow> byte list) \<Rightarrow> 'z mem_scheme \<Rightarrow> bool" where
  "quiet a fd q out w \<longleftrightarrow> k_out w = out \<and>
     (\<exists>s. m_streams w a = Some s \<and> s_queue s = q \<and> s_next s = At_fallback \<and> s_fd s = fd)"

lemma keeps_quiet_store [keeps_intros]: "keeps (quiet a fd q out) (store_next a it)"
  by (auto simp: keeps_def quiet_def store_next_def on_stream_def modify_def put_next_def put_stream_def split: option.split)

lemma keeps_quiet_set [keeps_intros]: "keeps (quiet a fd q out) (set_state a st)"
  unfolding set_state_def by (intro keeps_intros)

lemma keeps_quiet_calloc [keeps_intros]:
  assumes "\<And>b. keeps (quiet a fd q out) (k b)"
  shows "keeps (quiet a fd q out) (\<lambda>w. case calloc_buffer n w of (b, w') \<Rightarrow> if b = 0 then (Fail, w') else k b w')"
  using assms by (auto simp: keeps_def calloc_buffer_def quiet_def)

lemma keeps_quiet_calc [keeps_intros]: "keeps (quiet a fd q out) (calc_stream_info a)"
  unfolding calc_stream_info_def Let_def
  by (intro keeps_intros) (auto intro!: keeps_intros split: stream_type.split)

lemma keeps_quiet_bytes [keeps_intros]: "keeps (quiet a fd q out) (store_bytes a p bs)"
proof (cases p)
  case (In_payload off)
  then show ?thesis unfolding store_bytes_def by (auto intro!: keeps_intros)
next
  case (In_buffer b off)
  then show ?thesis by (simp add: store_bytes_def keeps_def quiet_def ret_def split: option.split)
qed

lemma keeps_quiet_read [keeps_intros]: "keeps (quiet a fd q out) (sys_read fd' a p n ans)"
  unfolding sys_read_def by (cases ans) (auto intro!: keeps_intros keeps_modify simp: quiet_def)

lemma keeps_quiet_after [keeps_intros]: "keeps (quiet a fd q out) (after_io a info r)"
  unfolding after_io_def by (cases r) (auto intro!: keeps_intros simp: Let_def)

lemma reading_quiet:
  assumes "cur w a s it" "i_op it = STREAM_OP_READING" "quiet a fd q out w" "stream_stream a x w = (r, w')"
  shows "quiet a fd q out w'"
proof -
  let ?rest = "on_err (check_not (i_state it = STREAM_STREAMING_COMPLETE)
      (check (calc_stream_info a) (\<lambda>info. check (deref a) (\<lambda>s.
        check (sys_read (s_fd s) a (buffer_offset info) (unat (size_remaining info)) x) (after_io a info)))))
    (set_state a STREAM_STREAMING_CLOSED)"
  have eq: "stream_stream a x w = ?rest w"
    using assms(2) load_next_cur[OF assms(1)] by (simp add: stream_stream_def on_err_def check_def[of "load_next a"])
  have "keeps (quiet a fd q out) ?rest"
    by (intro keeps_on_err keeps_check_not keeps_check keeps_quiet_calc keeps_deref keeps_quiet_read keeps_quiet_after keeps_quiet_set)
  then show ?thesis using assms(3) assms(4)[unfolded eq] by (rule keepsD)
qed

locale reading_progress = transfer_progress +
  assumes reads: "at w k \<Longrightarrow> k < len \<Longrightarrow> \<exists>s it. cur w a s it \<and> i_op it = STREAM_OP_READING"
begin

lemma loop_quiet:
  assumes "at w k" "k < len" "progressing xs" "quiet a fd q out w" "relay_wait xs a w = (r, w')"
  shows "quiet a fd q out w'"
  using assms
proof (induction xs arbitrary: w k)
  case Nil
  then show ?case by (simp add: ret_def)
next
  case (Cons x xs)
  have x: "x = Io_again \<or> (\<exists>n. x = Io (Suc n))" and xs: "progressing xs"
    using Cons.prems(3) by (simp_all add: progressing_def)
  obtain w1 k1 where w1: "stream_stream a x w = (Ok (), w1)" "at w1 k1"
    using step_law[OF Cons.prems(1,2) x] by blast
  obtain s it where cur: "cur w1 a s it" and live: "i_state it \<noteq> STREAM_STREAMING_CLOSED"
    and fin: "i_state it = STREAM_STREAMING_COMPLETE \<longleftrightarrow> k1 = len" and le: "k1 \<le> len"
    using item_law[OF w1(2)] by blast
  have q1: "quiet a fd q out w1"
    using reads[OF Cons.prems(1,2)] reading_quiet[OF _ _ Cons.prems(4) w1(1)] by blast
  show ?case
  proof (cases "k1 = len")
    case True
    then show ?thesis using w1(1) live fin q1 Cons.prems(5)
      by (simp add: check_def check_not_def load_next_cur[OF cur] ret_def)
  next
    case False
    then have "relay_wait xs a w1 = (r, w')" using w1(1) live fin Cons.prems(5)
      by (simp add: check_def check_not_def load_next_cur[OF cur] ret_def)
    then show ?thesis using Cons.IH[OF w1(2) _ xs q1] le False by simp
  qed
qed

end

interpretation rq: reading_progress
  "\<lambda>w k. rcv w a fd hb body rest k \<and> announces hb body" a "16 + length body"
  for a :: addr and fd :: int and hb body rest :: "byte list"
  by unfold_locales (auto simp: rcv_def rcv_item_def)

subsection \<open>A session of the relay\<close>

lemma discard_input_ok:
  assumes "list_all (\<lambda>x. x \<noteq> Io_nodev \<and> x \<noteq> Io_error) xs"
  shows "\<exists>i. discard_input xs fd w = (Ok (), w\<lparr>k_in := i\<rparr>)"
  using assms
proof (induction xs arbitrary: w)
  case Nil
  then show ?case by (intro exI[of _ "k_in w"]) (simp add: ret_def)
next
  case (Cons x xs)
  then have xs: "list_all (\<lambda>x. x \<noteq> Io_nodev \<and> x \<noteq> Io_error) xs" by simp
  have same: "\<exists>i. (Ok (), w) = (Ok (), w\<lparr>k_in := i\<rparr>)" by (intro exI[of _ "k_in w"]) simp
  show ?case
  proof (cases x)
    case (Io n)
    let ?bs = "take (min n 64) (k_in w fd)"
    have "\<exists>i. discard_input xs fd (w\<lparr>k_in := (k_in w)(fd := drop (length ?bs) (k_in w fd))\<rparr>) = (Ok (), w\<lparr>k_in := i\<rparr>)"
      using Cons.IH[OF xs, of "w\<lparr>k_in := (k_in w)(fd := drop (length ?bs) (k_in w fd))\<rparr>"] by simp
    then show ?thesis using Io same by (simp add: op_simps)
  qed (use Cons.prems same in \<open>simp_all add: ret_def\<close>)
qed

lemma shutdown_ok:
  assumes s: "m_streams w a = Some s" "stream_ok s" "s_fd s = fd" and own: "distinct (owned s)" "\<forall>b \<in> set (owned s). m_bufs w b \<noteq> None"
    and fin: "list_all (\<lambda>x. x \<noteq> Io_nodev \<and> x \<noteq> Io_error) xs"
  shows "\<exists>w'. stream_shutdown True xs a w = (Ok (), w') \<and> \<not> k_open w' fd \<and> k_out w' = k_out w"
proof -
  obtain i where i: "discard_input xs fd w = (Ok (), w\<lparr>k_in := i\<rparr>)" using discard_input_ok[OF fin] by blast
  let ?w1 = "sys_close fd (w\<lparr>k_in := i\<rparr>)"
  have "m_streams ?w1 a = Some s" "\<forall>b \<in> set (owned s). m_bufs ?w1 b \<noteq> None" using s own by (simp_all add: sys_close_def)
  from stream_close_spec[OF this(1) s(2) own(1) this(2)] obtain s' where
    c: "stream_close a ?w1 = (Ok (), sys_close fd (without (owned s) (put_stream a s' ?w1)))" using s(3) by auto
  have "stream_shutdown True xs a w = stream_close a ?w1"
    using s(1,3) i by (simp add: stream_shutdown_def check_def deref_def u_close_connection_def on_err_def check_not_def modify_def)
  then show ?thesis using c by (simp add: sys_close_def without_def put_stream_def)
qed

lemma stream_init_succeeds:
  assumes "m_streams w a = Some zero_stream" "a \<noteq> 0" "granted (m_av w) 480"
  shows "\<exists>q. stream_init a fd FD_RELAY w = (Ok (), put_stream a (ready_stream (s_fd_type zero_stream) fd FD_RELAY q) w) \<and> q_inv q \<and> q_items q = []"
proof -
  obtain r w' where r: "stream_init a fd FD_RELAY w = (r, w')" by fastforce
  have z: "m_streams w a = Some (zero_stream\<lparr>s_fd_type := s_fd_type zero_stream\<rparr>)" using assms(1) by simp
  obtain q where q: "u_queue_init (m_av w) (of_nat sizeof_stream_item) rcn_std_capacity (s_queue zero_stream) = (Ok (), q)"
    using init_queue_succeeds[of "m_av w" rcn_std_capacity "of_nat sizeof_stream_item"] assms(3)
    by (auto simp: rcn_std_capacity_def sizeof_stream_item_def)
  have "fst (stream_init a fd FD_RELAY w) = Ok ()" using assms(1,2) q
    by (simp add: stream_init_def check_def gets_def on_stream_def zoom_def modify_def put_stream_def stream_set_default_def
        check_not_def deref_def Let_def zero_stream_def ret_def)
  then have "r \<noteq> Fail" using r by simp
  then show ?thesis using stream_init_spec[OF z assms(2) r] r by auto
qed

lemma session_prints:
  assumes mem: "heap_ok u" "b \<noteq> 0" "m_streams u b = Some zero_stream" "granted (m_av u) 480" "fresh (length body) u"
    and arrived: "k_in u fd = wire v body @ rest" "progressing xs" "16 + length body \<le> transfers xs"
    and out: "handle_request v (of_nat (length body)) body = Some out"
    and fin: "list_all (\<lambda>x. x \<noteq> Io_nodev \<and> x \<noteq> Io_error) fin"
  shows "\<exists>u'. relay_session h fd True xs (True, fin) b u = (Ok (Some out), u') \<and>
    k_out u' = (k_out u)(fd := k_out u fd @ wire (relay_code h) []) \<and> \<not> k_open u' fd"
proof -
  let ?k = "(k_out u)(fd := k_out u fd @ wire (relay_code h) [])"
  let ?u1 = "u\<lparr>k_out := ?k\<rparr>"
  obtain q where q: "stream_init b fd FD_RELAY ?u1 = (Ok (), put_stream b (ready_stream (s_fd_type zero_stream) fd FD_RELAY q) ?u1)"
    "q_inv q" "q_items q = []" using stream_init_succeeds[of ?u1 b fd] mem by auto
  let ?s = "ready_stream (s_fd_type zero_stream) fd FD_RELAY q"
  let ?u2 = "put_stream b ?s ?u1"
  have len: "length body < 2 ^ 63" using mem(5) by (simp add: fresh_def granted_def)
  have "heap_ok ?u2" using mem(1,3) by (intro heap_ok_put_stream) simp_all
  moreover have "s_fallback ?s = zero_item\<lparr>i_op := STREAM_OP_READING, i_type := STREAM_TYPE_SOCKET\<rparr>"
    by (simp add: ready_stream_def fd_default_def)
  then have idle: "idle_reader b fd ?u2" unfolding idle_reader_def using ready_stream_ok[OF q(2,3)]
    by (intro exI[of _ ?s]) (simp add: zero_item_def msg_buffer_def)
  moreover have "k_in ?u2 fd = wire v body @ rest" "fresh (length body) ?u2"
    using arrived(1) mem(5) by (simp_all add: fresh_def)
  ultimately have start: "rcv ?u2 b fd (enc_header \<lparr>h_size = of_nat (length body), h_value = v\<rparr>) body rest 0 \<and>
    announces (enc_header \<lparr>h_size = of_nat (length body), h_value = v\<rparr>) body" by (rule idle_rcv)
  from rx.finishes[OF start _ arrived(2)] arrived(3) obtain u3 where u3: "relay_wait xs b ?u2 = (Ok True, u3)"
    "rcv u3 b fd (enc_header \<lparr>h_size = of_nat (length body), h_value = v\<rparr>) body rest (16 + length body)" by auto
  have "quiet b fd q ?k ?u2" by (simp add: quiet_def ready_stream_def)
  from rq.loop_quiet[OF start _ arrived(2) this u3(1)] have "quiet b fd q ?k u3" by simp
  then obtain s3 where s3: "m_streams u3 b = Some s3" "s_queue s3 = q" "s_next s3 = At_fallback" "s_fd s3 = fd" "k_out u3 = ?k"
    by (auto simp: quiet_def)
  obtain it where it: "s_fallback s3 = it" "length (i_payload it) = 24" "h_value (msg_header it) = v"
    "h_size (msg_header it) = of_nat (length body)" "unat (h_size (msg_header it)) = length body"
    "if body = [] then msg_buffer it = 0 else msg_buffer it \<noteq> 0 \<and> m_bufs u3 (msg_buffer it) = Some body"
    using u3(2) len by (rule rcv_end) (use s3 in \<open>auto simp: cur_def next_item_def\<close>)
  have "q_is_empty q" using q_empty_iff[OF q(2)] q(3) by simp
  then have collect: "stream_collect b u3 = (Ok (), u3)"
    using s3 by (cases u3; cases s3) (auto simp: stream_collect_def check_def deref_def on_stream_def modify_def put_stream_def ret_def fun_upd_idem)
  have body: "(if h_size (msg_header it) = 0 then ret [] else load_struct (msg_buffer it) (unat (h_size (msg_header it)))) u3 = (Ok body, u3)"
    using it(5,6) by (cases "body = []") (auto simp: ret_def load_struct_def unat_eq_0)
  have "stream_ok s3" using s3 it q(2,3) by (simp add: stream_ok_def)
  moreover have "distinct (owned s3)" "\<forall>c \<in> set (owned s3). m_bufs u3 c \<noteq> None"
    using s3(2) it q(3) by (auto simp: owned_def live_ptrs_def split: if_splits)
  ultimately obtain u4 where u4: "stream_shutdown True fin b u3 = (Ok (), u4)" "\<not> k_open u4 fd" "k_out u4 = k_out u3"
    using shutdown_ok[OF s3(1) _ s3(4) _ _ fin] by blast
  have "relay_session h fd True xs (True, fin) b u =
      check (if h_size (msg_header it) = 0 then ret [] else load_struct (msg_buffer it) (unat (h_size (msg_header it)))) (\<lambda>body.
        case handle_request (h_value (msg_header it)) (h_size (msg_header it)) body of
          None \<Rightarrow> fail | Some out \<Rightarrow> check (stream_shutdown True fin b) (\<lambda>_. ret (Some out))) u3"
    using q(1) u3(1) collect it(1) s3(1)
    unfolding relay_session_def fst_conv snd_conv
    by (simp add: check_not_def check_def[of "modify _"] modify_def check_def[of "stream_init _ _ _"]
        check_def[of "relay_wait _ _"] check_def[of "stream_collect _"] check_def[of "deref _"] deref_def Let_def)
  also have "\<dots> = (case handle_request (h_value (msg_header it)) (h_size (msg_header it)) body of
          None \<Rightarrow> fail | Some out \<Rightarrow> check (stream_shutdown True fin b) (\<lambda>_. ret (Some out))) u3"
    by (rule check_ok) (rule body)
  also have "\<dots> = (Ok (Some out), u4)" unfolding it(3,4) out option.case check_def u4(1) ret_def prod.case res.case ..
  finally have "relay_session h fd True xs (True, fin) b u = (Ok (Some out), u4)" .
  then show ?thesis using u4(2,3) s3(5) by (intro exI[of _ u4]) simp
qed

subsection \<open>What the user is told\<close>

text \<open>
  What the README, the help texts and \<open>relay_text\<close> lead the user to expect after a request, from the daemon's
  state; \<open>None\<close>: nothing.
\<close>

definition documented :: "relay_msg_header \<Rightarrow> d_context \<Rightarrow> relay_output option" where
  "documented h w =
     (let pause = Out_text (if d_state w = RCN_PAUSED then ''already paused''
            else if p_state w = PEER_CONNECTED then ''paused'' else ''no peer connected'');
          resume = Out_text (if d_state w = RCN_RUNNING then ''already resumed'' else ''resumed'')
      in case h of
          RELAY_HEADER_START \<Rightarrow> Some (Out_text ''started'')
        | RELAY_HEADER_PAUSE \<Rightarrow> Some pause
        | RELAY_HEADER_RESUME \<Rightarrow> Some resume
        | RELAY_HEADER_SWITCH \<Rightarrow> Some (if d_state w = RCN_RUNNING then pause else resume)
        | RELAY_HEADER_STOP \<Rightarrow> Some (Out_text ''stopped'')
        | RELAY_HEADER_LIST \<Rightarrow> Some (if devs w = [] then Out_no_devices else Out_devices (map device_line (devs w)))
        | _ \<Rightarrow> None)"

text \<open>The two places where the code does something else: a resume that takes place, and a list of several devices.\<close>

definition resumes :: "relay_msg_header \<Rightarrow> d_context \<Rightarrow> bool" where
  "resumes h w \<longleftrightarrow> d_state w = RCN_PAUSED \<and> (h = RELAY_HEADER_RESUME \<or> h = RELAY_HEADER_SWITCH)"

definition long_list :: "relay_msg_header \<Rightarrow> d_context \<Rightarrow> bool" where
  "long_list h w \<longleftrightarrow> h = RELAY_HEADER_LIST \<and> 1 < length (devs w)"

text \<open>A relay of a server: in its table once, and no stream of another kind.\<close>

definition relay_of :: "addr \<Rightarrow> d_context \<Rightarrow> bool" where
  "relay_of a w \<longleftrightarrow> a \<in> set (relays w) \<and> distinct (relays w) \<and> a \<noteq> peer_stream w \<and> a \<notin> d_stream ` set (devs w)"

lemma posts_at_broadcast:
  assumes "relay_of a w"
  shows "posts_at a (broadcast_posts h w) = [Msg (relay_code h) []]" "posts_at a (release_posts (devs w)) = []"
    "posts_at a (peer_post k w) = []"
proof -
  have "filter (\<lambda>r. r = a) xs = [a]" if "distinct xs" "a \<in> set xs" for xs :: "addr list"
    using that by (induction xs) (auto simp: filter_empty_conv)
  then have "filter (\<lambda>r. r = a) (relays w) = [a]" using assms by (simp add: relay_of_def)
  then show "posts_at a (broadcast_posts h w) = [Msg (relay_code h) []]"
    by (simp add: posts_at_def broadcast_posts_def filter_map comp_def)
  show "posts_at a (release_posts (devs w)) = []" "posts_at a (peer_post k w) = []"
    using assms by (auto simp: relay_of_def release_posts_def peer_post_def intro!: posts_at_none)
qed

lemma every_second_short: "length xs \<le> 1 \<Longrightarrow> every_second xs = xs"
  by (cases xs) simp_all

lemma documented_posts:
  assumes a: "relay_of a w" and spec: "relay_spec h a w = Some (ps, st, ex)" and wf: "\<forall>d \<in> set (devs w). info_wf (d_info d)"
    and small: "length (list_body (devs w)) < 2 ^ 64"
  shows "case documented h w of None \<Rightarrow> posts_at a ps = []
    | Some out \<Rightarrow> if resumes h w then posts_at a ps = [] else \<exists>v body. posts_at a ps = [Msg v body] \<and>
        handle_request v (of_nat (length body)) body =
          Some (if long_list h w then Out_devices (every_second (map device_line (devs w))) else out)"
proof -
  have code: "relay_of_code (relay_code h) = Some h" for h :: relay_msg_header by (rule relay_of_code)
  have said: "handle_request (relay_code k) 0 [] = Some (Out_text (relay_text k))"
    if "k \<in> {RELAY_HEADER_START, RELAY_HEADER_PAUSE, RELAY_HEADER_PAUSE_AGAIN, RELAY_HEADER_RESUME, RELAY_HEADER_RESUME_AGAIN,
      RELAY_HEADER_NO_PEER, RELAY_HEADER_STOP}" for k
    using that unfolding handle_request_def code by auto
  have lst: "handle_request (relay_code RELAY_HEADER_LIST) (of_nat (length (list_body (devs w)))) (list_body (devs w)) =
      Some (if devs w = [] then Out_no_devices else Out_devices (every_second (map device_line (devs w))))"
    using request_list_spec[OF wf small] unfolding handle_request_def code by simp
  note t = said[of RELAY_HEADER_START] said[of RELAY_HEADER_PAUSE] said[of RELAY_HEADER_PAUSE_AGAIN] said[of RELAY_HEADER_RESUME_AGAIN]
    said[of RELAY_HEADER_NO_PEER] said[of RELAY_HEADER_STOP]
  show ?thesis using spec t lst posts_at_broadcast[OF a] state_cases[of w] every_second_short[of "map device_line (devs w)"]
    by (cases h) (auto simp: documented_def resumes_def long_list_def relay_spec_def stays_def answer_def pause_spec_def resume_spec_def
        Let_def posts_at_Cons relay_text_def simp del: relay_code.simps split: if_splits)
qed

text \<open>C4: A request of the user, end to end, against what the documents promise.  A server that handles
  the request of a relay queues at most one message for it; when that message arrives, cut into pieces in any way,
  the relay's process prints the documented answer, has written its request and nothing else, and has closed
  its socket.  There are exactly two divergences.  A resume (or a switch) that takes a paused server back to
  running queues nothing for its relay, where \<open>resumed\<close> is documented (rcn_relay.c:257).  A list of two or
  more devices is printed without every second one, where all captured devices are documented
  (rcn_relay.c:128).\<close>

theorem request_answered:
  assumes server: "server_with_peer w" "relay_of a w" "\<forall>d \<in> set (devs w). info_wf (d_info d)" "length (devs w) < 2 ^ 50"
      "needs_peer h w \<Longrightarrow> p_state w = PEER_CONNECTED" "outbox a w = []"
    and request: "h_value (msg_header it) = relay_code h" "r_handler E a it w = (Ok (), w')"
    and relay: "heap_ok u" "b \<noteq> 0" "m_streams u b = Some zero_stream" "granted (m_av u) 480"
      "\<And>v body. outbox a w' = [Msg v body] \<Longrightarrow> k_in u fd = wire v body @ rest \<and> fresh (length body) u \<and> 16 + length body \<le> transfers xs"
      "progressing xs" "list_all (\<lambda>x. x \<noteq> Io_nodev \<and> x \<noteq> Io_error) fin"
  shows "case documented h w of
      None \<Rightarrow> outbox a w' = []
    | Some out \<Rightarrow> if resumes h w then outbox a w' = [] else
        \<exists>u'. relay_session h fd True xs (True, fin) b u =
            (Ok (Some (if long_list h w then Out_devices (every_second (map device_line (devs w))) else out)), u') \<and>
          k_out u' = (k_out u)(fd := k_out u fd @ wire (relay_code h) []) \<and> \<not> k_open u' fd"
proof -
  have ok: "connected a w" using server(1,2) by (auto simp: server_with_peer_def relay_of_def server_ok_def ctx_ok_def)
  have "h_value (msg_header it) = relay_code h \<Longrightarrow> relay_spec h a w \<noteq> None"
    using r_handler_reacts[OF server(1) ok(1) server(3,5), where it=it and E=E] request(2) by (cases "relay_spec h a w") auto
  then obtain ps st ex where spec: "relay_spec h a w = Some (ps, st, ex)" using request(1) by auto
  then have "replies ps (\<lambda>v. v\<lparr>d_state := st, d_exit := ex\<rparr>) (r_handler E a it) w"
    using r_handler_reacts[OF server(1) ok(1) server(3,5) request(1), where E=E] by (simp add: reacts_def)
  from repliesD(2)[OF this request(2)] obtain v where v: "posted w v ps" "w' = v\<lparr>d_state := st, d_exit := ex\<rparr>" by blast
  have "outbox a w' = outbox a v" unfolding v(2) by (rule outbox_cong) (cases v, simp)+
  then have ob: "outbox a w' = posts_at a ps" using server(6) v(1) by (simp add: posted_def)
  have "length (list_body (devs w)) < 2 ^ 64"
    using length_list_body[OF server(3)] server(4) by (simp add: sizeof_relay_entry_def dev_consts)
  note posts = documented_posts[OF server(2) spec server(3) this, folded ob]
  show ?thesis
  proof (cases "documented h w = None \<or> resumes h w")
    case False
    then obtain out v body where m: "documented h w = Some out" "outbox a w' = [Msg v body]" "handle_request v (of_nat (length body)) body =
        Some (if long_list h w then Out_devices (every_second (map device_line (devs w))) else out)"
      using posts by auto
    show ?thesis using session_prints[OF relay(1-4) _ _ relay(6) _ m(3) relay(7)] relay(5)[OF m(2)] m(1) False by simp
  qed (use posts in \<open>cases "documented h w"; auto\<close>)
qed

theorem request_answered_witness:
  "let w = demo_server RCN_RUNNING PEER_CONNECTED; body = list_body [keyboard 48 7];
       u = mem_of [(16, zero_stream)] (\<lambda>_. wire (relay_code RELAY_HEADER_LIST) body)
   in \<exists>w' u'. r_handler granting 32 (with_header (relay_code RELAY_HEADER_LIST)) w = (Ok (), w') \<and>
     relay_session RELAY_HEADER_LIST 6 True (replicate 97 (Io 64)) (True, [Io 64]) 16 u = (Ok (Some (Out_devices [([], True)])), u')"
proof -
  let ?w = "demo_server RCN_RUNNING PEER_CONNECTED" and ?b = "list_body [keyboard 48 7]" and ?it = "with_header (relay_code RELAY_HEADER_LIST)"
  let ?u = "mem_of [(16, zero_stream)] (\<lambda>_. wire (relay_code RELAY_HEADER_LIST) ?b)"
  have wf: "\<forall>d \<in> set (devs ?w). info_wf (d_info d)" by (rule demo_server_ok)
  have ok: "ctx_ok ?w" by (rule server_okD(1)[OF demo_server_ok(1)])
  have "has_room 32 ?w" using room_demo[of 32] by (simp add: has_room_iff)
  then obtain w' where w': "relay_handler_list 32 ?w = (Ok (), w')"
    using list_succeeds[OF ok demo_server_ok(6) wf] demo_server_ok(3)[of RCN_RUNNING PEER_CONNECTED]
    by (auto simp: demo_server_def demo_mem_def mem_of_def sizeof_relay_entry_def)
  then have r: "r_handler granting 32 ?it ?w = (Ok (), w')"
    unfolding r_handler_def header_with_header relay_of_code by simp
  have out: "outbox 32 w' = [Msg (relay_code RELAY_HEADER_LIST) ?b]"
    using postedD(3)[OF sendsD(2)[OF list_sends[OF ok demo_server_ok(6) wf] w' refl], of 32] by (simp add: posts_at_Cons demo_server_ok)
  have len: "length ?b = 81" using length_list_body[OF wf] by (simp add: demo_server_ok sizeof_relay_entry_def)
  have doc: "documented RELAY_HEADER_LIST ?w = Some (Out_devices [([], True)])" "\<not> resumes RELAY_HEADER_LIST ?w"
      "\<not> long_list RELAY_HEADER_LIST ?w"
    by (simp_all add: documented_def resumes_def long_list_def demo_server_ok device_line_def)
      (simp add: keyboard_def zero_info_def dev_consts)
  have mem: "heap_ok ?u" "m_streams ?u 16 = Some zero_stream" "granted (m_av ?u) 480" "fresh 81 ?u"
    by (auto simp: heap_ok_def mem_of_def granted_def fresh_def word_less_nat_alt split: if_splits)
  have "relay_of 32 ?w" by (simp add: relay_of_def demo_server_ok) (simp add: keyboard_def)
  then show ?thesis
    using request_answered[OF demo_server_ok(2) _ wf _ _ demo_server_ok(13) _ r mem(1) _ mem(2,3), of RELAY_HEADER_LIST 6 "[]" "replicate 97 (Io 64)" "[Io 64]"]
      r out len doc mem(4)
    by (auto simp: demo_server_ok needs_peer_def progressing_def transfers_def list_all_iff mem_of_def)
qed

end
