(* ===== verification/Rcn_Rounds.thy ===== *)
theory Rcn_Rounds
  imports Rcn_Tables
begin

section \<open>Rounds keep the tables\<close>

text \<open>
  Every handler, accepting and closing, a whole round of the loop and the set-up keep \<open>tables_ok\<close>.
\<close>

subsection \<open>The handlers keep the tables\<close>

lemma tables_cong:
  assumes "m_streams w' = m_streams w" "m_brk w' = m_brk w" "k_epoll w' = k_epoll w" "stream_ptrs w' = stream_ptrs w"
    "relay_streams w' = relay_streams w" "isock_stream w' = isock_stream w" "d_type w' = d_type w"
  shows "tables_ok w' = tables_ok w"
  by (simp add: tables_ok_def base_ok_def streams_ok_def ptrs_ok_def interest_ok_def relays_ok_def peers_ok_def assms kind_cong[OF assms(1)])

lemma maintains_tables: "maintains tables_ok m \<Longrightarrow> m w = (Ok r, w') \<Longrightarrow> tables_ok w \<Longrightarrow> tables_ok w'"
  by (rule maintainsD)

lemma maintains_same:
  assumes "\<And>w r w'. m w = (Ok r, w') \<Longrightarrow> m_streams w' = m_streams w \<and> m_brk w' = m_brk w \<and> k_epoll w' = k_epoll w \<and>
    stream_ptrs w' = stream_ptrs w \<and> relay_streams w' = relay_streams w \<and> isock_stream w' = isock_stream w \<and> d_type w' = d_type w"
  shows "maintains tables_ok m"
proof (rule maintainsI)
  fix w r w' assume "tables_ok w" "m w = (Ok r, w')"
  then show "tables_ok w'" using assms[of w r w'] tables_cong[of w' w] by simp
qed

lemma maintains_streams [maintains_intros]:
  "maintains tables_ok (deref a)" "maintains tables_ok (load_next a)" "maintains tables_ok (e_epoll_sync_stream a)"
  "maintains tables_ok (stream_queue_writing_socket a v sz bs)" "maintains tables_ok (stream_queue_writing_device a e)"
  "maintains tables_ok (send_header a v)" "maintains tables_ok (e_epoll_reset_stream a)" "maintains tables_ok (stream_collect a)"
  "maintains tables_ok (stream_stream a ans)" "maintains tables_ok (stream_set_default a op ty)"
  unfolding send_header_def by (rule frames_keeps; intro frames_intros)+

lemma maintains_fields [maintains_intros]:
  "maintains tables_ok (modify (\<lambda>w. w\<lparr>d_state := st\<rparr>))" "maintains tables_ok (modify (\<lambda>w. w\<lparr>d_exit := x\<rparr>))"
  "maintains tables_ok (modify (\<lambda>w. w\<lparr>p_state := ps\<rparr>))" "maintains tables_ok (modify (\<lambda>w. w\<lparr>peer_stream := p\<rparr>))"
  "maintains tables_ok (modify (\<lambda>w. w\<lparr>isock_port := n\<rparr>))" "maintains tables_ok (modify (\<lambda>w. w\<lparr>usock_fd := fd\<rparr>))"
  "maintains tables_ok (modify (\<lambda>w. w\<lparr>k_ui := g w\<rparr>))" "maintains tables_ok (modify (\<lambda>w. w\<lparr>k_grab := h w\<rparr>))"
  "maintains tables_ok (set_rcn_state st)"
  unfolding set_rcn_state_def by (rule maintains_same; auto simp: modify_def)+

lemma maintains_kernel [maintains_intros]:
  "maintains tables_ok (got_fd ans)" "maintains tables_ok (load_struct b n)" "maintains tables_ok (store_struct b off bs)"
  "maintains tables_ok (load_dev k)" "maintains tables_ok (store_dev k d)" "maintains tables_ok (\<lambda>w. (x, w))"
  by (rule maintains_same; auto simp: got_fd_def load_struct_def store_struct_def load_dev_def store_dev_def
      split: option.splits if_splits)+

lemma maintains_calloc_device [maintains_intros]: "maintains tables_ok calloc_device"
  by (rule frames_keeps) (auto simp: frames_def calloc_device_def frame_def fresh_brk split: if_splits)

lemma maintains_read_relays [maintains_intros]: "maintains tables_ok (on_relays (u_array_getv i))"
proof -
  have "w' = w" if "on_relays (u_array_getv i) w = (Ok r, w')" for w :: d_context and r w'
    using that by (auto simp: zoom_def u_array_getv_def load_cell_def op_simps split: prod.splits if_splits option.splits res.splits)
  then show ?thesis by (auto simp: maintains_def)
qed

lemma maintains_for_devices [maintains_intros]: "(\<And>k. maintains tables_ok (f k)) \<Longrightarrow> maintains tables_ok (for_devices f)"
  unfolding for_devices_def by (auto intro!: maintains_intros)

lemma maintains_find_dev [maintains_intros]: "maintains tables_ok (find_dev x n i out)"
  by (induction n arbitrary: i out) (auto intro!: maintains_intros)

lemma maintains_find_stream [maintains_intros]: "maintains tables_ok (find_stream a n i)"
  by (induction n arbitrary: i) (auto intro!: maintains_intros)

lemma maintains_lookup [maintains_intros]: "maintains tables_ok (dev_find_by_id x)" "maintains tables_ok (dev_handler a it)"
  unfolding dev_find_by_id_def dev_handler_def by (auto intro!: maintains_intros split: option.split)

lemma maintains_emit [maintains_intros]: "maintains tables_ok (dev_emit_event_msg m)"
  unfolding dev_emit_event_msg_def by (auto intro!: maintains_intros split: option.split)

lemma maintains_release [maintains_intros]: "maintains tables_ok (dev_release_virt_keys k)" "maintains tables_ok dev_release_virt_keys_all"
  unfolding dev_release_virt_keys_all_def dev_release_virt_keys_def by (auto intro!: maintains_intros)

lemma maintains_ctrl_epoll [maintains_intros]: "maintains tables_ok (ctrl_epoll ctrl a)"
proof (rule frames_keeps, rule framesI)
  fix w r w' assume "ctrl_epoll ctrl a w = (Ok r, w')"
  then obtain s where s: "m_streams w a = Some s"
    "w' = w \<or> w' = w\<lparr>k_epoll := (k_epoll w)(s_fd s := None)\<rparr> \<or> (\<exists>m. w' = w\<lparr>k_epoll := (k_epoll w)(s_fd s \<mapsto> (m, a))\<rparr>)"
    by (cases ctrl) (auto simp: ctrl_epoll_def check_Ok_iff deref_def epoll_ctl_add_def epoll_ctl_del_def
        split: option.splits if_splits ep_res.splits prod.splits)
  then show "frame w w'" by (auto simp: frame_def split: if_splits)
qed

lemma maintains_grab [maintains_intros]: "maintains tables_ok (dev_grab_device_by_ptr E k ctrl)" "maintains tables_ok (dev_ctrl_devices E ctrl)"
  unfolding dev_ctrl_devices_def dev_grab_device_by_ptr_def drain_events_def by (auto intro!: maintains_intros)

lemma maintains_ui [maintains_intros]: "maintains tables_ok (ui_ioctl E fd req)" "maintains tables_ok (set_udev_bits E fd g bits n)"
  unfolding ui_ioctl_def set_udev_bits_def by (auto intro!: maintains_intros)

lemma maintains_udev [maintains_intros]: "maintains tables_ok (apply_udev_info E fd b tmpl)" "maintains tables_ok (dev_init_udev E b)"
  unfolding apply_udev_info_def dev_init_udev_def ui_ioctl_def set_udev_bits_def
  by (auto intro!: maintains_intros split: option.split)

lemma maintains_broadcast [maintains_intros]: "maintains tables_ok (r_broadcast_relay_header h)"
  unfolding r_broadcast_relay_header_def by (auto intro!: maintains_intros)

lemma maintains_by_type [maintains_intros]: "maintains tables_ok (ctrl_by_type E ctrl)"
  unfolding ctrl_by_type_def by (auto intro!: maintains_intros split: daemon_type.split)

lemma maintains_build_list [maintains_intros]: "maintains tables_ok (build_list n i lst)"
  by (induction n arbitrary: i lst) (auto intro!: maintains_intros split: res.split prod.split)

lemma maintains_relay_handlers [maintains_intros]:
  "maintains tables_ok (relay_handler_start a)" "maintains tables_ok (relay_handler_pause E a)" "maintains tables_ok (relay_handler_resume E a)"
  "maintains tables_ok (relay_handler_switch E a)" "maintains tables_ok relay_handler_stop" "maintains tables_ok (relay_handler_list a)"
  unfolding relay_handler_start_def relay_handler_pause_def relay_handler_resume_def relay_handler_switch_def
    relay_handler_stop_def relay_handler_list_def
  by (auto intro!: maintains_intros split: rcn_state.split res.split prod.split)

lemma maintains_r_handler [maintains_intros]: "maintains tables_ok (r_handler E a it)"
  unfolding r_handler_def by (auto intro!: maintains_intros split: option.split relay_msg_header.split)

subsection \<open>Accepting and closing\<close>

lemma maintains_accept_usock [maintains_intros]: "maintains tables_ok (accept_usock E a)"
proof (rule maintainsI)
  fix w r w' assume t: "tables_ok w" and r: "accept_usock E a w = (Ok r, w')"
  obtain fd w1 c w2 where st: "got_fd (e_accept E) w = (Ok fd, w1)" "e_epoll_add_getr fd FD_RELAY w1 = (Ok c, w2)"
    "on_relays (u_array_add (m_av w2) c) w2 = (Ok r, w')"
    using r by (auto simp: accept_usock_def check_Ok_iff deref_def check_not_def fail_def gets_def split: option.splits if_splits)
  have t1: "tables_ok w1" by (rule maintains_tables[OF maintains_kernel(1) st(1) t])
  then have b: "base_ok w2" "adds c FD_RELAY w1 w2" using add_getr_adds[OF _ st(2)] by (simp_all add: tables_ok_def)
  have t2: "tables_ok w2" by (rule maintains_tables[OF maintains_add(1) st(2) t1]) simp_all
  obtain arr where arr: "u_array_add (m_av w2) c (relay_streams w2) = (Ok (), arr)" "w' = w2\<lparr>relay_streams := arr\<rparr>"
    using st(3) by (cases r) (auto simp: zoom_def split: prod.splits)
  have "c \<notin> set (elems (relay_streams w2))"
    using not_relay[of w1 c] adds_fields[OF b(2)] t1 by (simp add: tables_ok_def)
  moreover have "table_inv arr \<and> elems arr = elems (relay_streams w2) @ [c]"
    by (rule elems_add[OF arr(1)]) (use b(1) in \<open>simp add: base_ok_def relays_ok_def\<close>)
  moreover have "kind w2 c = Some FD_RELAY" using adds_fields(1)[OF b(2)] by simp
  ultimately show "tables_ok w'" using t2 unfolding arr(2)
    by (simp add: tables_ok_def base_ok_def streams_ok_def ptrs_ok_def interest_ok_def relays_ok_def peers_ok_def
        kind_cong[of "w2\<lparr>relay_streams := arr\<rparr>" w2])
qed

lemma accept_isock_tables:
  assumes t: "tables_ok w" and a: "kind w a = Some FD_ISOCK" and r: "accept_isock E a w = (Ok (), w')"
  shows "tables_ok w' \<and> kind w' a = None"
proof -
  obtain fd w1 p w2 w3 where st: "got_fd (e_accept E) w = (Ok fd, w1)" "e_epoll_add_getr fd FD_PEER w1 = (Ok p, w2)"
    "e_epoll_close_remove_simple a (w2\<lparr>peer_stream := p\<rparr>) = (Ok (), w3)" "w' = w3\<lparr>p_state := PEER_CONNECTED\<rparr>"
    using r by (auto simp: accept_isock_def check_Ok_iff deref_def check_not_def fail_def gets_def modify_def split: option.splits if_splits)
  have t1: "tables_ok w1" by (rule maintains_tables[OF maintains_kernel(1) st(1) t])
  have k1: "kind w1 = kind w" "isock_stream w1 = isock_stream w" "d_type w1 = d_type w"
    using st(1) kind_cong[of w1 w] by (auto simp: got_fd_def split: option.splits)
  have b: "base_ok w2" "adds p FD_PEER w1 w2" using add_getr_adds[OF _ st(2)] t1 by (simp_all add: tables_ok_def)
  note f = adds_fields[OF b(2)]
  let ?v = "w2\<lparr>peer_stream := p\<rparr>"
  have kv: "kind ?v = kind w2" by (rule kind_cong) simp
  have bv: "base_ok ?v" using b(1) kv by (simp add: base_ok_def streams_ok_def ptrs_ok_def interest_ok_def relays_ok_def)
  have ap: "a \<noteq> p" using f(2) a k1(1) by auto
  have "kind ?v a = Some FD_ISOCK" using kv f(1) a k1(1) ap by simp
  then have "a \<notin> set (elems (relay_streams ?v))" using not_relay[OF bv, of a] by simp
  from close_simple_base[OF bv st(3) this] have c: "base_ok w3" "kind w3 = (kind w2)(a := None)" "ep.more w3 = ep.more ?v"
    unfolding kv by blast+
  have fields: "isock_stream w3 = isock_stream w" "d_type w3 = d_type w" using ep_more_fields[OF c(3)] f k1 by simp_all
  have "peers_ok w3" unfolding peers_ok_def fields c(2) f(1) k1(1)
    using t a ap by (auto simp: tables_ok_def peers_ok_def split: if_splits)
  with c(1) have "tables_ok w3" by (simp add: tables_ok_def)
  then have "tables_ok w'" unfolding st(4) by (subst tables_cong) simp_all
  moreover have "kind w' = kind w3" by (rule kind_cong) (simp add: st(4))
  ultimately show ?thesis using c(2) by simp
qed

lemma close_remove_tables:
  assumes t: "tables_ok w" and r: "e_epoll_close_remove a w = (Ok (), w')"
  shows "tables_ok w'"
proof -
  have b: "base_ok w" using t by (simp add: tables_ok_def)
  obtain s where s: "m_streams w a = Some s" using r by (auto simp: e_epoll_close_remove_def check_Ok_iff deref_def split: option.splits)
  then have k: "kind w a = Some (s_fd_type s)" by (simp add: kind_def)
  have other: "a \<notin> set (elems (relay_streams w))" if "s_fd_type s \<noteq> FD_RELAY" using not_relay[OF b] k that by simp
  show ?thesis
  proof (cases "s_fd_type s")
    case FD_RELAY
    then obtain q w1 where q: "r_close_relay a w = (q, w1)" "q \<noteq> Undef" "e_epoll_close_remove_simple a w1 = (Ok (), w')"
      using r s by (auto simp: e_epoll_close_remove_def check_def deref_def ignore_def split: prod.splits res.splits)
    from r_close_relay_tables[OF t q(1,2)] close_simple_tables[OF _ q(3)] show ?thesis by blast
  next
    case FD_DEV
    then have "e_epoll_close_remove_simple a w = (Ok (), w')"
      using r s by (auto simp: e_epoll_close_remove_def check_def deref_def ignore_def dev_close_dev_def split: prod.splits res.splits if_splits)
    from close_simple_tables[OF t this other] FD_DEV show ?thesis by simp
  next
    case FD_PEER
    let ?v = "w\<lparr>p_state := PEER_DISCONNECTED\<rparr>"
    have "e_epoll_close_remove_simple a ?v = (Ok (), w')"
      using FD_PEER r s by (auto simp: e_epoll_close_remove_def check_def deref_def ignore_def p_close_peer_def modify_def split: prod.splits res.splits)
    moreover have "tables_ok ?v" using t by (subst tables_cong) simp_all
    ultimately show ?thesis using close_simple_tables[of ?v a w'] other FD_PEER by simp
  qed (use r s in \<open>simp_all add: e_epoll_close_remove_def check_def deref_def fail_def\<close>)
qed

subsection \<open>A stop message of the peer\<close>

definition listener_gone :: "d_context \<Rightarrow> bool" where
  "listener_gone w \<longleftrightarrow> m_streams w (isock_stream w) = None"

lemma maintains_gone_same:
  assumes "\<And>w r w'. m w = (Ok r, w') \<Longrightarrow> m_streams w' = m_streams w \<and> isock_stream w' = isock_stream w"
  shows "maintains listener_gone m"
  using assms by (auto simp: maintains_def listener_gone_def)

lemma gone_closing [maintains_intros]: "maintains listener_gone (e_epoll_close_remove_simple a)"
proof (rule maintainsI)
  fix w r w' assume g: "listener_gone w" and r: "e_epoll_close_remove_simple a w = (Ok r, w')"
  obtain s w1 i w2 w3 w4 where st: "m_streams w a = Some s" "ep_del (s_fd s) w = (Ok (), w1)"
    "on_ptrs (u_array_find_index a) w1 = (Ok i, w2)" "on_ptrs (u_array_remove i) w2 = (Ok (), w3)"
    "stream_close a w3 = (Ok (), w4)" "free_stream a w4 = (Ok r, w')"
    using r by (cases r) (auto simp: e_epoll_close_remove_simple_def on_err_Ok_iff check_Ok_iff deref_def split: option.splits)
  have w3: "m_streams w3 = m_streams w" "isock_stream w3 = isock_stream w"
    using ep_del_eq[OF st(2)] st(3,4) by (auto simp: zoom_def split: prod.splits)
  obtain u t where u: "frame w3 u" "m_streams u a = Some t" "w4 = put_stream a (t\<lparr>s_fd := - 1\<rparr>) (sys_close (s_fd t) u)"
    using stream_close_frame[OF st(5)] by blast
  have i: "isock_stream u = isock_stream w" using frame_fields(4)[OF u(1)] w3(2) by simp
  have "m_streams u (isock_stream w) = None"
    using frame_stream(1)[OF u(1), of "isock_stream w"] g w3(1) by (cases "m_streams u (isock_stream w)") (auto simp: listener_gone_def)
  moreover from this u(2) have "isock_stream w \<noteq> a" by auto
  ultimately show "listener_gone w'" using st(6) u(3) i
    by (auto simp: listener_gone_def free_stream_def put_stream_def sys_close_def split: if_splits)
qed

lemma gone_devices [maintains_intros]:
  "maintains listener_gone (on_devices m)" "maintains listener_gone (load_dev k)" "maintains listener_gone (got_fd ans)"
  by (rule maintains_gone_same; auto simp: zoom_def load_dev_def got_fd_def split: prod.splits option.splits if_splits)+

lemma gone_close_devices [maintains_intros]: "maintains listener_gone (close_devices n)"
  by (induction n) (auto intro!: maintains_intros)

lemma stop_on_server_result:
  assumes g: "listener_gone w" and ty: "d_type w = DAEMON_SERVER"
  shows "fst (peer_handler_stop E w) = (case check dev_close_device_ctx (\<lambda>_. dev_init_device_ctx E no_paths DAEMON_SERVER) w of
    (Ok _, _) \<Rightarrow> if e_inet E = None then Fail else Undef | (Fail, _) \<Rightarrow> Fail | (Undef, _) \<Rightarrow> Undef)"
proof -
  let ?first = "check dev_close_device_ctx (\<lambda>_. dev_init_device_ctx E no_paths DAEMON_SERVER)"
  obtain r w1 where r: "?first w = (r, w1)" by fastforce
  have m: "maintains listener_gone ?first"
    unfolding dev_close_device_ctx_def dev_init_device_ctx_def by (auto intro!: maintains_intros)
  have e: "peer_handler_stop E w = check ?first (\<lambda>_. check (got_fd (e_inet E)) (\<lambda>fd. check (gets isock_stream) (\<lambda>a.
      check (on_stream a (modify (\<lambda>s. s\<lparr>s_fd := fd\<rparr>))) (\<lambda>_. check (deref a) (\<lambda>s. check (gets isock_port) (\<lambda>port.
      check (p_init_peer_ctx (s_fd s) port DAEMON_SERVER) (\<lambda>_. set_rcn_state RCN_RUNNING))))))) w"
    using ty by (simp add: peer_handler_stop_def check_def[of "gets d_type"] gets_def check_assoc)
  show ?thesis
  proof (cases r)
    case (Ok u)
    from maintainsD[OF m r[unfolded Ok] g] have "m_streams w1 (isock_stream w1) = None" by (simp add: listener_gone_def)
    then show ?thesis unfolding e using r Ok
      by (cases "e_inet E") (simp_all add: check_def got_fd_def gets_def on_stream_def)
  qed (use r in \<open>simp_all add: e check_def[of ?first]\<close>)
qed

lemma stop_on_server: "listener_gone w \<Longrightarrow> d_type w = DAEMON_SERVER \<Longrightarrow> peer_handler_stop E w \<noteq> (Ok (), w')"
  using stop_on_server_result[of w E] by (auto split: prod.splits res.splits if_splits)

lemma peer_gone: "tables_ok w \<Longrightarrow> kind w a = Some FD_PEER \<Longrightarrow> d_type w = DAEMON_SERVER \<Longrightarrow> listener_gone w"
  by (auto simp: tables_ok_def peers_ok_def listener_gone_def kind_def)

lemma p_handler_tables:
  assumes t: "tables_ok w" and a: "kind w a = Some FD_PEER" and r: "p_handler E a it w = (Ok (), w')"
  shows "tables_ok w'"
proof (cases "peer_of_code (h_value (msg_header it)) = Some PEER_HEADER_STOP")
  case True
  then have st: "peer_handler_stop E w = (Ok (), w')" using r by (simp add: p_handler_def)
  then have "d_type w = DAEMON_CLIENT" using stop_on_server[of w E w'] peer_gone[OF t a] by (cases "d_type w") auto
  then have st': "check (modify (\<lambda>w. w\<lparr>d_exit := True\<rparr>)) (\<lambda>_. r_broadcast_relay_header RELAY_HEADER_STOP) w = (Ok (), w')"
    using st by (simp add: peer_handler_stop_def check_def[of "gets _"] gets_def)
  have "maintains tables_ok (check (modify (\<lambda>w. w\<lparr>d_exit := True\<rparr>)) (\<lambda>_. r_broadcast_relay_header RELAY_HEADER_STOP))"
    by (auto intro!: maintains_intros)
  from maintains_tables[OF this st' t] show ?thesis .
next
  case False
  then have "maintains tables_ok (p_handler E a it)"
    unfolding p_handler_def peer_handler_dev_crt_def peer_handler_dev_upd_grab_def peer_handler_event_def
      peer_handler_pause_def peer_handler_resume_def Let_def
    by (auto intro!: maintains_intros split: option.split peer_msg_header.split)
  from maintains_tables[OF this r t] show ?thesis .
qed

subsection \<open>Rounds\<close>

lemma dispatch_event_tables:
  assumes t: "tables_ok w" and r: "dispatch_event ev w = (Ok (), w')"
  shows "tables_ok w'"
proof -
  obtain a E ans where ev: "ev = (a, E, ans)" by (cases ev)
  obtain s where s: "m_streams w a = Some s" using r by (auto simp: dispatch_event_def ev check_Ok_iff deref_def split: option.splits)
  show ?thesis
  proof (cases "s_fd_type s = FD_ISOCK")
    case True
    then have "accept_isock E a w = (Ok (), w')" "kind w a = Some FD_ISOCK"
      using r s by (simp_all add: dispatch_event_def ev check_def deref_def kind_def)
    then show ?thesis using accept_isock_tables[OF t] by blast
  next
    case False
    then have "accept_usock E a w = (Ok (), w') \<or> stream_stream a ans w = (Ok (), w')"
      using r s by (cases "s_fd_type s") (simp_all add: dispatch_event_def ev check_def deref_def)
    then show ?thesis using maintains_tables[OF maintains_accept_usock _ t] maintains_tables[OF maintains_streams(9) _ t] by blast
  qed
qed

lemma maintains_dispatch: "maintains tables_ok (dispatch_epoll evs)"
  unfolding dispatch_epoll_def
proof (intro maintains_for_each maintainsI)
  show "tables_ok w'" if "tables_ok w" "dispatch_event ev w = (Ok r, w')" for ev w r w'
    by (rule dispatch_event_tables[OF that(1)]) (use that(2) in simp)
qed

lemma resolve_event_tables:
  assumes t: "tables_ok w" and r: "resolve_event ev w = (Ok go, w')"
  shows "tables_ok w'"
proof -
  obtain a E ans where ev: "ev = (a, E, ans)" by (cases ev)
  obtain s it where s: "m_streams w a = Some s" "load_next a w = (Ok it, w)"
    using r by (auto simp: resolve_event_def ev check_Ok_iff deref_def load_next_def ret_def undef_def split: option.splits)
  consider "i_state it = STREAM_STREAMING_CLOSED" | "i_state it \<noteq> STREAM_STREAMING_CLOSED" "i_state it \<noteq> STREAM_STREAMING_COMPLETE"
    | "i_state it = STREAM_STREAMING_COMPLETE" by blast
  then show ?thesis
  proof cases
    case 1
    then have "e_epoll_close_remove a w = (Ok (), w')"
      using r s by (auto simp: resolve_event_def ev check_Ok_iff deref_def ret_def)
    then show ?thesis by (rule close_remove_tables[OF t])
  next
    case 2
    then show ?thesis using r s t by (auto simp: resolve_event_def ev check_Ok_iff deref_def ret_def)
  next
    case 3
    obtain w1 where w1: "stream_collect a w = (Ok (), w1)"
      using r s 3 by (auto simp: resolve_event_def ev check_Ok_iff deref_def)
    have t1: "tables_ok w1" by (rule maintains_tables[OF maintains_streams(8) w1 t])
    obtain s1 where s1: "m_streams w1 a = Some s1"
      using r s 3 w1 by (auto simp: resolve_event_def ev check_Ok_iff deref_def split: option.splits)
    let ?it = "s_fallback s1"
    have "w' = w1 \<or> e_epoll_reset_stream a w1 = (Ok (), w') \<or>
       (\<exists>w2 m. m w1 = (Ok (), w2) \<and> e_epoll_reset_stream a w2 = (Ok (), w') \<and>
         (m = p_handler E a ?it \<and> s_fd_type s1 = FD_PEER \<or> m = r_handler E a ?it \<or> m = dev_handler a ?it))"
      using r s 3 w1 s1
      by (cases "s_fd_type s1")
        (auto simp: resolve_event_def ev check_Ok_iff deref_def ret_def Let_def split: if_splits)
    moreover have "tables_ok w2" if "m w1 = (Ok (), w2)"
      "m = p_handler E a ?it \<and> s_fd_type s1 = FD_PEER \<or> m = r_handler E a ?it \<or> m = dev_handler a ?it" for m w2
      using that(2)
    proof (elim disjE conjE)
      assume "m = p_handler E a ?it" "s_fd_type s1 = FD_PEER"
      then show ?thesis using p_handler_tables[OF t1, of a E ?it w2] that(1) s1 by (simp add: kind_def)
    qed (use maintains_tables[OF maintains_r_handler _ t1] maintains_tables[OF maintains_lookup(2) _ t1] that(1) in blast)+
    ultimately show ?thesis using t1 maintains_tables[OF maintains_streams(7)] by blast
  qed
qed

lemma maintains_resolve: "maintains tables_ok (resolve_fd_streams evs)"
proof (induction evs)
  case (Cons ev evs)
  have "maintains tables_ok (resolve_event ev)" by (rule maintainsI) (rule resolve_event_tables)
  with Cons show ?case by (auto intro!: maintains_intros)
qed simp

lemma maintains_round: "maintains tables_ok (d_round evs)"
  unfolding d_round_def by (auto intro!: maintains_intros maintains_dispatch maintains_resolve split: option.split)

subsection \<open>Set-up\<close>

text \<open>The context \<open>d_init\<close> starts with: no streams, nothing registered, no tables.\<close>

definition blank :: "d_context \<Rightarrow> bool" where
  "blank w \<longleftrightarrow> 0 < unat (m_brk w) \<and> m_streams w = Map.empty \<and> k_epoll w = Map.empty \<and>
     arr_data (stream_ptrs w) = None \<and> arr_data (relay_streams w) = None \<and> isock_stream w = 0"

lemma elems_none [simp]: "arr_data arr = None \<Longrightarrow> elems arr = [] \<and> table_inv arr"
  by (simp add: elems_def table_inv_def)

lemma blank_base: "blank w \<Longrightarrow> base_ok w \<and> kind w = Map.empty"
  by (auto simp: blank_def base_ok_def streams_ok_def ptrs_ok_def interest_ok_def relays_ok_def kind_def)

lemma u_array_init_table: "u_array_init av z c arr = (Ok (), arr') \<Longrightarrow> table_inv arr' \<and> elems arr' = []"
  using u_array_init_spec[of av z c arr "Ok ()" arr'] by (auto simp: table_inv_def)

lemma maintains_init_relays [maintains_intros]: "maintains tables_ok (on_relays (u_array_init av z c))"
proof (rule maintainsI)
  fix w r w' assume t: "tables_ok w" and r: "on_relays (u_array_init av z c) w = (Ok r, w')"
  then obtain arr where arr: "u_array_init av z c (relay_streams w) = (Ok (), arr)" "w' = w\<lparr>relay_streams := arr\<rparr>"
    by (cases r) (auto simp: zoom_def split: prod.splits)
  show "tables_ok w'" using t u_array_init_table[OF arr(1)] unfolding arr(2)
    by (simp add: tables_ok_def base_ok_def streams_ok_def ptrs_ok_def interest_ok_def relays_ok_def peers_ok_def
        kind_cong[of "w\<lparr>relay_streams := arr\<rparr>" w])
qed

lemma maintains_relay_ctx [maintains_intros]: "maintains tables_ok (r_init_relay_ctx fd)"
  unfolding r_init_relay_ctx_def by (auto intro!: maintains_intros)

lemma maintains_device_ctx [maintains_intros]: "maintains tables_ok (dev_init_device_ctx E paths ty)"
proof -
  have "maintains tables_ok (\<lambda>w. case p of (Ok dev_path, _) \<Rightarrow> check (dev_init_device E dev_path) announce_device w
       | (Fail, _) \<Rightarrow> (Fail, w) | (Undef, _) \<Rightarrow> (Undef, w))" for p :: "string res \<times> string u_array"
  proof (cases "fst p")
    case (Ok path)
    have "maintains tables_ok (check (dev_init_device E path) announce_device)"
      unfolding dev_init_device_def announce_device_def by (auto intro!: maintains_intros split: option.split)
    then show ?thesis using Ok by (cases p) simp
  qed (cases p; auto simp: maintains_def)+
  then have "maintains tables_ok (dev_init_devices_arg E paths)"
    unfolding dev_init_devices_arg_def by (intro maintains_for_each) blast
  then show ?thesis unfolding dev_init_device_ctx_def by (auto intro!: maintains_intros)
qed

lemma base_cong:
  assumes "base_ok w" "m_streams w' = m_streams w" "m_brk w' = m_brk w" "k_epoll w' = k_epoll w" "stream_ptrs w' = stream_ptrs w"
    "relay_streams w' = relay_streams w" "unat (isock_stream w') < unat (m_brk w)"
  shows "base_ok w' \<and> kind w' = kind w"
proof -
  have k: "kind w' = kind w" by (rule kind_cong[OF assms(2)])
  have "streams_ok w'" using assms(1,7) unfolding base_ok_def streams_ok_def assms(3) k by simp
  moreover have "ptrs_ok w'" "relays_ok w'" "interest_ok w'" using assms(1) unfolding base_ok_def ptrs_ok_def relays_ok_def interest_ok_def k assms by simp_all
  ultimately show ?thesis using k by (simp add: base_ok_def)
qed

lemma p_init_tables:
  assumes b: "base_ok w" "kind w = Map.empty" and ty: "d_type w = ty" and r: "p_init_peer_ctx fd port ty w = (Ok (), w')"
  shows "tables_ok w'"
proof -
  have isock: "unat (isock_stream v) < unat (m_brk v)" if "base_ok v" for v using that by (simp add: base_ok_def streams_ok_def)
  have null: "unat (0 :: addr) < unat (m_brk w)" using b(1) by (simp add: base_ok_def streams_ok_def)
  show ?thesis
  proof (cases ty)
    case DAEMON_SERVER
    obtain a w1 w2 w3 where st: "e_epoll_add_getr fd FD_ISOCK (w\<lparr>isock_port := port, peer_stream := 0\<rparr>) = (Ok a, w1)"
      "w2 = w1\<lparr>isock_stream := a\<rparr>" "stream_set_default a STREAM_OP_READING STREAM_TYPE_SOCKET w2 = (Ok (), w3)"
      "w' = w3\<lparr>p_state := PEER_DISCONNECTED\<rparr>"
      using r DAEMON_SERVER by (auto simp: p_init_peer_ctx_def check_Ok_iff modify_def)
    let ?v = "w\<lparr>isock_port := port, peer_stream := 0\<rparr>"
    have v: "base_ok ?v \<and> kind ?v = kind w" by (rule base_cong[OF b(1)]) (use isock[OF b(1)] in simp_all)
    from add_getr_adds[OF _ st(1)] v have w1: "base_ok w1" "adds a FD_ISOCK ?v w1" by blast+
    have k1: "kind w1 = [a \<mapsto> FD_ISOCK]" using adds_fields(1)[OF w1(2)] v b(2) by simp
    have "unat a < unat (m_brk w1)" using streams_ok_less[of w1 a] w1(1) k1 by (simp add: base_ok_def)
    then have w2: "base_ok w2 \<and> kind w2 = kind w1" by (intro base_cong[OF w1(1)]) (simp_all add: st(2))
    then have "tables_ok w2" using k1 st(2) by (simp add: tables_ok_def peers_ok_def)
    from maintains_tables[OF maintains_streams(10) st(3) this] show ?thesis unfolding st(4) by (subst tables_cong) simp_all
  next
    case DAEMON_CLIENT
    obtain a w1 w2 w3 where st: "e_epoll_add_getr fd FD_PEER (w\<lparr>isock_port := port, isock_stream := 0\<rparr>) = (Ok a, w1)"
      "w2 = w1\<lparr>peer_stream := a\<rparr>" "stream_set_default a STREAM_OP_READING STREAM_TYPE_SOCKET w2 = (Ok (), w3)"
      "w' = w3\<lparr>p_state := PEER_CONNECTED\<rparr>"
      using r DAEMON_CLIENT by (auto simp: p_init_peer_ctx_def check_Ok_iff modify_def)
    let ?v = "w\<lparr>isock_port := port, isock_stream := 0\<rparr>"
    have v: "base_ok ?v \<and> kind ?v = kind w" by (rule base_cong[OF b(1)]) (use null in simp_all)
    from add_getr_adds[OF _ st(1)] v have w1: "base_ok w1" "adds a FD_PEER ?v w1" by blast+
    have w2: "base_ok w2 \<and> kind w2 = kind w1" by (rule base_cong[OF w1(1)]) (use isock[OF w1(1)] st(2) in simp_all)
    have "d_type w2 = DAEMON_CLIENT" using adds_fields(5)[OF w1(2)] ty DAEMON_CLIENT st(2) by simp
    with w2 have "tables_ok w2" by (simp add: tables_ok_def peers_ok_def)
    from maintains_tables[OF maintains_streams(10) st(3) this] show ?thesis unfolding st(4) by (subst tables_cong) simp_all
  qed
qed

lemma setup_tables:
  assumes b: "blank w" and r: "d_setup arg prepared created net usock E w = (Ok (), w')"
  shows "tables_ok w'"
proof -
  let ?v = "w\<lparr>d_type := da_type arg, ep_open := True\<rparr>"
  obtain w1 fd w2 w3 where st: "on_ptrs (u_array_init (m_av w) sizeof_ptr rcn_std_capacity) ?v = (Ok (), w1)"
    "got_fd net w1 = (Ok fd, w2)" "p_init_peer_ctx fd (da_port arg) (da_type arg) w2 = (Ok (), w3)"
    "check (got_fd usock) (\<lambda>usock_fd. check (r_init_relay_ctx usock_fd) (\<lambda>_. dev_init_device_ctx E (da_devices arg) (da_type arg))) w3 = (Ok (), w')"
    using r by (auto simp: d_setup_def e_init_epoll_ctx_def check_Ok_iff check_not_def fail_def modify_def gets_def split: if_splits)
  obtain arr where arr: "u_array_init (m_av w) sizeof_ptr rcn_std_capacity (stream_ptrs w) = (Ok (), arr)" "w1 = ?v\<lparr>stream_ptrs := arr\<rparr>"
    using st(1) by (auto simp: zoom_def split: prod.splits)
  have w2: "w2 = w1\<lparr>k_open := (k_open w1)(fd := True)\<rparr>" using st(2) by (auto simp: got_fd_def split: option.splits)
  have k: "kind w2 = kind w" by (rule kind_cong) (simp add: w2 arr(2))
  have "base_ok w2" using blank_base[OF b] u_array_init_table[OF arr(1)] k b
    by (simp add: blank_def base_ok_def streams_ok_def ptrs_ok_def interest_ok_def relays_ok_def w2 arr(2))
  with p_init_tables[OF this _ _ st(3)] k blank_base[OF b] have t3: "tables_ok w3" by (simp add: w2 arr(2))
  have "maintains tables_ok (check (got_fd usock) (\<lambda>usock_fd. check (r_init_relay_ctx usock_fd) (\<lambda>_. dev_init_device_ctx E (da_devices arg) (da_type arg))))"
    by (auto intro!: maintains_intros)
  from maintains_tables[OF this st(4) t3] show ?thesis .
qed

end
