(* ===== verification/Rcn_Running.thy ===== *)
theory Rcn_Running
  imports Rcn_Rounds Rcn_Server
begin

section \<open>A running daemon\<close>

text \<open>
  The states a daemon is in between two rounds of its loop, as a step relation, and what holds in all of
  them.
\<close>

subsection \<open>Steps\<close>

text \<open>A round in which no call fails; between rounds bytes arrive.\<close>

inductive daemon_step :: "d_context \<Rightarrow> d_context \<Rightarrow> bool" where
  round: "\<not> can_exit w \<Longrightarrow> d_round (Some evs) w = (Ok (), w') \<Longrightarrow> daemon_step w w'"
| arrive: "daemon_step w (w\<lparr>k_in := bytes\<rparr>)"

inductive_cases daemon_stepE: "daemon_step w w'"

inductive running :: "d_context \<Rightarrow> bool" where
  started: "blank w0 \<Longrightarrow> d_setup arg prepared created net usock E w0 = (Ok (), w) \<Longrightarrow> running w"
| step: "running w \<Longrightarrow> daemon_step w w' \<Longrightarrow> running w'"

lemma step_tables: "daemon_step w w' \<Longrightarrow> tables_ok w \<Longrightarrow> tables_ok w'"
proof (erule daemon_stepE)
  fix evs assume "d_round (Some evs) w = (Ok (), w')" "tables_ok w"
  then show "tables_ok w'" using maintains_tables[OF maintains_round] by blast
next
  fix bytes assume "tables_ok w" "w' = w\<lparr>k_in := bytes\<rparr>"
  then show "tables_ok w'" by (subst tables_cong) simp_all
qed

lemma running_tables: "running w \<Longrightarrow> tables_ok w"
  by (induction rule: running.induct) (blast intro: setup_tables step_tables)+

subsection \<open>A server that has just started\<close>

definition blank_ctx :: d_context where
  "blank_ctx = \<lparr>m_streams = Map.empty, m_bufs = Map.empty, m_brk = 16, m_av = (\<lambda>_. True), k_in = (\<lambda>_. []), k_out = (\<lambda>_. []),
     k_open = (\<lambda>_. False), k_epoll = Map.empty,
     stream_ptrs = \<lparr>arr_data = None, arr_size = 0, arr_capacity = 0, arr_length = 0\<rparr>, ep_open = False,
     isock_stream = 0, peer_stream = 0, isock_port = 0, isock_state = PEER_DISCONNECTED, p_state = PEER_DISCONNECTED,
     devices = \<lparr>arr_data = None, arr_size = 0, arr_capacity = 0, arr_length = 0\<rparr>,
     relay_streams = \<lparr>arr_data = None, arr_size = 0, arr_capacity = 0, arr_length = 0\<rparr>,
     usock_fd = 0, d_state = RCN_RUNNING, d_type = DAEMON_CLIENT, d_exit = False, k_ui = [], k_grab = (\<lambda>_. False)\<rparr>"

definition idle_kernel :: kenv where
  "idle_kernel = \<lparr>e_open = (\<lambda>_. None), e_accept = Some 7, e_inet = None, e_setup = True, e_read = (\<lambda>_ _. None),
     e_random = (\<lambda>_. None), e_ui = (\<lambda>_. True), e_grab = (\<lambda>_. True), e_keys = (\<lambda>_. [])\<rparr>"

definition server_arg :: daemon_arg where
  "server_arg = \<lparr>da_port = 8000, da_host = None, da_devices = no_paths, da_type = DAEMON_SERVER\<rparr>"

lemmas setup_arrays = op_simps u_array_init_def granted_def sizeof_ptr_def rcn_std_capacity_def Let_def got_fd_def

lemmas setup_stream = e_epoll_add_def e_epoll_add_getr_def new_stream_def calloc_stream_def fresh_def op_simps granted_def on_stream_def
    stream_init_def u_queue_init_def u_array_init_def put_stream_def zero_stream_def rcn_std_capacity_def sizeof_stream_item_def

lemmas setup_register = u_array_add_def slot_def store_cell_def op_simps sizeof_epoll_stream_def ep_add_in_def epoll_ctl_add_def
    stream_set_default_def deref_def on_stream_def put_stream_def Let_def

lemma server_starts:
  "\<exists>w. d_setup server_arg True True (Some 4) (Some 5) idle_kernel blank_ctx = (Ok (), w) \<and> d_type w = DAEMON_SERVER \<and>
    d_exit w = False \<and>
    k_epoll w 4 = Some (EPOLLIN, 16) \<and> kind w 16 = Some FD_ISOCK"
  apply (simp add: d_setup_def server_arg_def blank_ctx_def e_init_epoll_ctx_def setup_arrays)
  apply (simp add: p_init_peer_ctx_def setup_stream)
  apply (simp add: setup_register)
  apply (simp add: r_init_relay_ctx_def setup_arrays)
  apply (simp add: setup_stream)
  apply (simp add: setup_register)
  apply (simp add: dev_init_device_ctx_def sizeof_device_def setup_arrays kind_def)
  done

lemma server_running:
  obtains w where "running w" "d_type w = DAEMON_SERVER" "d_exit w = False" "k_epoll w 4 = Some (EPOLLIN, 16)" "kind w 16 = Some FD_ISOCK"
proof -
  have "blank blank_ctx" by (simp add: blank_def blank_ctx_def)
  then show thesis using server_starts running.started that by blast
qed

subsection \<open>Properties\<close>

text \<open>C5: Between any two rounds of a daemon, client or server, whatever the kernel, the other daemon and
  the relays have done: every pointer \<open>epoll_wait\<close> can hand back is a live stream registered under its own
  descriptor, the table of streams and the table of relays hold live streams only, each once, and the
  latter only relays.\<close>

theorem tables_refer_to_live_streams:
  assumes "running w"
  shows "(\<forall>fd m p. k_epoll w fd = Some (m, p) \<longrightarrow> (\<exists>s. m_streams w p = Some s \<and> s_fd s = fd)) \<and>
    distinct (ptrs w) \<and> (\<forall>p \<in> set (ptrs w). m_streams w p \<noteq> None) \<and>
    distinct (relays w) \<and> (\<forall>r \<in> set (relays w). kind w r = Some FD_RELAY)"
proof -
  have t: "streams_ok w" "ptrs_ok w" "interest_ok w" "relays_ok w"
    using running_tables[OF assms] by (simp_all add: tables_ok_def base_ok_def)
  then show ?thesis by (simp add: ptrs_ok_def interest_ok_def relays_ok_def kind_def)
qed

theorem tables_refer_to_live_streams_witness:
  "\<exists>w s. running w \<and> k_epoll w 4 = Some (EPOLLIN, 16) \<and> m_streams w 16 = Some s \<and> s_fd s = 4"
proof -
  obtain w where "running w" "k_epoll w 4 = Some (EPOLLIN, 16)" using server_running by blast
  with tables_refer_to_live_streams[of w] show ?thesis by blast
qed

text \<open>C35: When a server accepts a client, it frees the stream of its listening socket while the event of
  that stream is still to be resolved in the same round; reading its item there is a use after free.  No
  round that accepts a client has a defined outcome.\<close>

theorem accepting_uses_freed_stream:
  assumes "running w" "kind w a = Some FD_ISOCK"
  shows "fst (d_round (Some [(a, E, ans)]) w) = (if fst (accept_isock E a w) = Ok () then Undef else fst (accept_isock E a w))"
proof -
  obtain s where s: "m_streams w a = Some s" "s_fd_type s = FD_ISOCK" using assms(2) by (auto simp: kind_def)
  obtain r w1 where r: "accept_isock E a w = (r, w1)" by fastforce
  have d: "dispatch_event (a, E, ans) w = (r, w1)"
    using s r by (simp add: dispatch_event_def check_def deref_def)
  show ?thesis
  proof (cases "r = Ok ()")
    case True
    with accept_isock_tables[OF running_tables[OF assms(1)] assms(2)] r have "m_streams w1 a = None"
      by (simp add: kind_def)
    then have "fst (resolve_event (a, E, ans) w1) = Undef"
      by (simp add: resolve_event_def check_def deref_def)
    then show ?thesis using d r True
      by (cases "resolve_event (a, E, ans) w1") (simp add: d_round_def dispatch_epoll_def check_def ret_def)
  next
    case False
    then show ?thesis using d r by (cases r) (simp_all add: d_round_def dispatch_epoll_def check_def)
  qed
qed

theorem accepting_uses_freed_stream_witness:
  "\<exists>w. running w \<and> fst (d_round (Some [(16, idle_kernel, Io_again)]) w) \<noteq> Ok ()"
proof -
  obtain w where w: "running w" "kind w 16 = Some FD_ISOCK" by (rule server_running)
  from accepting_uses_freed_stream[OF this, of idle_kernel Io_again] w(1) show ?thesis by (intro exI[of _ w]) simp
qed

text \<open>C36: On the client's stop message a server closes the devices, sets their table up afresh, opens a
  listening socket and stores its descriptor through the pointer to the stream it freed when the client
  connected (rcn_peer.c:81).  The handler fails as soon as one of the first three steps does; when all of them succeed it
  writes to freed memory.  It never completes.\<close>

theorem stop_message_never_completes:
  assumes "tables_ok w" "d_type w = DAEMON_SERVER" "kind w a = Some FD_PEER"
    and "h_value (msg_header it) = peer_code PEER_HEADER_STOP"
  shows "fst (p_handler E a it w) =
    (case check dev_close_device_ctx (\<lambda>_. dev_init_device_ctx E no_paths DAEMON_SERVER) w of
       (Ok _, _) \<Rightarrow> if e_inet E = None then Fail else Undef
     | (Fail, _) \<Rightarrow> Fail
     | (Undef, _) \<Rightarrow> Undef)"
proof -
  have "p_handler E a it w = peer_handler_stop E w"
    unfolding p_handler_def assms(4) peer_of_code by simp
  moreover have "listener_gone w" by (rule peer_gone[OF assms(1,3,2)])
  ultimately show ?thesis using stop_on_server_result[OF _ assms(2), of E] by simp
qed

text \<open>A server whose client is connected; address 64, that of the listening stream, is free again.\<close>

definition mirrored_server :: d_context where
  "mirrored_server = (ctx_of (mem_of [(16, fresh_stream STREAM_OP_READING STREAM_TYPE_SOCKET FD_PEER 5)] (\<lambda>_. []))
     [] [] 16 DAEMON_SERVER RCN_RUNNING PEER_CONNECTED)\<lparr>isock_stream := 64, k_epoll := Map.empty\<rparr>"

lemma mirrored_server_ok:
  "tables_ok mirrored_server" "kind mirrored_server 16 = Some FD_PEER" "d_type mirrored_server = DAEMON_SERVER"
proof -
  have k: "kind mirrored_server = [16 \<mapsto> FD_PEER]"
    by (rule ext) (simp add: kind_def mirrored_server_def mem_of_def fresh_stream_def)
  show "tables_ok mirrored_server" by (simp add: tables_ok_def base_ok_def streams_ok_def ptrs_ok_def interest_ok_def relays_ok_def peers_ok_def k)
      (simp add: mirrored_server_def mem_of_def array_of_inv table_inv_def)
  show "kind mirrored_server 16 = Some FD_PEER" "d_type mirrored_server = DAEMON_SERVER" by (simp add: k) (simp add: mirrored_server_def ctx_of_def mem.defs)
qed

lemma tables_cleared:
  "\<exists>w. check dev_close_device_ctx (\<lambda>_. dev_init_device_ctx E no_paths DAEMON_SERVER) mirrored_server = (Ok (), w)"
  by (simp add: mirrored_server_def dev_close_device_ctx_def dev_init_device_ctx_def op_simps ctx_of_def mem.defs array_of_def
    u_array_free_def u_array_init_def mem_of_def granted_def sizeof_device_def rcn_std_capacity_def)

theorem stop_message_never_completes_witness:
  "fst (p_handler (idle_kernel\<lparr>e_inet := Some 9\<rparr>) 16 (with_header (peer_code PEER_HEADER_STOP)) mirrored_server) = Undef"
proof -
  let ?E = "idle_kernel\<lparr>e_inet := Some 9\<rparr>"
  obtain w where "check dev_close_device_ctx (\<lambda>_. dev_init_device_ctx ?E no_paths DAEMON_SERVER) mirrored_server = (Ok (), w)"
    using tables_cleared by blast
  with stop_message_never_completes[OF mirrored_server_ok(1,3,2), of "with_header (peer_code PEER_HEADER_STOP)" ?E]
  show ?thesis by (simp add: with_header_def)
qed

end
