(* ===== verification/Rcn_Stop.thy ===== *)
theory Rcn_Stop
  imports Rcn_Running
begin

section \<open>How a daemon comes to an end\<close>

text \<open>
  The flag that ends the loop of \<open>d_loop\<close> is written by two handlers only.  Every other operation of a
  round is shown to leave it as it is, so that a loop that has ended has served a request to stop.
\<close>

subsection \<open>What leaves the exit flag alone\<close>

text \<open>\<open>asked b\<close>: the exit flag has the value \<open>b\<close>.\<close>

definition asked :: "bool \<Rightarrow> d_context \<Rightarrow> bool" where
  "asked b w \<longleftrightarrow> d_exit w = b"

lemma exit_same:
  assumes "\<And>w r w'. m w = (Ok r, w') \<Longrightarrow> d_exit w' = d_exit w" shows "maintains (asked b) m"
  using assms by (auto simp: maintains_def asked_def)

lemma exit_frames: "frames m \<Longrightarrow> maintains (asked b) m"
proof (rule exit_same)
  fix w r w' assume "frames m" "m w = (Ok r, w')"
  then have "mem.more w' = mem.more w" by (auto simp: frames_def frame_def)
  then show "d_exit w' = d_exit w" by (cases w; cases w'; simp)
qed

lemma exit_streams [maintains_intros]:
  "maintains (asked b) (deref a)" "maintains (asked b) (load_next a)" "maintains (asked b) (e_epoll_sync_stream a)"
  "maintains (asked b) (stream_queue_writing_socket a v sz bs)" "maintains (asked b) (stream_queue_writing_device a e)"
  "maintains (asked b) (send_header a v)" "maintains (asked b) (e_epoll_reset_stream a)" "maintains (asked b) (stream_collect a)"
  "maintains (asked b) (stream_stream a ans)"
  unfolding send_header_def by (rule exit_frames; intro frames_intros)+

lemma exit_fields [maintains_intros]:
  "maintains (asked b) (modify (\<lambda>w. w\<lparr>p_state := ps\<rparr>))" "maintains (asked b) (modify (\<lambda>w. w\<lparr>peer_stream := p\<rparr>))"
  "maintains (asked b) (modify (\<lambda>w. w\<lparr>k_ui := g w\<rparr>))" "maintains (asked b) (modify (\<lambda>w. w\<lparr>k_grab := h w\<rparr>))"
  "maintains (asked b) (modify (sys_close fd))" "maintains (asked b) (set_rcn_state st)"
  unfolding set_rcn_state_def by (rule exit_same; auto simp: modify_def sys_close_def)+

lemma exit_tables [maintains_intros]:
  "maintains (asked b) (on_devices md)" "maintains (asked b) (on_relays mr)" "maintains (asked b) (on_ptrs mr)"
  by (rule exit_same; auto simp: zoom_def split: prod.splits)+

lemma exit_kernel [maintains_intros]:
  "maintains (asked b) (got_fd ans)" "maintains (asked b) (load_struct blk n)" "maintains (asked b) (store_struct blk off bs)"
  "maintains (asked b) (load_dev k)" "maintains (asked b) (store_dev k d)" "maintains (asked b) (\<lambda>w. (x, w))"
  "maintains (asked b) calloc_device" "maintains (asked b) (ep_del fd)" "maintains (asked b) (ep_add_in fd a)" "maintains (asked b) (free_stream a)"
  "maintains (asked b) new_stream" "maintains (asked b) (on_stream a ms)" "maintains (asked b) (free_buffer a)"
  "maintains (asked b) (ctrl_epoll ctrl a)"
  by (rule exit_same; auto simp: got_fd_def load_struct_def store_struct_def load_dev_def store_dev_def calloc_device_def
      ep_del_def ep_add_in_def free_stream_def new_stream_def calloc_stream_def on_stream_def put_stream_def free_buffer_def
      epoll_ctl_add_def epoll_ctl_del_def ctrl_epoll_def check_Ok_iff deref_def
      split: option.splits if_splits ep_res.splits prod.splits device_ctrl.splits)+

lemma exit_close_items [maintains_intros]: "maintains (asked b) (close_items n a)"
  by (induction n) (auto intro!: maintains_intros)

lemma exit_close [maintains_intros]: "maintains (asked b) (stream_close a)" "maintains (asked b) (e_epoll_close_remove_simple a)"
  unfolding stream_close_def e_epoll_close_remove_simple_def by (auto intro!: maintains_intros)

lemma exit_init [maintains_intros]: "maintains (asked b) (stream_set_default a dop dty)" "maintains (asked b) (stream_init a fd ty)"
  unfolding stream_init_def stream_set_default_def Let_def by (auto intro!: maintains_intros split: fd_type.split)

lemma exit_add [maintains_intros]: "maintains (asked b) (e_epoll_add_getr fd ty)" "maintains (asked b) (e_epoll_add_device fd ty)"
  unfolding e_epoll_add_getr_def e_epoll_add_device_def by (auto intro!: maintains_intros)

lemma exit_for_devices [maintains_intros]: "(\<And>k. maintains (asked b) (f k)) \<Longrightarrow> maintains (asked b) (for_devices f)"
  unfolding for_devices_def by (auto intro!: maintains_intros)

lemma exit_find [maintains_intros]: "maintains (asked b) (find_dev x n i out)" "maintains (asked b) (find_stream a n i)"
  by (induction n arbitrary: i out) (auto intro!: maintains_intros)

lemma exit_devices [maintains_intros]:
  "maintains (asked b) (dev_find_by_id x)" "maintains (asked b) (dev_handler a it)" "maintains (asked b) (dev_emit_event_msg m)"
  "maintains (asked b) (dev_release_virt_keys k)" "maintains (asked b) dev_release_virt_keys_all"
  "maintains (asked b) (dev_grab_device_by_ptr E k ctrl)" "maintains (asked b) (dev_ctrl_devices E ctrl)"
  "maintains (asked b) (ui_ioctl E fd req)" "maintains (asked b) (set_udev_bits E fd g bits n)"
  "maintains (asked b) (apply_udev_info E fd blk tmpl)" "maintains (asked b) (dev_init_udev E blk)" "maintains (asked b) (ctrl_by_type E ctrl)"
  unfolding dev_find_by_id_def dev_handler_def dev_emit_event_msg_def dev_release_virt_keys_all_def dev_release_virt_keys_def
    dev_ctrl_devices_def dev_grab_device_by_ptr_def drain_events_def ui_ioctl_def set_udev_bits_def apply_udev_info_def
    dev_init_udev_def ctrl_by_type_def
  by (auto intro!: maintains_intros split: option.split daemon_type.split)

lemma exit_broadcast [maintains_intros]: "maintains (asked b) (r_broadcast_relay_header h)"
  unfolding r_broadcast_relay_header_def by (auto intro!: maintains_intros)

lemma exit_build_list [maintains_intros]: "maintains (asked b) (build_list n i lst)"
  by (induction n arbitrary: i lst) (auto intro!: maintains_intros split: res.split prod.split)

lemma exit_relay_handlers [maintains_intros]:
  "maintains (asked b) (relay_handler_start a)" "maintains (asked b) (relay_handler_pause E a)" "maintains (asked b) (relay_handler_resume E a)"
  "maintains (asked b) (relay_handler_switch E a)" "maintains (asked b) (relay_handler_list a)"
  unfolding relay_handler_start_def relay_handler_pause_def relay_handler_resume_def relay_handler_switch_def relay_handler_list_def
  by (auto intro!: maintains_intros split: rcn_state.split res.split prod.split)

lemma exit_ignore:
  assumes "\<And>w. d_exit (snd (m w)) = d_exit w" "maintains (asked b) k"
  shows "maintains (asked b) (ignore m k)"
proof (rule maintainsI)
  fix w r w' assume u: "asked b w" and r: "ignore m k w = (Ok r, w')"
  obtain q w1 where q: "m w = (q, w1)" by fastforce
  then have "k w1 = (Ok r, w')" using r by (cases q) (auto simp: ignore_def)
  moreover have "asked b w1" using assms(1)[of w] q u by (simp add: asked_def)
  ultimately show "asked b w'" using maintainsD[OF assms(2)] by blast
qed

lemma closing_exit:
  "d_exit (snd (r_close_relay a w)) = d_exit w" "d_exit (snd (dev_close_dev a w)) = d_exit w" "d_exit (snd (p_close_peer w)) = d_exit w"
  by (auto simp: r_close_relay_def dev_close_dev_def p_close_peer_def op_simps split: prod.split res.split)

lemma exit_close_remove [maintains_intros]: "maintains (asked b) (e_epoll_close_remove a)"
  unfolding e_epoll_close_remove_def
  by (intro maintains_intros) (simp split: fd_type.split add: maintains_intros exit_ignore closing_exit)

lemma exit_dispatch [maintains_intros]: "maintains (asked b) (dispatch_epoll evs)"
  unfolding dispatch_epoll_def dispatch_event_def accept_usock_def accept_isock_def
  by (auto intro!: maintains_intros split: prod.split fd_type.split)

subsection \<open>What sets it\<close>

text \<open>
  A message is a request to stop when a relay sends \<open>RELAY_HEADER_STOP\<close>, or when the server sends its
  client \<open>PEER_HEADER_STOP\<close>; \<open>stop_received\<close>: event \<open>ev\<close> of the round is a stream whose current item is
  complete and, collected, is such a message.
\<close>

definition stop_message :: "daemon_type \<Rightarrow> fd_type \<Rightarrow> stream_item \<Rightarrow> bool" where
  "stop_message ty kd it \<longleftrightarrow>
     kd = FD_RELAY \<and> relay_of_code (h_value (msg_header it)) = Some RELAY_HEADER_STOP \<or>
     kd = FD_PEER \<and> ty = DAEMON_CLIENT \<and> peer_of_code (h_value (msg_header it)) = Some PEER_HEADER_STOP"

definition stop_received :: "event \<Rightarrow> d_context \<Rightarrow> bool" where
  "stop_received ev w \<longleftrightarrow> (case ev of (a, E, ans) \<Rightarrow>
     (\<exists>it w0 u s. load_next a w = (Ok it, w0) \<and> i_state it = STREAM_STREAMING_COMPLETE \<and> stream_collect a w0 = (Ok (), u) \<and>
        m_streams u a = Some s \<and> i_op (s_fallback s) = s_default_op s \<and> stop_message (d_type u) (s_fd_type s) (s_fallback s)))"

lemma exit_set [maintains_intros]: "maintains (asked True) (modify (\<lambda>w. w\<lparr>d_exit := True\<rparr>))"
  by (auto simp: maintains_def asked_def modify_def)

lemma exit_r_handler:
  "b \<or> relay_of_code (h_value (msg_header it)) \<noteq> Some RELAY_HEADER_STOP \<Longrightarrow> maintains (asked b) (r_handler E a it)"
  unfolding r_handler_def relay_handler_stop_def
  by (cases b) (auto intro!: maintains_intros split: option.split relay_msg_header.split)

lemma exit_close_devices [maintains_intros]: "maintains (asked b) (close_devices n)"
  by (induction n) (auto intro!: maintains_intros)

lemma exit_port [maintains_intros]:
  "maintains (asked b) (modify (\<lambda>w. w\<lparr>isock_port := port\<rparr>))" "maintains (asked b) (modify (\<lambda>w. w\<lparr>isock_stream := a\<rparr>))"
  by (rule exit_same; auto simp: modify_def)+

lemma exit_reopening [maintains_intros]:
  "maintains (asked b) dev_close_device_ctx" "maintains (asked b) (dev_init_device_ctx E ps DAEMON_SERVER)"
  "maintains (asked b) (p_init_peer_ctx fd port DAEMON_SERVER)"
  unfolding dev_close_device_ctx_def dev_init_device_ctx_def p_init_peer_ctx_def by (auto intro!: maintains_intros)

lemma exit_peer_handler_stop:
  assumes r: "peer_handler_stop E w = (Ok r, w')" and a: "asked b w" and b: "b \<or> d_type w = DAEMON_SERVER"
  shows "asked b w'"
proof (cases "d_type w")
  case DAEMON_SERVER
  have "maintains (asked b) (check dev_close_device_ctx (\<lambda>_. check (dev_init_device_ctx E no_paths DAEMON_SERVER) (\<lambda>_.
      check (got_fd (e_inet E)) (\<lambda>fd. check (gets isock_stream) (\<lambda>a. check (on_stream a (modify (\<lambda>s. s\<lparr>s_fd := fd\<rparr>))) (\<lambda>_.
      check (deref a) (\<lambda>s. check (gets isock_port) (\<lambda>port.
      check (p_init_peer_ctx (s_fd s) port DAEMON_SERVER) (\<lambda>_. set_rcn_state RCN_RUNNING)))))))))" (is "maintains _ ?m")
    by (auto intro!: maintains_intros)
  moreover have "?m w = (Ok r, w')" using r DAEMON_SERVER by (simp add: peer_handler_stop_def check_def[of "gets d_type"] gets_def)
  ultimately show ?thesis using a by (rule maintainsD)
next
  case DAEMON_CLIENT
  then have True: b using b by simp
  have "maintains (asked b) (check (modify (\<lambda>w. w\<lparr>d_exit := True\<rparr>)) (\<lambda>_. r_broadcast_relay_header RELAY_HEADER_STOP))" (is "maintains _ ?m")
    using True by (auto intro!: maintains_intros)
  moreover have "?m w = (Ok r, w')" using r DAEMON_CLIENT by (simp add: peer_handler_stop_def check_def[of "gets d_type"] gets_def)
  ultimately show ?thesis using a by (rule maintainsD)
qed

lemma exit_p_handler:
  assumes "p_handler E a it w = (Ok r, w')" "asked b w"
    and "b \<or> peer_of_code (h_value (msg_header it)) \<noteq> Some PEER_HEADER_STOP \<or> d_type w = DAEMON_SERVER"
  shows "asked b w'"
proof (cases "peer_of_code (h_value (msg_header it)) = Some PEER_HEADER_STOP")
  case True
  then show ?thesis using assms exit_peer_handler_stop[of E w r w'] by (auto simp: p_handler_def)
next
  case False
  then have "maintains (asked b) (p_handler E a it)"
    unfolding p_handler_def peer_handler_dev_crt_def peer_handler_dev_upd_grab_def peer_handler_event_def
      peer_handler_pause_def peer_handler_resume_def Let_def
    by (auto intro!: maintains_intros split: option.split peer_msg_header.split)
  from maintainsD[OF this assms(1,2)] show ?thesis .
qed

text \<open>What \<open>resolve_fd_streams\<close> does with a stream once its finished item has been collected.\<close>

definition serve_item :: "kenv \<Rightarrow> addr \<Rightarrow> epoll_stream \<Rightarrow> (bool, d_context) op" where
  "serve_item E a s = (let it = s_fallback s in
     if i_op it \<noteq> s_default_op s then check (e_epoll_reset_stream a) (\<lambda>_. ret True)
     else case s_fd_type s of
       FD_PEER \<Rightarrow> check (p_handler E a it) (\<lambda>_. check (e_epoll_reset_stream a) (\<lambda>_. ret True))
     | FD_RELAY \<Rightarrow> check (r_handler E a it) (\<lambda>_. check (e_epoll_reset_stream a) (\<lambda>_. ret True))
     | FD_DEV \<Rightarrow> check (dev_handler a it) (\<lambda>_. check (e_epoll_reset_stream a) (\<lambda>_. ret True))
     | FD_UDEV \<Rightarrow> check (e_epoll_reset_stream a) (\<lambda>_. ret True)
     | FD_ISOCK \<Rightarrow> ret False
     | FD_USOCK \<Rightarrow> ret False)"

lemma resolve_serves:
  assumes "resolve_event (a, E, ans) w = (Ok go, w')"
  obtains it w0 where "load_next a w = (Ok it, w0)" "i_state it \<noteq> STREAM_STREAMING_COMPLETE"
      "(if i_state it = STREAM_STREAMING_CLOSED then check (e_epoll_close_remove a) (\<lambda>_. ret True) else ret True) w0 = (Ok go, w')"
    | it w0 u s where "load_next a w = (Ok it, w0)" "i_state it = STREAM_STREAMING_COMPLETE" "stream_collect a w0 = (Ok (), u)"
      "m_streams u a = Some s" "serve_item E a s u = (Ok go, w')"
proof -
  obtain it w0 where l: "load_next a w = (Ok it, w0)" and rest: "(if i_state it = STREAM_STREAMING_CLOSED
       then check (e_epoll_close_remove a) (\<lambda>_. ret True)
       else if i_state it \<noteq> STREAM_STREAMING_COMPLETE then ret True
       else check (stream_collect a) (\<lambda>_. check (deref a) (\<lambda>s. serve_item E a s))) w0 = (Ok go, w')"
  proof -
    have "resolve_event (a, E, ans) = check (deref a) (\<lambda>_. check (load_next a) (\<lambda>it.
       if i_state it = STREAM_STREAMING_CLOSED then check (e_epoll_close_remove a) (\<lambda>_. ret True)
       else if i_state it \<noteq> STREAM_STREAMING_COMPLETE then ret True
       else check (stream_collect a) (\<lambda>_. check (deref a) (\<lambda>s. serve_item E a s))))"
      by (simp only: resolve_event_def serve_item_def prod.case)
    from assms[unfolded this] obtain s it w0 where "deref a w = (Ok s, w)" "load_next a w = (Ok it, w0)" "(if i_state it = STREAM_STREAMING_CLOSED
       then check (e_epoll_close_remove a) (\<lambda>_. ret True)
       else if i_state it \<noteq> STREAM_STREAMING_COMPLETE then ret True
       else check (stream_collect a) (\<lambda>_. check (deref a) (\<lambda>s. serve_item E a s))) w0 = (Ok go, w')"
      unfolding check_Ok_iff[of "deref a" "\<lambda>_. check (load_next a) _"] check_Ok_iff[of "load_next a"] by (auto simp: deref_def split: option.splits)
    then show ?thesis using that by blast
  qed
  show thesis
  proof (cases "i_state it = STREAM_STREAMING_COMPLETE")
    case True
    then show ?thesis using rest that(2)[OF l]
      by (auto simp: check_Ok_iff[of "stream_collect a"] check_Ok_iff[of "deref a"] deref_def split: option.splits)
  next
    case False
    then show ?thesis using rest that(1)[OF l] by (simp split: if_splits)
  qed
qed

lemma exit_reset: "maintains (asked b) (check (e_epoll_reset_stream a) (\<lambda>_. ret True))"
  by (intro maintains_intros)

lemma exit_serve:
  assumes r: "serve_item E a s u = (Ok go, w')" and u: "asked b u"
    and no: "b \<or> i_op (s_fallback s) \<noteq> s_default_op s \<or> \<not> stop_message (d_type u) (s_fd_type s) (s_fallback s)"
  shows "asked b w'"
proof (cases "i_op (s_fallback s) = s_default_op s \<and> s_fd_type s = FD_PEER")
  case True
  then obtain y v where v: "p_handler E a (s_fallback s) u = (Ok y, v)" "check (e_epoll_reset_stream a) (\<lambda>_. ret True) v = (Ok go, w')"
    using r by (auto simp: serve_item_def Let_def check_Ok_iff[of "p_handler _ _ _"])
  have "b \<or> peer_of_code (h_value (msg_header (s_fallback s))) \<noteq> Some PEER_HEADER_STOP \<or> d_type u = DAEMON_SERVER"
    using no True by (cases "d_type u") (auto simp: stop_message_def)
  from exit_p_handler[OF v(1) u this] have "asked b v" .
  from maintainsD[OF exit_reset v(2) this] show ?thesis .
next
  case False
  have relay: "maintains (asked b) (r_handler E a (s_fallback s))" if "i_op (s_fallback s) = s_default_op s" "s_fd_type s = FD_RELAY"
    by (rule exit_r_handler) (use no that in \<open>auto simp: stop_message_def\<close>)
  have "maintains (asked b) (serve_item E a s)"
  proof (cases "i_op (s_fallback s) = s_default_op s")
    case True
    with relay False exit_reset[of b a] show ?thesis
      by (cases "s_fd_type s") (simp_all add: serve_item_def Let_def maintains_check exit_devices(2))
  qed (simp add: serve_item_def Let_def exit_reset)
  from maintainsD[OF this r u] show ?thesis .
qed

lemma exit_resolve:
  assumes r: "resolve_event ev w = (Ok go, w')" and a: "asked b w" and b: "b \<or> \<not> stop_received ev w"
  shows "asked b w'"
proof -
  obtain a E ans where ev: "ev = (a, E, ans)" by (cases ev)
  have load: "maintains (asked b) (load_next a)" and collect: "maintains (asked b) (stream_collect a)" by (intro maintains_intros)+
  show ?thesis using r[unfolded ev]
  proof (cases rule: resolve_serves)
    case (1 it w0)
    have "maintains (asked b) (if i_state it = STREAM_STREAMING_CLOSED then check (e_epoll_close_remove a) (\<lambda>_. ret True) else ret True)"
      by (auto intro!: maintains_intros)
    from maintainsD[OF this 1(3) maintainsD[OF load 1(1) a]] show ?thesis .
  next
    case (2 it w0 u s)
    have "asked b u" by (rule maintainsD[OF collect 2(3) maintainsD[OF load 2(1) a]])
    then show ?thesis by (rule exit_serve[OF 2(5)]) (use b 2 in \<open>auto simp: stop_received_def ev\<close>)
  qed
qed

subsection \<open>Rounds\<close>

text \<open>\<open>gets_to es w ev u\<close>: resolving the events \<open>es\<close> from state \<open>w\<close> reaches event \<open>ev\<close> in state \<open>u\<close>.\<close>

primrec gets_to :: "event list \<Rightarrow> d_context \<Rightarrow> event \<Rightarrow> d_context \<Rightarrow> bool" where
  "gets_to [] w ev u = False"
| "gets_to (e # es) w ev u \<longleftrightarrow> e = ev \<and> w = u \<or> (\<exists>v. resolve_event e w = (Ok True, v) \<and> gets_to es v ev u)"

text \<open>In the round with the events \<open>es\<close>, the handler of a request to stop runs while the flag is still clear.\<close>

definition stop_served :: "event list \<Rightarrow> d_context \<Rightarrow> bool" where
  "stop_served es w \<longleftrightarrow> (\<exists>v ev u. dispatch_epoll es w = (Ok (), v) \<and> gets_to es v ev u \<and> \<not> d_exit u \<and> stop_received ev u)"

lemma resolve_asked:
  "resolve_fd_streams es w = (Ok (), w') \<Longrightarrow> (d_exit w \<longrightarrow> d_exit w') \<and>
    (\<not> d_exit w \<and> d_exit w' \<longrightarrow> (\<exists>ev u. gets_to es w ev u \<and> \<not> d_exit u \<and> stop_received ev u))"
proof (induction es arbitrary: w)
  case (Cons e es)
  then obtain go v where v: "resolve_event e w = (Ok go, v)" "(if go then resolve_fd_streams es else ret ()) v = (Ok (), w')"
    by (auto simp: check_Ok_iff)
  have here: "d_exit w \<longrightarrow> d_exit v" "\<not> d_exit w \<and> d_exit v \<longrightarrow> stop_received e w"
    using exit_resolve[OF v(1), of True] exit_resolve[OF v(1), of False] by (auto simp: asked_def)
  show ?case
  proof (cases go)
    case True
    then have rest: "resolve_fd_streams es v = (Ok (), w')" using v(2) by simp
    have first: "gets_to (e # es) w e w" by simp
    have later: "gets_to es v ev u \<Longrightarrow> gets_to (e # es) w ev u" for ev u using v(1) True by auto
    from Cons.IH[OF rest] here first later show ?thesis by (cases "d_exit v") blast+
  next
    case False
    then have "w' = v" using v(2) by (simp add: ret_def)
    moreover have "gets_to (e # es) w e w" by simp
    ultimately show ?thesis using here by blast
  qed
qed (simp add: ret_def)

lemma round_asked:
  assumes "d_round (Some es) w = (Ok (), w')"
  shows "(d_exit w \<longrightarrow> d_exit w') \<and> (\<not> d_exit w \<and> d_exit w' \<longrightarrow> stop_served es w)"
proof -
  obtain v where v: "dispatch_epoll es w = (Ok (), v)" "resolve_fd_streams es v = (Ok (), w')"
    using assms by (auto simp: d_round_def check_Ok_iff)
  have "d_exit v = d_exit w" using maintainsD[OF exit_dispatch v(1), of "d_exit w"] by (simp add: asked_def)
  then show ?thesis using resolve_asked[OF v(2)] v(1) unfolding stop_served_def by blast
qed

lemma can_exit_iff: "can_exit w \<Longrightarrow> d_exit w \<and> relays w = []"
  by (auto simp: can_exit_def elems_def word_gt_0 split: if_splits option.split)

text \<open>C16: When the loop of a daemon ends without an error, a stop has been requested and no relay is
  connected any more.  A request is never withdrawn, and it has one of two origins: in some round of the
  loop, begun in a running state without a request, a relay's STOP or, on a client, the server's STOP had been
  received completely and reached its handler.  Nothing else a round does sets the flag: no other message, no
  device event, no connection that comes or goes.  All states between rounds are those of a running daemon.\<close>

theorem loop_ends_when_asked:
  assumes "running w" "d_loop rounds w = (Ok ended, w')"
  shows "running w' \<and> (ended \<longrightarrow> d_exit w' \<and> relays w' = []) \<and> (d_exit w \<longrightarrow> d_exit w') \<and>
    (\<not> d_exit w \<and> d_exit w' \<longrightarrow> (\<exists>es v. Some es \<in> set rounds \<and> running v \<and> \<not> d_exit v \<and> stop_served es v))"
  using assms
proof (induction rounds arbitrary: w)
  case Nil
  then have "w' = w" "ended = can_exit w" by (auto simp: check_def gets_def ret_def)
  then show ?case using Nil.prems(1) can_exit_iff[of w] by simp
next
  case (Cons evs rounds)
  show ?case
  proof (cases "can_exit w")
    case True
    then have "w' = w" "ended" using Cons.prems(2) by (simp_all add: check_def gets_def ret_def)
    then show ?thesis using Cons.prems(1) can_exit_iff[of w] True by simp
  next
    case False
    then obtain w1 where w1: "d_round evs w = (Ok (), w1)" "d_loop rounds w1 = (Ok ended, w')"
      using Cons.prems(2) by (auto simp: check_Ok_iff gets_def)
    then obtain es where es: "evs = Some es" by (cases evs) (auto simp: d_round_def fail_def)
    with w1(1) False have "daemon_step w w1" by (auto intro: daemon_step.round)
    from Cons.IH[OF running.step[OF Cons.prems(1) this] w1(2)] round_asked[OF w1(1)[unfolded es]] Cons.prems(1) es
    show ?thesis by (cases "d_exit w1") auto
  qed
qed

subsection \<open>A client that is told to stop\<close>

text \<open>The server's STOP has arrived at the client's socket, descriptor 4; no relay is connected.\<close>

definition client_arg :: daemon_arg where
  "client_arg = \<lparr>da_port = 8000, da_host = Some ''host'', da_devices = no_paths, da_type = DAEMON_CLIENT\<rparr>"

definition stop_input :: "int \<Rightarrow> byte list" where
  "stop_input fd = (if fd = 4 then wire (peer_code PEER_HEADER_STOP) [] else [])"

lemmas round_simps = d_round_def dispatch_epoll_def dispatch_event_def deref_def op_simps

lemma enc_header_some [simp]: "enc_header h \<noteq> []"
  using length_enc_header[of h] by force

lemma stop_code: "peer_of_code 5 = Some PEER_HEADER_STOP"
  using peer_of_code[of PEER_HEADER_STOP] by simp

lemma client_stops:
  "\<exists>w w'. d_setup client_arg True True (Some 4) (Some 5) idle_kernel blank_ctx = (Ok (), w) \<and> \<not> d_exit w \<and>
    d_round (Some [(16, idle_kernel, Io 16)]) (w\<lparr>k_in := stop_input\<rparr>) = (Ok (), w') \<and> can_exit w'"
  apply (simp add: d_setup_def client_arg_def blank_ctx_def e_init_epoll_ctx_def setup_arrays)
  apply (simp add: p_init_peer_ctx_def setup_stream)
  apply (simp add: setup_register zero_item_def msg_buffer_def)
  apply (simp add: r_init_relay_ctx_def setup_arrays)
  apply (simp add: setup_stream)
  apply (simp add: setup_register)
  apply (simp add: dev_init_device_ctx_def sizeof_device_def setup_arrays)
  apply (simp add: dev_init_devices_arg_def no_paths_def dev_ctrl_devices_def for_devices_def op_simps)
  apply (simp add: round_simps)
  apply (simp add: stream_stream_def load_next_def next_item_def zero_item_def deref_def calc_stream_info_def op_simps)
  apply (simp add: sys_read_def sizeof_header_def stop_input_def store_bytes_def op_simps)
  apply (simp add: load_next_def next_item_def store_next_def put_next_def on_stream_def put_stream_def sizeof_header_def overwrite_def op_simps deref_def)
  apply (simp add: after_io_def load_next_def next_item_def store_next_def put_next_def on_stream_def put_stream_def op_simps deref_def Let_def finish_part_def msg_header_def)
  apply (simp add: resolve_event_def deref_def load_next_def next_item_def op_simps)
  apply (simp add: stream_collect_def deref_def on_stream_def put_stream_def op_simps Let_def)
  apply (simp add: p_handler_def msg_header_def stop_code peer_handler_stop_def r_broadcast_relay_header_def op_simps)
  apply (simp add: e_epoll_reset_stream_def stream_clear_fallback_def stream_set_default_def deref_def on_stream_def put_stream_def op_simps Let_def msg_buffer_def)
  apply (simp add: e_epoll_sync_stream_def load_next_def next_item_def deref_def epoll_ctl_mod_def op_simps)
  apply (simp add: can_exit_def)
  done

theorem loop_ends_when_asked_witness:
  "\<exists>w w' v. running w \<and> \<not> d_exit w \<and> d_loop [Some [(16, idle_kernel, Io 16)]] w = (Ok True, w') \<and>
    d_exit w' \<and> relays w' = [] \<and> running v \<and> stop_served [(16, idle_kernel, Io 16)] v"
proof -
  obtain w0 w' where w: "d_setup client_arg True True (Some 4) (Some 5) idle_kernel blank_ctx = (Ok (), w0)" "\<not> d_exit w0"
    "d_round (Some [(16, idle_kernel, Io 16)]) (w0\<lparr>k_in := stop_input\<rparr>) = (Ok (), w')" "can_exit w'"
    using client_stops by blast
  let ?w = "w0\<lparr>k_in := stop_input\<rparr>"
  have "blank blank_ctx" by (simp add: blank_def blank_ctx_def)
  then have r: "running ?w" using w(1) by (blast intro: running.intros daemon_step.arrive)
  have l: "d_loop [Some [(16, idle_kernel, Io 16)]] ?w = (Ok True, w')"
    using w by (simp add: check_def gets_def ret_def can_exit_def[of ?w])
  from loop_ends_when_asked[OF r l] obtain v where "d_exit w'" "relays w' = []" "running v" "stop_served [(16, idle_kernel, Io 16)] v"
    using w(2) by auto
  with r l w(2) show ?thesis by (intro exI[of _ ?w] exI[of _ w'] exI[of _ v]) simp
qed

end
