(* ===== verification/Rcn_Help.thy ===== *)
theory Rcn_Help
  imports Rcn_Prelude "HOL-Library.Sublist"
begin

section \<open>Texts (rcn_arg.h, print_help in rcn_arg.c, ERR_LOG in rcn.h)\<close>

text \<open>
  The words of the command line, the help texts and the error messages.  A string of the program is a
  \<open>string\<close>; a format is the concatenation of its parts.  \<open>ARG_HELP_RCN_DESC\<close> and the \<open>ARG_FILTER\<close> names are
  not used by the code and left out.
\<close>

subsection \<open>Formatting\<close>

abbreviation nl :: string where "nl \<equiv> [CHR 0x0A]"
abbreviation tab :: string where "tab \<equiv> [CHR 0x09]"
abbreviation quoted :: "string \<Rightarrow> string" where "quoted s \<equiv> [CHR 0x27] @ s @ [CHR 0x27]"

text \<open>\<open>%d\<close>\<close>

fun decimal :: "nat \<Rightarrow> string" where
  "decimal n = (if n < 10 then [char_of (48 + n)] else decimal (n div 10) @ [char_of (48 + n mod 10)])"

declare decimal.simps [simp del]

definition print_int :: "int \<Rightarrow> string" where
  "print_int i = (if i < 0 then ''-'' @ decimal (nat (- i)) else decimal (nat i))"

subsection \<open>Actions, subactions and flags\<close>

definition ARG_ACTION_START :: string where "ARG_ACTION_START = ''start''"
definition ARG_ACTION_CONNECT :: string where "ARG_ACTION_CONNECT = ''connect''"
definition ARG_ACTION_SERVER :: string where "ARG_ACTION_SERVER = ''server''"
definition ARG_ACTION_CLIENT :: string where "ARG_ACTION_CLIENT = ''client''"
definition ARG_ACTION_SHOW :: string where "ARG_ACTION_SHOW = ''show''"
definition ARG_SUBACTION_PAUSE :: string where "ARG_SUBACTION_PAUSE = ''pause''"
definition ARG_SUBACTION_RESUME :: string where "ARG_SUBACTION_RESUME = ''resume''"
definition ARG_SUBACTION_STOP :: string where "ARG_SUBACTION_STOP = ''stop''"
definition ARG_SUBACTION_SWITCH :: string where "ARG_SUBACTION_SWITCH = ''switch''"
definition ARG_SUBACTION_LOG :: string where "ARG_SUBACTION_LOG = ''log''"
definition ARG_SUBACTION_LIST :: string where "ARG_SUBACTION_LIST = ''list''"
definition ARG_SUBACTION_LS :: string where "ARG_SUBACTION_LS = ''ls''"
definition ARG_FLAG_PORT :: string where "ARG_FLAG_PORT = ''-p''"
definition ARG_FLAG_LONG_PORT :: string where "ARG_FLAG_LONG_PORT = ''--port''"
definition ARG_FLAG_HOST :: string where "ARG_FLAG_HOST = ''-s''"
definition ARG_FLAG_LONG_HOST :: string where "ARG_FLAG_LONG_HOST = ''--server''"
definition ARG_FLAG_DEVICES :: string where "ARG_FLAG_DEVICES = ''-d''"
definition ARG_FLAG_LONG_DEVICES :: string where "ARG_FLAG_LONG_DEVICES = ''--devices''"
definition ARG_FLAG_HELP :: string where "ARG_FLAG_HELP = ''-h''"
definition ARG_FLAG_LONG_HELP :: string where "ARG_FLAG_LONG_HELP = ''--help''"
definition ARG_FLAG_DEBUG :: string where "ARG_FLAG_DEBUG = ''-g''"
definition ARG_FLAG_LONG_DEBUG :: string where "ARG_FLAG_LONG_DEBUG = ''--debug''"
definition ARG_FLAG_FILTER :: string where "ARG_FLAG_FILTER = ''-f''"
definition ARG_FLAG_LONG_FILTER :: string where "ARG_FLAG_LONG_FILTER = ''--filter''"

lemmas arg_words [simp] =
  ARG_ACTION_START_def ARG_ACTION_CONNECT_def ARG_ACTION_SERVER_def ARG_ACTION_CLIENT_def
  ARG_ACTION_SHOW_def ARG_SUBACTION_PAUSE_def ARG_SUBACTION_RESUME_def ARG_SUBACTION_STOP_def
  ARG_SUBACTION_SWITCH_def ARG_SUBACTION_LOG_def ARG_SUBACTION_LIST_def ARG_SUBACTION_LS_def
  ARG_FLAG_PORT_def ARG_FLAG_LONG_PORT_def ARG_FLAG_HOST_def ARG_FLAG_LONG_HOST_def
  ARG_FLAG_DEVICES_def ARG_FLAG_LONG_DEVICES_def ARG_FLAG_HELP_def ARG_FLAG_LONG_HELP_def
  ARG_FLAG_DEBUG_def ARG_FLAG_LONG_DEBUG_def ARG_FLAG_FILTER_def ARG_FLAG_LONG_FILTER_def

subsection \<open>Descriptions\<close>

definition ARG_DESC_ACTION_START :: string where "ARG_DESC_ACTION_START = ''Start the server, on the given port, in the background''"
definition ARG_DESC_ACTION_CONNECT :: string where "ARG_DESC_ACTION_CONNECT = ''Connect to the given server and capture the list of devices''"
definition ARG_DESC_ACTION_SERVER :: string where "ARG_DESC_ACTION_SERVER = ''Interact with the server daemon via subactions''"
definition ARG_DESC_ACTION_CLIENT :: string where "ARG_DESC_ACTION_CLIENT = ''Interact with the client daemon via subactions''"
definition ARG_DESC_ACTION_SHOW :: string where "ARG_DESC_ACTION_SHOW = ''Show all available devices for capture''"
definition ARG_DESC_SUBACTION_PAUSE :: string where "ARG_DESC_SUBACTION_PAUSE = ''Pause the capturing of the devices''"
definition ARG_DESC_SUBACTION_RESUME :: string where "ARG_DESC_SUBACTION_RESUME = ''Resume the capturing of the devices''"
definition ARG_DESC_SUBACTION_STOP :: string where "ARG_DESC_SUBACTION_STOP = ''Stop the program''"
definition ARG_DESC_SUBACTION_SWITCH :: string where "ARG_DESC_SUBACTION_SWITCH = ''Switch betwen paused/running state''"
definition ARG_DESC_SUBACTION_LOG :: string where "ARG_DESC_SUBACTION_LOG = ''Print the logs to stdout''"
definition ARG_DESC_SUBACTION_LIST :: string where "ARG_DESC_SUBACTION_LIST = ''List captured devices''"
definition ARG_DESC_FLAG_PORT :: string where "ARG_DESC_FLAG_PORT = ''Port on which to listen on/connect to''"
definition ARG_DESC_FLAG_HOST :: string where "ARG_DESC_FLAG_HOST = ''Hostname/ip-address of the server''"
definition ARG_DESC_FLAG_DEVICES :: string where
  "ARG_DESC_FLAG_DEVICES = ''List devices (event files) to capture, e.g. -d <evt1> <evt2> ...''"
definition ARG_DESC_FLAG_HELP :: string where
  "ARG_DESC_FLAG_HELP = ''Print the help for rcn, also a list of actions and subactions can be supplied for more detailed infos''"
definition ARG_DESC_FLAG_DEBUG :: string where
  "ARG_DESC_FLAG_DEBUG = ''Print extra debug information in the log, should be the first argument''"
definition ARG_DESC_FLAG_FILTER :: string where "ARG_DESC_FLAG_FILTER = ''Filter devices by event type''"

subsection \<open>Help on one topic\<close>

definition ARG_HELP_ACTION_START :: string where
  "ARG_HELP_ACTION_START = ''Usage: rcn start -p <port>'' @ nl @ tab @
     ''Starts the server in the background, listening on the given port (-p/--port).'' @ nl @ tab @
     ''Then, the client can run 'rcn connect ...' and transmit their captures devices.'' @ nl @ tab @
     ''Every device specified in the 'rcn connect' command is recreated on the server and inputs are replayed.''"
definition ARG_HELP_ACTION_CONNECT :: string where
  "ARG_HELP_ACTION_CONNECT = ''Usage: rcn connect -p <port> -s <server addr.> -d </path/to/dev> ...'' @ nl @ tab @
     ''Connect to an already started rcn server on the given port (-p/--port).'' @ nl @ tab @
     ''The server is specified with the '-s'/'--server' flag, which can either be an IPv4 address or the hostname.'' @ nl @ tab @
     ''Every listed device/event-file is captured and copied to the server.'' @ nl @ tab @
     ''When the client is actively running, input events are sent to the server.''"
definition ARG_HELP_ACTION_SERVER :: string where "ARG_HELP_ACTION_SERVER = ''Interact with the server background process via subactions.''"
definition ARG_HELP_ACTION_CLIENT :: string where "ARG_HELP_ACTION_CLIENT = ''Interact with the client background process via subactions.''"
definition ARG_HELP_ACTION_SHOW :: string where
  "ARG_HELP_ACTION_SHOW = ''List every device's full name, path and event type.'' @ nl @ tab @
     ''The -f/--filter flag filters the devices by their event type.'' @ nl @ tab @
     ''A device can have multiple types.'' @ nl @ tab @
     ''The device driver/firmware can report more event types than the device actually has.'' @ nl @ tab @
     ''Possible filters are:'' @ nl @ tab @ tab @
     ''key/KEY (keyboards), rel/REL (mice), abs/ABS (touchpads), swt/SWT (binary switches)''"
definition ARG_HELP_SUBACTION_PAUSE :: string where
  "ARG_HELP_SUBACTION_PAUSE = ''The client ungrabs the devices and no input data is sent to the server.''"
definition ARG_HELP_SUBACTION_RESUME :: string where
  "ARG_HELP_SUBACTION_RESUME = ''The client regrabs the devices and input data is sent to the server.''"
definition ARG_HELP_SUBACTION_STOP :: string where
  "ARG_HELP_SUBACTION_STOP = ''If 'action' is set to 'client', the client disconnects and the server deletes the copied devices.'' @ nl @ tab @
     ''The server keeps running and new clients can connect.'' @ nl @ tab @
     ''If 'action' is set to 'server', the server closes the connection, deletes the copied devices and the background process is stopped.'' @ nl @ tab @
     ''No clients can connect anymore (unless started again).''"
definition ARG_HELP_SUBACTION_SWITCH :: string where
  "ARG_HELP_SUBACTION_SWITCH = ''Acts as a 'toggle'. If the daemon is paused, it's like calling 'resume' and if the daemon is running, it's like calling 'pause'.''"
definition ARG_HELP_SUBACTION_LOG :: string where
  "ARG_HELP_SUBACTION_LOG = ''Print the logs of the daemon to stdout, includes errors and normal info.'' @ nl @ tab @
     ''If --debug is set, more info is available.''"
definition ARG_HELP_SUBACTION_LIST :: string where
  "ARG_HELP_SUBACTION_LIST = ''List the captured devices and if they are grabbed or not. 'list' and 'ls' are the equivalent.''"

definition help_data :: "(string \<times> string) list" where
  "help_data = [(ARG_ACTION_START, ARG_HELP_ACTION_START), (ARG_ACTION_CONNECT, ARG_HELP_ACTION_CONNECT),
     (ARG_ACTION_SERVER, ARG_HELP_ACTION_SERVER), (ARG_ACTION_CLIENT, ARG_HELP_ACTION_CLIENT),
     (ARG_ACTION_SHOW, ARG_HELP_ACTION_SHOW), (ARG_SUBACTION_PAUSE, ARG_HELP_SUBACTION_PAUSE),
     (ARG_SUBACTION_RESUME, ARG_HELP_SUBACTION_RESUME), (ARG_SUBACTION_STOP, ARG_HELP_SUBACTION_STOP),
     (ARG_SUBACTION_SWITCH, ARG_HELP_SUBACTION_SWITCH), (ARG_SUBACTION_LOG, ARG_HELP_SUBACTION_LOG),
     (ARG_SUBACTION_LIST, ARG_HELP_SUBACTION_LIST), (ARG_SUBACTION_LS, ARG_HELP_SUBACTION_LIST)]"

text \<open>What \<open>arg_help\<close> prints for a topic.\<close>

definition topic_help :: "string \<Rightarrow> string \<Rightarrow> string" where
  "topic_help action help = action @ '':'' @ nl @ tab @ help @ nl"

subsection \<open>The overview\<close>

text \<open>One element for each call of \<open>printf\<close>.\<close>

definition print_help :: "string list" where
  "print_help = [''Usage: rcn <action> <flag> <value> ...'' @ nl @ nl,
     ''Actions:'',
     nl @ tab @ ARG_ACTION_START @ tab @ tab @ ARG_DESC_ACTION_START,
     nl @ tab @ ARG_ACTION_CONNECT @ tab @ tab @ ARG_DESC_ACTION_CONNECT,
     nl @ tab @ ARG_ACTION_SERVER @ tab @ tab @ ARG_DESC_ACTION_SERVER,
     nl @ tab @ ARG_ACTION_CLIENT @ tab @ tab @ ARG_DESC_ACTION_CLIENT,
     nl @ tab @ ARG_ACTION_SHOW @ tab @ tab @ ARG_DESC_ACTION_SHOW,
     nl @ nl,
     ''Subactions:'',
     nl @ tab @ ARG_SUBACTION_PAUSE @ tab @ tab @ ARG_DESC_SUBACTION_PAUSE,
     nl @ tab @ ARG_SUBACTION_RESUME @ tab @ tab @ ARG_DESC_SUBACTION_RESUME,
     nl @ tab @ ARG_SUBACTION_STOP @ tab @ tab @ ARG_DESC_SUBACTION_STOP,
     nl @ tab @ ARG_SUBACTION_SWITCH @ tab @ tab @ ARG_DESC_SUBACTION_SWITCH,
     nl @ tab @ ARG_SUBACTION_LOG @ tab @ tab @ ARG_DESC_SUBACTION_LOG,
     nl @ tab @ ARG_SUBACTION_LIST @ tab @ tab @ ARG_DESC_SUBACTION_LIST,
     nl @ nl,
     ''Flags:'' @ nl,
     tab @ ARG_FLAG_PORT @ ''/'' @ ARG_FLAG_LONG_PORT @ tab @ ARG_DESC_FLAG_PORT @ nl,
     tab @ tab @ tab @ ''Available for actions:'' @ nl,
     tab @ tab @ tab @ tab @ ARG_ACTION_START @ '', '' @ ARG_ACTION_CONNECT,
     nl @ tab @ ARG_FLAG_HOST @ ''/'' @ ARG_FLAG_LONG_HOST @ tab @ ARG_DESC_FLAG_HOST @ nl,
     tab @ tab @ tab @ ''Available for action:'' @ nl,
     tab @ tab @ tab @ tab @ ARG_ACTION_CONNECT,
     nl @ tab @ ARG_FLAG_DEVICES @ ''/'' @ ARG_FLAG_LONG_DEVICES @ tab @ ARG_DESC_FLAG_DEVICES @ nl,
     tab @ tab @ tab @ ''Available for action:'' @ nl,
     tab @ tab @ tab @ tab @ ARG_ACTION_CONNECT,
     nl @ tab @ ARG_FLAG_FILTER @ ''/'' @ ARG_FLAG_LONG_FILTER @ tab @ ARG_DESC_FLAG_FILTER @ nl,
     tab @ tab @ tab @ ''Available for action:'' @ nl,
     tab @ tab @ tab @ tab @ ARG_ACTION_SHOW,
     nl @ tab @ ARG_FLAG_HELP @ ''/'' @ ARG_FLAG_LONG_HELP @ tab @ ARG_DESC_FLAG_HELP @ nl,
     tab @ tab @ tab @ ''Possible values are:'' @ nl,
     tab @ tab @ tab @ tab @ ''<(sub)action>'',
     nl @ tab @ ARG_FLAG_DEBUG @ ''/'' @ ARG_FLAG_LONG_DEBUG @ tab @ ARG_DESC_FLAG_DEBUG @ nl,
     tab @ tab @ tab @ ''Availability:'' @ nl,
     tab @ tab @ tab @ tab @ ''Always'',
     nl]"

subsection \<open>Error messages\<close>

text \<open>The text of the macros that print a message and jump to \<open>err\<close>; the jump is in the handlers.\<close>

definition EARG_COUNT :: "string \<Rightarrow> nat \<Rightarrow> nat \<Rightarrow> string" where
  "EARG_COUNT action count_min count_got = ''err: not enough arguments for action '' @ quoted action @
     '', expected (at least) '' @ decimal count_min @ '' but got '' @ decimal count_got @ nl"

definition EARG_INVALID :: "string \<Rightarrow> string \<Rightarrow> string" where
  "EARG_INVALID val ty = ''err: invalid value '' @ quoted val @ '' for '' @ quoted ty @ nl"

definition EARG_OVERFLOW :: "string \<Rightarrow> nat \<Rightarrow> string" where
  "EARG_OVERFLOW ty max_n = ''err: to many values for flag '' @ [CHR 0x27] @ ty @ '' (max: '' @ decimal max_n @ '')'' @ [CHR 0x27] @ nl"

definition EARG_UNKNOWN :: "string \<Rightarrow> string \<Rightarrow> string" where
  "EARG_UNKNOWN ty val = ''err: unknown '' @ ty @ '' '' @ quoted val @ nl"

definition EARG_MISSING_VALUE :: "string \<Rightarrow> string" where
  "EARG_MISSING_VALUE flag = ''err: missing value for flag '' @ quoted flag @ nl"

definition EARG_MISSING :: string where
  "EARG_MISSING = ''err: missing flag/value'' @ nl"

definition EARG_WRONG_FLAG :: "string \<Rightarrow> string" where
  "EARG_WRONG_FLAG flag = ''err: invalid flag '' @ quoted flag @ nl"

definition EARG_WRONG_SUBACTION :: "string \<Rightarrow> string" where
  "EARG_WRONG_SUBACTION flag = ''err: invalid subaction '' @ quoted flag @ nl"

definition EARG_FLAG_AGAIN :: "string \<Rightarrow> string" where
  "EARG_FLAG_AGAIN flag = ''err: flag '' @ quoted flag @ '' already used'' @ nl"

definition EARG_SUBACTION_AGAIN :: "string \<Rightarrow> string" where
  "EARG_SUBACTION_AGAIN flag = ''err: subaction '' @ quoted flag @ '' already used'' @ nl"

text \<open>\<open>ERR_LOG\<close> in line \<open>line\<close> of \<open>func\<close>; \<open>err\<close> is \<open>strerror(errno)\<close>, empty when \<open>errno\<close> is 0.\<close>

definition ERR_LOG :: "string \<Rightarrow> nat \<Rightarrow> string \<Rightarrow> string \<Rightarrow> string" where
  "ERR_LOG func line msg err = ''err: '' @ func @ '':'' @ decimal line @ (if msg \<noteq> [] then '' '' @ msg else []) @
     (if err \<noteq> [] then '' ['' @ err @ '']'' else []) @ nl"

subsection \<open>What an error message is\<close>

definition complaint :: "string \<Rightarrow> bool" where
  "complaint m \<longleftrightarrow> sublist ''err: '' m"

lemma complaint_append [simp, intro]: "complaint m \<Longrightarrow> complaint (m @ m')" "complaint m' \<Longrightarrow> complaint (m @ m')"
  by (auto simp: complaint_def intro: sublist_order.order_trans)

lemma complaint_prefix: "complaint (''err: '' @ m)"
  by (simp add: complaint_def)

lemma complaint_texts [simp, intro]:
  "complaint (EARG_COUNT a n m)" "complaint (EARG_INVALID v t)" "complaint (EARG_OVERFLOW t k)" "complaint (EARG_UNKNOWN t v)"
  "complaint (EARG_MISSING_VALUE f)" "complaint EARG_MISSING" "complaint (EARG_WRONG_FLAG f)" "complaint (EARG_WRONG_SUBACTION f)"
  "complaint (EARG_FLAG_AGAIN f)" "complaint (EARG_SUBACTION_AGAIN f)" "complaint (ERR_LOG fn l s e)"
  unfolding EARG_COUNT_def EARG_INVALID_def EARG_OVERFLOW_def EARG_UNKNOWN_def EARG_MISSING_VALUE_def EARG_MISSING_def
    EARG_WRONG_FLAG_def EARG_WRONG_SUBACTION_def EARG_FLAG_AGAIN_def EARG_SUBACTION_AGAIN_def ERR_LOG_def complaint_def
  by (simp_all only: append_assoc[symmetric]) (simp_all add: sublist_appendI)

text \<open>The overview names every word the parser knows.\<close>

lemma piece_in_overview: "p \<in> set print_help \<Longrightarrow> sublist x p \<Longrightarrow> sublist x (concat print_help)"
  by (metis concat.simps(2) concat_append in_set_conv_decomp sublist_appendI sublist_order.order_trans)

end
