(* ===== verification/Rcn_Arg.thy ===== *)
theory Rcn_Arg
  imports Rcn_Daemon Rcn_Help
begin

section \<open>The command line (rcn_arg.c)\<close>

text \<open>
  The arguments after the action are handled one at a time: the table \<open>handlers\<close> maps each flag and
  subaction to the function that consumes it and its values and moves the index on.  \<open>argv\<close> is a list
  of strings, \<open>argc\<close> its length; the index \<open>*i\<close> is passed in and returned.  The static context
  \<open>arg_ctx\<close> is the state.  \<open>stdout\<close> is what has been printed, \<open>complaints\<close> the error messages in the order
  in which they went to \<open>stderr\<close>; of the log lines only the two that are messages to the user are part of it
  (\<open>errno\<close> is 0 there, \<open>CHECK\<close> has reset it), those of \<open>DEBUG_LOG\<close> and of other files are left out.
\<close>

subsection \<open>Library functions\<close>

text \<open>\<open>atoi\<close> of the C library: undefined (\<open>None\<close>) when the value does not fit an \<open>int\<close>.\<close>

definition is_space :: "char \<Rightarrow> bool" where
  "is_space c \<longleftrightarrow> c = CHR '' '' \<or> (9 \<le> (of_char c :: nat) \<and> (of_char c :: nat) \<le> 13)"

definition is_digit :: "char \<Rightarrow> bool" where
  "is_digit c \<longleftrightarrow> 48 \<le> (of_char c :: nat) \<and> (of_char c :: nat) \<le> 57"

definition digits_value :: "string \<Rightarrow> int" where
  "digits_value ds = foldl (\<lambda>n c. 10 * n + (of_char c - 48)) 0 ds"

definition atoi :: "string \<Rightarrow> int option" where
  "atoi s =
     (let t = dropWhile is_space s;
          neg = (take 1 t = ''-'');
          u = (if take 1 t = ''-'' \<or> take 1 t = ''+'' then drop 1 t else t);
          v = digits_value (takeWhile is_digit u);
          r = (if neg then - v else v)
      in if - (2 ^ 31) \<le> r \<and> r < 2 ^ 31 then Some r else None)"

text \<open>\<open>strcasecmp(s, t) == 0\<close>\<close>

definition lower :: "char \<Rightarrow> char" where
  "lower c = (if 65 \<le> (of_char c :: nat) \<and> (of_char c :: nat) \<le> 90 then char_of ((of_char c :: nat) + 32) else c)"

definition same_word :: "string \<Rightarrow> string \<Rightarrow> bool" where
  "same_word s t \<longleftrightarrow> map lower s = map lower t"

subsection \<open>The context\<close>

datatype subaction_type = SUBACTION_PAUSE | SUBACTION_RESUME | SUBACTION_STOP | SUBACTION_SWITCH
  | SUBACTION_LOG | SUBACTION_LIST | SUBACTION_LS | SUBACTION_COUNT

record arg_info =
  a_optional :: bool
  a_needed :: bool
  a_provided :: bool

text \<open>\<open>union arg_data\<close> holds one kind of value for each argument.\<close>

record 'v arg =
  a_val :: 'v
  a_info :: arg_info

record arg_context =
  ctx_port :: "int arg"
  ctx_server :: "string option arg"
  ctx_devices :: "string u_array arg"
  ctx_help :: "unit arg"
  ctx_daemon :: "subaction_type arg"
  ctx_filter :: "u32 arg"
  g_debug_level :: int
  ctx_av :: allocator
  stdout :: string
  complaints :: string

definition no_info :: arg_info where
  "no_info = \<lparr>a_optional = False, a_needed = False, a_provided = False\<rparr>"

text \<open>\<open>static struct arg_context arg_ctx = {}\<close>\<close>

definition zero_ctx :: "allocator \<Rightarrow> arg_context" where
  "zero_ctx av = \<lparr>ctx_port = \<lparr>a_val = 0, a_info = no_info\<rparr>, ctx_server = \<lparr>a_val = None, a_info = no_info\<rparr>,
     ctx_devices = \<lparr>a_val = \<lparr>arr_data = None, arr_size = 0, arr_capacity = 0, arr_length = 0\<rparr>, a_info = no_info\<rparr>,
     ctx_help = \<lparr>a_val = (), a_info = no_info\<rparr>, ctx_daemon = \<lparr>a_val = SUBACTION_PAUSE, a_info = no_info\<rparr>,
     ctx_filter = \<lparr>a_val = 0, a_info = no_info\<rparr>, g_debug_level = 0, ctx_av = av, stdout = [], complaints = []\<rparr>"

definition set_val :: "'v \<Rightarrow> 'v arg \<Rightarrow> 'v arg" where
  "set_val v a = a\<lparr>a_val := v\<rparr>"

definition set_provided :: "'v arg \<Rightarrow> 'v arg" where
  "set_provided a = a\<lparr>a_info := (a_info a)\<lparr>a_provided := True\<rparr>\<rparr>"

definition set_needed :: "'v arg \<Rightarrow> 'v arg" where
  "set_needed a = a\<lparr>a_info := (a_info a)\<lparr>a_needed := True\<rparr>\<rparr>"

definition set_optional :: "'v arg \<Rightarrow> 'v arg" where
  "set_optional a = a\<lparr>a_info := (a_info a)\<lparr>a_optional := True\<rparr>\<rparr>"

abbreviation needed :: "'v arg \<Rightarrow> bool" where "needed a \<equiv> a_needed (a_info a)"
abbreviation provided :: "'v arg \<Rightarrow> bool" where "provided a \<equiv> a_provided (a_info a)"
abbreviation optional :: "'v arg \<Rightarrow> bool" where "optional a \<equiv> a_optional (a_info a)"

text \<open>An error message, and the way out.\<close>

definition add_complaint :: "string \<Rightarrow> arg_context \<Rightarrow> arg_context" where
  "add_complaint msg c = c\<lparr>complaints := complaints c @ msg\<rparr>"

definition complain :: "string \<Rightarrow> ('a, arg_context) op" where
  "complain msg c = (Fail, add_complaint msg c)"

definition refuse :: "bool \<Rightarrow> string \<Rightarrow> ('a, arg_context) op \<Rightarrow> ('a, arg_context) op" where
  "refuse b msg k = (if b then complain msg else k)"

lemmas [op_simps] = add_complaint_def complain_def refuse_def

subsection \<open>The tables\<close>

definition subactions :: "(string \<times> subaction_type) list" where
  "subactions = [(ARG_SUBACTION_PAUSE, SUBACTION_PAUSE), (ARG_SUBACTION_RESUME, SUBACTION_RESUME),
     (ARG_SUBACTION_STOP, SUBACTION_STOP), (ARG_SUBACTION_SWITCH, SUBACTION_SWITCH), (ARG_SUBACTION_LOG, SUBACTION_LOG),
     (ARG_SUBACTION_LIST, SUBACTION_LIST), (ARG_SUBACTION_LS, SUBACTION_LS)]"

text \<open>The columns \<open>flag\<close> and \<open>flag_long\<close> of \<open>handlers\<close>.\<close>

definition handler_flags :: "(string \<times> string) list" where
  "handler_flags = [(ARG_FLAG_PORT, ARG_FLAG_LONG_PORT), (ARG_FLAG_HOST, ARG_FLAG_LONG_HOST),
     (ARG_FLAG_DEVICES, ARG_FLAG_LONG_DEVICES), (ARG_FLAG_FILTER, ARG_FLAG_LONG_FILTER),
     (ARG_FLAG_HELP, ARG_FLAG_LONG_HELP), (ARG_FLAG_DEBUG, ARG_FLAG_LONG_DEBUG),
     (ARG_SUBACTION_PAUSE, ARG_SUBACTION_PAUSE), (ARG_SUBACTION_RESUME, ARG_SUBACTION_RESUME),
     (ARG_SUBACTION_STOP, ARG_SUBACTION_STOP), (ARG_SUBACTION_SWITCH, ARG_SUBACTION_SWITCH),
     (ARG_SUBACTION_LOG, ARG_SUBACTION_LOG), (ARG_SUBACTION_LS, ARG_SUBACTION_LIST)]"

definition matches :: "string \<Rightarrow> string \<times> string \<Rightarrow> bool" where
  "matches a f \<longleftrightarrow> fst f = a \<or> snd f = a"

definition is_flag :: "string \<Rightarrow> bool" where
  "is_flag a \<longleftrightarrow> list_ex (matches a) handler_flags"

subsection \<open>The handlers\<close>

type_synonym arg_handler = "string list \<Rightarrow> nat \<Rightarrow> (nat, arg_context) op"

definition arg_port :: arg_handler where
  "arg_port argv i =
     refuse (i + 1 \<ge> length argv) (EARG_MISSING_VALUE ARG_FLAG_PORT)
     (check (gets ctx_port) (\<lambda>a.
      refuse (\<not> needed a) (EARG_WRONG_FLAG ARG_FLAG_PORT) (refuse (provided a) (EARG_FLAG_AGAIN ARG_FLAG_PORT)
       (case atoi (argv ! (i + 1)) of
          None \<Rightarrow> undef
        | Some port \<Rightarrow> refuse (port = 0) (EARG_INVALID (argv ! (i + 1)) ARG_FLAG_PORT)
            (check (modify (\<lambda>c. c\<lparr>ctx_port := set_provided (set_val port (ctx_port c))\<rparr>)) (\<lambda>_. ret (i + 1)))))))"

definition arg_host :: arg_handler where
  "arg_host argv i =
     refuse (i + 1 \<ge> length argv) (EARG_MISSING_VALUE ARG_FLAG_HOST)
     (check (gets ctx_server) (\<lambda>a.
      refuse (\<not> needed a) (EARG_WRONG_FLAG ARG_FLAG_HOST) (refuse (provided a) (EARG_FLAG_AGAIN ARG_FLAG_HOST)
       (check (modify (\<lambda>c. c\<lparr>ctx_server := set_provided (set_val (Some (argv ! (i + 1))) (ctx_server c))\<rparr>))
         (\<lambda>_. ret (i + 1))))))"

text \<open>The loop over the device paths; \<open>args\<close> are the arguments from index \<open>i\<close> on.\<close>

abbreviation on_dev_arr :: "('a, string u_array) op \<Rightarrow> ('a, arg_context) op" where
  "on_dev_arr \<equiv> zoom (\<lambda>c. a_val (ctx_devices c)) (\<lambda>v c. c\<lparr>ctx_devices := set_val v (ctx_devices c)\<rparr>)"

primrec collect_devices :: "string list \<Rightarrow> nat \<Rightarrow> (nat, arg_context) op" where
  "collect_devices [] i = ret i"
| "collect_devices (arg # args) i =
     (if is_flag arg then ret (i - 1)
      else check (gets ctx_av) (\<lambda>av. ignore (on_dev_arr (u_array_add av arg)) (collect_devices args (i + 1))))"

definition arg_devices :: arg_handler where
  "arg_devices argv i =
     refuse (i + 1 \<ge> length argv) (EARG_MISSING_VALUE ARG_FLAG_DEVICES)
     (check (gets ctx_devices) (\<lambda>a.
      refuse (\<not> needed a) (EARG_WRONG_FLAG ARG_FLAG_DEVICES) (refuse (provided a) (EARG_FLAG_AGAIN ARG_FLAG_DEVICES)
       (check (gets ctx_av) (\<lambda>av.
        check (on_dev_arr (u_array_init av 8 rcn_std_capacity)) (\<lambda>_.
        check (collect_devices (drop (i + 1) argv) (i + 1)) (\<lambda>j.
        check (modify (\<lambda>c. c\<lparr>ctx_devices := set_provided (ctx_devices c)\<rparr>)) (\<lambda>_. ret j))))))))"

text \<open>The bits of the filter words an argument names.\<close>

definition filter_bits :: "string \<Rightarrow> u32 list" where
  "filter_bits arg = map fst (filter (\<lambda>(v, s). same_word s arg) (zip device_evt_val_arr device_evt_str_arr))"

primrec collect_filters :: "nat \<Rightarrow> string list \<Rightarrow> nat \<Rightarrow> (nat, arg_context) op" where
  "collect_filters max_filter [] i = ret i"
| "collect_filters max_filter (arg # args) i =
     (if is_flag arg then ret (i - 1)
      else refuse (i \<ge> max_filter) (EARG_OVERFLOW ARG_FLAG_FILTER DEVICE_EVT_COUNT_INDEX) (refuse (filter_bits arg = []) (EARG_UNKNOWN ''filter'' arg)
        (check (modify (\<lambda>c. c\<lparr>ctx_filter := set_val (foldl or (a_val (ctx_filter c)) (filter_bits arg)) (ctx_filter c)\<rparr>))
          (\<lambda>_. collect_filters max_filter args (i + 1)))))"

definition arg_filter :: arg_handler where
  "arg_filter argv i =
     refuse (i + 1 \<ge> length argv) (EARG_MISSING_VALUE ARG_FLAG_FILTER)
     (check (gets ctx_filter) (\<lambda>a.
      refuse (\<not> optional a) (EARG_WRONG_FLAG ARG_FLAG_FILTER) (refuse (provided a) (EARG_FLAG_AGAIN ARG_FLAG_FILTER)
       (check (collect_filters (i + 1 + length device_evt_str_arr) (drop (i + 1) argv) (i + 1)) (\<lambda>j.
        check (modify (\<lambda>c. c\<lparr>ctx_filter := set_optional (ctx_filter c)\<rparr>)) (\<lambda>_. ret j))))))"

primrec collect_subactions :: "string list \<Rightarrow> nat \<Rightarrow> (nat, arg_context) op" where
  "collect_subactions [] i = ret i"
| "collect_subactions (arg # args) i = (case map_of subactions arg of
      None \<Rightarrow> complain (ERR_LOG ''arg_daemon'' 248 (''unkown subaction '' @ quoted arg) [])
    | Some j \<Rightarrow> check (modify (\<lambda>c. c\<lparr>ctx_daemon := set_val j (ctx_daemon c)\<rparr>)) (\<lambda>_. collect_subactions args (i + 1)))"

definition arg_daemon :: arg_handler where
  "arg_daemon argv i =
     check (gets ctx_daemon) (\<lambda>a.
     refuse (\<not> needed a) (EARG_WRONG_SUBACTION (argv ! i)) (refuse (provided a) (EARG_SUBACTION_AGAIN (argv ! i))
      (check (collect_subactions (drop i argv) i) (\<lambda>j.
       check (modify (\<lambda>c. c\<lparr>ctx_daemon := set_provided (ctx_daemon c)\<rparr>)) (\<lambda>_. ret j)))))"

definition print_text :: "string \<Rightarrow> (unit, arg_context) op" where
  "print_text txt = modify (\<lambda>c. c\<lparr>stdout := stdout c @ txt\<rparr>)"

primrec collect_topics :: "string list \<Rightarrow> nat \<Rightarrow> (nat, arg_context) op" where
  "collect_topics [] i = ret i"
| "collect_topics (action # args) i = (case map_of help_data action of
      None \<Rightarrow> complain (EARG_UNKNOWN ''action'' action)
    | Some help \<Rightarrow> check (print_text (topic_help action help)) (\<lambda>_. collect_topics args (i + 1)))"

definition arg_help :: arg_handler where
  "arg_help argv i =
     check (gets ctx_help) (\<lambda>a.
     refuse (\<not> needed a) (EARG_WRONG_FLAG ARG_FLAG_HELP) (refuse (provided a) (EARG_FLAG_AGAIN ARG_FLAG_HELP)
      (check (if length argv = 2 then check (print_text (concat print_help)) (\<lambda>_. ret i)
              else collect_topics (drop (i + 1) argv) (i + 1)) (\<lambda>j.
       check (modify (\<lambda>c. c\<lparr>ctx_help := set_provided (ctx_help c)\<rparr>)) (\<lambda>_. ret j)))))"

definition arg_debug :: arg_handler where
  "arg_debug argv i =
     refuse (i + 1 \<ge> length argv) (EARG_MISSING_VALUE ARG_FLAG_DEBUG)
     (case atoi (argv ! (i + 1)) of
        None \<Rightarrow> undef
      | Some debug \<Rightarrow> check (modify (\<lambda>c. c\<lparr>g_debug_level := debug\<rparr>)) (\<lambda>_. ret (i + 1)))"

definition handlers :: "((string \<times> string) \<times> arg_handler) list" where
  "handlers = zip handler_flags [arg_port, arg_host, arg_devices, arg_filter, arg_help, arg_debug,
     arg_daemon, arg_daemon, arg_daemon, arg_daemon, arg_daemon, arg_daemon]"

subsection \<open>Parsing\<close>

text \<open>The loop of \<open>handle_arg\<close> does not stop at the first match; \<open>arg\<close> stays what it was.\<close>

primrec run_handlers :: "((string \<times> string) \<times> arg_handler) list \<Rightarrow> string list \<Rightarrow> string \<Rightarrow> bool \<Rightarrow> nat \<Rightarrow> (bool \<times> nat, arg_context) op" where
  "run_handlers [] argv arg found i = ret (found, i)"
| "run_handlers (h # hs) argv arg found i =
     (if matches arg (fst h) then check (snd h argv i) (\<lambda>j. run_handlers hs argv arg True j)
      else run_handlers hs argv arg found i)"

definition handle_arg :: "string list \<Rightarrow> nat \<Rightarrow> (nat, arg_context) op" where
  "handle_arg argv i =
     check (run_handlers handlers argv (argv ! i) False i) (\<lambda>(found, j).
       if \<not> found
       then (if j = 1 then complain (EARG_UNKNOWN ''action'' (argv ! i))
             else if j > 1 then complain (EARG_UNKNOWN ''flag'' (argv ! i)) else ret j)
       else ret j)"

definition validate_arg_ctx :: "(unit, arg_context) op" where
  "validate_arg_ctx =
     check (gets (\<lambda>c. [a_info (ctx_port c), a_info (ctx_server c), a_info (ctx_devices c), a_info (ctx_help c),
         a_info (ctx_daemon c), a_info (ctx_filter c)])) (\<lambda>infos.
       for_each (\<lambda>a. refuse (a_needed a \<and> \<not> a_provided a) EARG_MISSING (ret ())) infos)"

subsection \<open>The contract of a handler\<close>

text \<open>A handler that accepts moves the index forward, never beyond the end, and does not change which
  arguments are wanted.  One that refuses says why, unless memory was refused to it; one that accepts
  says nothing.\<close>

definition explained :: "'a res \<Rightarrow> arg_context \<Rightarrow> arg_context \<Rightarrow> bool" where
  "explained r c c' \<longleftrightarrow> ctx_av c' = ctx_av c \<and> (case r of
      Ok _ \<Rightarrow> complaints c' = complaints c
    | Fail \<Rightarrow> ctx_av c = (\<lambda>_. True) \<longrightarrow> (\<exists>m. complaint m \<and> complaints c' = complaints c @ m)
    | Undef \<Rightarrow> True)"

definition explains :: "('a, arg_context) op \<Rightarrow> bool" where
  "explains m \<longleftrightarrow> (\<forall>c r c'. m c = (r, c') \<longrightarrow> explained r c c')"

named_theorems explains_intros \<open>operations that explain their failures\<close>

lemma explains_basic [explains_intros]:
  "explains (ret x)" "explains undef" "explains (gets f)" "complaint msg \<Longrightarrow> explains (complain msg)"
  "(\<And>c. complaints (g c) = complaints c \<and> ctx_av (g c) = ctx_av c) \<Longrightarrow> explains (modify g)"
  by (auto simp: explains_def explained_def op_simps)

lemma explains_check [explains_intros]: "explains m \<Longrightarrow> (\<And>x. explains (k x)) \<Longrightarrow> explains (check m k)"
  by (fastforce simp: explains_def explained_def check_def split: res.splits prod.splits)

lemma explains_refuse [explains_intros]: "complaint msg \<Longrightarrow> explains k \<Longrightarrow> explains (refuse b msg k)"
  by (simp add: refuse_def explains_basic)

lemma explains_if [explains_intros]: "(b \<Longrightarrow> explains m) \<Longrightarrow> (\<not> b \<Longrightarrow> explains k) \<Longrightarrow> explains (if b then m else k)"
  by simp

lemma explains_option [explains_intros]:
  "(x = None \<Longrightarrow> explains m) \<Longrightarrow> (\<And>y. x = Some y \<Longrightarrow> explains (k y)) \<Longrightarrow> explains (case x of None \<Rightarrow> m | Some y \<Rightarrow> k y)"
  by (cases x) simp_all

lemma explains_on_err:
  assumes "explains m"
  shows "explains (on_err m (modify (add_complaint msg)))"
  unfolding explains_def
proof (intro allI impI)
  fix c r c' assume r: "on_err m (modify (add_complaint msg)) c = (r, c')"
  obtain q d where q: "m c = (q, d)" by fastforce
  then have "explained q c d" using assms by (simp add: explains_def)
  with r q show "explained r c c'" by (cases q) (auto simp: explained_def on_err_def modify_def add_complaint_def)
qed

lemma explains_ignore:
  assumes "explains m" "complaint msg"
  shows "explains (ignore m (complain msg))"
  unfolding explains_def
proof (intro allI impI)
  fix c r c' assume r: "ignore m (complain msg) c = (r, c')"
  obtain q d where q: "m c = (q, d)" by fastforce
  then have "explained q c d" using assms(1) by (simp add: explains_def)
  with r q assms(2) show "explained r c c'"
    by (cases q) (auto simp: explained_def ignore_def complain_def add_complaint_def)
qed

lemma explains_for_each [explains_intros]: "(\<And>x. explains (f x)) \<Longrightarrow> explains (for_each f xs)"
  by (induction xs) (auto intro: explains_intros)

lemma explains_print [explains_intros]: "explains (print_text txt)"
  unfolding print_text_def by (intro explains_intros) simp

lemma explains_array_add [explains_intros]: "explains k \<Longrightarrow> explains (ignore (on_dev_arr m) k)"
  by (fastforce simp: explains_def explained_def ignore_def zoom_def split: res.splits prod.splits)

text \<open>With memory, \<open>u_array_init\<close> does not fail.\<close>

lemma explains_array_init [explains_intros]:
  assumes "\<And>x. explains (k x)"
  shows "explains (check (gets ctx_av) (\<lambda>av. check (on_dev_arr (u_array_init av 8 rcn_std_capacity)) k))"
proof -
  have "u_array_init (\<lambda>_. True) 8 rcn_std_capacity arr \<noteq> (Fail, arr')" for arr arr' :: "string u_array"
    by (simp add: u_array_init_def rcn_std_capacity_def granted_def Let_def)
  then show ?thesis using assms
    by (fastforce simp: explains_def explained_def check_def gets_def zoom_def split: res.splits prod.splits)
qed

lemma explains_loops:
  "explains (collect_devices args i)" "explains (collect_filters n args i)" "explains (collect_subactions args i)"
  "explains (collect_topics args i)"
  by (induction args arbitrary: i) (auto intro!: explains_intros)

lemma explains_handlers:
  "explains (arg_port argv i)" "explains (arg_host argv i)" "explains (arg_devices argv i)" "explains (arg_filter argv i)"
  "explains (arg_daemon argv i)" "explains (arg_help argv i)" "explains (arg_debug argv i)"
  unfolding arg_port_def arg_host_def arg_devices_def arg_filter_def arg_daemon_def arg_help_def arg_debug_def
  by (auto intro!: explains_intros explains_loops)

definition infos :: "arg_context \<Rightarrow> arg_info list" where
  "infos c = [a_info (ctx_port c), a_info (ctx_server c), a_info (ctx_devices c), a_info (ctx_help c),
     a_info (ctx_daemon c), a_info (ctx_filter c)]"

definition wanted :: "arg_context \<Rightarrow> (bool \<times> bool) list" where
  "wanted c = map (\<lambda>a. (a_needed a, a_optional a)) (infos c)"

text \<open>An argument counts as provided only with a usable value; the subaction is always a real one.\<close>

definition args_ok :: "arg_context \<Rightarrow> bool" where
  "args_ok c \<longleftrightarrow> (provided (ctx_port c) \<longrightarrow> a_val (ctx_port c) \<noteq> 0) \<and> (provided (ctx_server c) \<longrightarrow> a_val (ctx_server c) \<noteq> None) \<and>
     (provided (ctx_devices c) \<longrightarrow> arr_inv (a_val (ctx_devices c))) \<and> a_val (ctx_daemon c) \<noteq> SUBACTION_COUNT"

locale arg_contract =
  fixes run :: arg_handler
  assumes advance: "run argv i c = (Ok j, c') \<Longrightarrow> i < length argv \<Longrightarrow> i \<le> j \<and> j \<le> length argv"
    and same_wanted: "run argv i c = (r, c') \<Longrightarrow> wanted c' = wanted c"
    and keeps_ok: "run argv i c = (Ok j, c') \<Longrightarrow> args_ok c \<Longrightarrow> args_ok c'"
    and speaks: "explains (run argv i)"
begin

lemma next_index: "run argv i c = (Ok j, c') \<Longrightarrow> i < length argv \<Longrightarrow> length argv - Suc j < length argv - i"
  using advance by fastforce

end

lemma wanted_upd [simp]:
  "wanted (c\<lparr>ctx_port := set_provided a\<rparr>) = wanted (c\<lparr>ctx_port := a\<rparr>)"
  "wanted (c\<lparr>ctx_server := set_provided s\<rparr>) = wanted (c\<lparr>ctx_server := s\<rparr>)"
  "wanted (c\<lparr>ctx_devices := set_provided d\<rparr>) = wanted (c\<lparr>ctx_devices := d\<rparr>)"
  "wanted (c\<lparr>ctx_help := set_provided h\<rparr>) = wanted (c\<lparr>ctx_help := h\<rparr>)"
  "wanted (c\<lparr>ctx_daemon := set_provided x\<rparr>) = wanted (c\<lparr>ctx_daemon := x\<rparr>)"
  "wanted (c\<lparr>ctx_port := set_val v (ctx_port c)\<rparr>) = wanted c"
  "wanted (c\<lparr>ctx_server := set_val vs (ctx_server c)\<rparr>) = wanted c"
  "wanted (c\<lparr>ctx_devices := set_val vd (ctx_devices c)\<rparr>) = wanted c"
  "wanted (c\<lparr>ctx_daemon := set_val vx (ctx_daemon c)\<rparr>) = wanted c"
  "wanted (c\<lparr>ctx_filter := set_val vf (ctx_filter c)\<rparr>) = wanted c"
  "wanted (c\<lparr>ctx_devices := (ctx_devices c)\<lparr>a_val := vd\<rparr>\<rparr>) = wanted c"
  "wanted (c\<lparr>ctx_devices := ctx_devices c\<rparr>) = wanted c" "wanted (c\<lparr>ctx_help := ctx_help c\<rparr>) = wanted c"
  "wanted (c\<lparr>ctx_daemon := ctx_daemon c\<rparr>) = wanted c"
  "wanted (c\<lparr>g_debug_level := g\<rparr>) = wanted c" "wanted (c\<lparr>stdout := p\<rparr>) = wanted c" "wanted (c\<lparr>complaints := p\<rparr>) = wanted c"
  by (simp_all add: wanted_def infos_def set_provided_def set_val_def)

lemma collect_devices_contract:
  "collect_devices args i c = (r, c') \<Longrightarrow> 0 < i \<Longrightarrow>
    wanted c' = wanted c \<and> ctx_port c' = ctx_port c \<and> ctx_server c' = ctx_server c \<and> ctx_daemon c' = ctx_daemon c \<and>
    a_info (ctx_devices c') = a_info (ctx_devices c) \<and> (arr_inv (a_val (ctx_devices c)) \<longrightarrow> arr_inv (a_val (ctx_devices c'))) \<and> (\<forall>j. r = Ok j \<longrightarrow> i - 1 \<le> j \<and> j \<le> i + length args)"
proof (induction args arbitrary: i c)
  case (Cons arg args)
  show ?case
  proof (cases "is_flag arg")
    case False
    obtain q d where q: "u_array_add (ctx_av c) arg (a_val (ctx_devices c)) = (q, d)" by fastforce
    show ?thesis
    proof (cases "q = Undef")
      case True
      then show ?thesis using True Cons.prems False q u_array_add_spec[OF _ q] by (auto simp: op_simps set_val_def)
    next
      case ok: False
      then have "collect_devices args (i + 1) (c\<lparr>ctx_devices := set_val d (ctx_devices c)\<rparr>) = (r, c')"
        using Cons.prems False q by (cases q) (auto simp: op_simps)
      from Cons.IH[OF this] u_array_add_spec[OF _ q] show ?thesis by (auto simp: set_val_def)
    qed
  qed (use Cons.prems in \<open>auto simp: ret_def\<close>)
qed (auto simp: ret_def)

lemma args_ok_upd [simp]:
  "args_ok (c\<lparr>ctx_filter := f\<rparr>) = args_ok c" "args_ok (c\<lparr>ctx_daemon := set_provided (ctx_daemon c)\<rparr>) = args_ok c"
  "j \<noteq> SUBACTION_COUNT \<Longrightarrow> args_ok c \<Longrightarrow> args_ok (c\<lparr>ctx_daemon := set_val j (ctx_daemon c)\<rparr>)"
  "args_ok (c\<lparr>ctx_help := h\<rparr>) = args_ok c" "args_ok (c\<lparr>stdout := p\<rparr>) = args_ok c" "args_ok (c\<lparr>complaints := p\<rparr>) = args_ok c"
  "args_ok (c\<lparr>g_debug_level := g\<rparr>) = args_ok c"
  by (simp_all add: args_ok_def set_provided_def set_val_def)

lemma collect_filters_contract:
  "collect_filters m args i c = (r, c') \<Longrightarrow> 0 < i \<Longrightarrow>
    wanted c' = wanted c \<and> (args_ok c \<longrightarrow> args_ok c') \<and> (\<forall>j. r = Ok j \<longrightarrow> i - 1 \<le> j \<and> j \<le> i + length args)"
proof (induction args arbitrary: i c)
  case (Cons arg args)
  show ?case
  proof (cases "is_flag arg \<or> m \<le> i \<or> filter_bits arg = []")
    case True
    then show ?thesis using Cons.prems by (auto simp: op_simps split: if_splits)
  next
    case False
    then have "collect_filters m args (i + 1) (c\<lparr>ctx_filter := set_val (foldl or (a_val (ctx_filter c)) (filter_bits arg)) (ctx_filter c)\<rparr>) = (r, c')"
      using Cons.prems by (auto simp: op_simps)
    from Cons.IH[OF this] show ?thesis by auto
  qed
qed (auto simp: ret_def)

lemma collect_subactions_contract:
  "collect_subactions args i c = (r, c') \<Longrightarrow> wanted c' = wanted c \<and> (args_ok c \<longrightarrow> args_ok c') \<and> (\<forall>j. r = Ok j \<longrightarrow> j = i + length args)"
proof (induction args arbitrary: i c)
  case (Cons arg args)
  show ?case
  proof (cases "map_of subactions arg")
    case (Some j)
    then have "collect_subactions args (i + 1) (c\<lparr>ctx_daemon := set_val j (ctx_daemon c)\<rparr>) = (r, c')"
      using Cons.prems by (auto simp: op_simps)
    moreover have "j \<noteq> SUBACTION_COUNT" using Some by (auto simp: subactions_def split: if_splits)
    ultimately show ?thesis using Cons.IH[of "i + 1" "c\<lparr>ctx_daemon := set_val j (ctx_daemon c)\<rparr>"] by auto
  qed (use Cons.prems in \<open>auto simp: op_simps\<close>)
qed (auto simp: ret_def)

lemma collect_topics_contract:
  "collect_topics args i c = (r, c') \<Longrightarrow> wanted c' = wanted c \<and> (args_ok c \<longrightarrow> args_ok c') \<and> (\<forall>j. r = Ok j \<longrightarrow> j = i + length args)"
proof (induction args arbitrary: i c)
  case (Cons arg args)
  show ?case
  proof (cases "map_of help_data arg")
    case (Some h)
    then have "collect_topics args (i + 1) (c\<lparr>stdout := stdout c @ topic_help arg h\<rparr>) = (r, c')"
      using Cons.prems by (auto simp: op_simps print_text_def)
    from Cons.IH[OF this] show ?thesis by auto
  qed (use Cons.prems in \<open>auto simp: op_simps\<close>)
qed (auto simp: ret_def)

interpretation hp: arg_contract arg_port
proof
  show "arg_port argv i c = (Ok j, c') \<Longrightarrow> i < length argv \<Longrightarrow> i \<le> j \<and> j \<le> length argv" for argv i c j c'
    by (auto simp: arg_port_def op_simps split: if_splits option.splits)
  show "arg_port argv i c = (Ok j, c') \<Longrightarrow> args_ok c \<Longrightarrow> args_ok c'" for argv i c j c'
    by (auto simp: arg_port_def op_simps args_ok_def set_provided_def set_val_def split: if_splits option.splits)
  show "arg_port argv i c = (r, c') \<Longrightarrow> wanted c' = wanted c" for argv i c r c'
    by (auto simp: arg_port_def op_simps split: if_splits option.splits)
  show "explains (arg_port argv i)" for argv i by (rule explains_handlers)
qed

interpretation hh: arg_contract arg_host
proof
  show "arg_host argv i c = (Ok j, c') \<Longrightarrow> i < length argv \<Longrightarrow> i \<le> j \<and> j \<le> length argv" for argv i c j c'
    by (auto simp: arg_host_def op_simps split: if_splits)
  show "arg_host argv i c = (Ok j, c') \<Longrightarrow> args_ok c \<Longrightarrow> args_ok c'" for argv i c j c'
    by (auto simp: arg_host_def op_simps args_ok_def set_provided_def set_val_def split: if_splits option.splits)
  show "arg_host argv i c = (r, c') \<Longrightarrow> wanted c' = wanted c" for argv i c r c'
    by (auto simp: arg_host_def op_simps split: if_splits)
  show "explains (arg_host argv i)" for argv i by (rule explains_handlers)
qed

interpretation hg: arg_contract arg_debug
proof
  show "arg_debug argv i c = (Ok j, c') \<Longrightarrow> i < length argv \<Longrightarrow> i \<le> j \<and> j \<le> length argv" for argv i c j c'
    by (auto simp: arg_debug_def op_simps split: if_splits option.splits)
  show "arg_debug argv i c = (Ok j, c') \<Longrightarrow> args_ok c \<Longrightarrow> args_ok c'" for argv i c j c'
    by (auto simp: arg_debug_def op_simps args_ok_def set_provided_def set_val_def split: if_splits option.splits)
  show "arg_debug argv i c = (r, c') \<Longrightarrow> wanted c' = wanted c" for argv i c r c'
    by (auto simp: arg_debug_def op_simps split: if_splits option.splits)
  show "explains (arg_debug argv i)" for argv i by (rule explains_handlers)
qed

text \<open>The last lines of a handler that has a loop.\<close>

lemma loop_then_set:
  assumes "check m (\<lambda>j. check (modify f) (\<lambda>_. ret j)) c = (r, c')"
  obtains q d where "m c = (q, d)" "q \<noteq> Undef \<and> q \<noteq> Fail \<longrightarrow> (\<exists>j. q = Ok j) \<and> r = q \<and> c' = f d" "q = Fail \<or> q = Undef \<longrightarrow> r = q \<and> c' = d"
  using assms by (cases "m c"; cases "fst (m c)") (auto simp: op_simps)

interpretation hd: arg_contract arg_daemon
proof
  have *: "wanted c' = wanted c \<and> (\<forall>j. r = Ok j \<longrightarrow> args_ok c \<longrightarrow> args_ok c') \<and> (\<forall>j. r = Ok j \<longrightarrow> i < length argv \<longrightarrow> j = length argv)"
    if "arg_daemon argv i c = (r, c')" for argv i c r c'
  proof (cases "needed (ctx_daemon c) \<and> \<not> provided (ctx_daemon c)")
    case True
    with that have "check (collect_subactions (drop i argv) i)
        (\<lambda>j. check (modify (\<lambda>c. c\<lparr>ctx_daemon := set_provided (ctx_daemon c)\<rparr>)) (\<lambda>_. ret j)) c = (r, c')"
      by (simp add: arg_daemon_def refuse_def check_def[of "gets _"] gets_def)
    then show ?thesis
    proof (rule loop_then_set)
      fix q d assume q: "collect_subactions (drop i argv) i c = (q, d)"
        and r: "q \<noteq> Undef \<and> q \<noteq> Fail \<longrightarrow> (\<exists>j. q = Ok j) \<and> r = q \<and> c' = d\<lparr>ctx_daemon := set_provided (ctx_daemon d)\<rparr>"
          "q = Fail \<or> q = Undef \<longrightarrow> r = q \<and> c' = d"
      from collect_subactions_contract[OF q] r show ?thesis by (cases q) auto
    qed
  qed (use that in \<open>auto simp: arg_daemon_def op_simps split: if_splits\<close>)
  show "arg_daemon argv i c = (Ok j, c') \<Longrightarrow> i < length argv \<Longrightarrow> i \<le> j \<and> j \<le> length argv" for argv i c j c'
    using * by fastforce
  show "arg_daemon argv i c = (Ok j, c') \<Longrightarrow> args_ok c \<Longrightarrow> args_ok c'" for argv i c j c' using * by blast
  show "arg_daemon argv i c = (r, c') \<Longrightarrow> wanted c' = wanted c" for argv i c r c' using * by blast
  show "explains (arg_daemon argv i)" for argv i by (rule explains_handlers)
qed

interpretation hl: arg_contract arg_help
proof
  have *: "wanted c' = wanted c \<and> (\<forall>j. r = Ok j \<longrightarrow> args_ok c \<longrightarrow> args_ok c') \<and> (\<forall>j. r = Ok j \<longrightarrow> i < length argv \<longrightarrow> i \<le> j \<and> j \<le> length argv)"
    if "arg_help argv i c = (r, c')" for argv i c r c'
  proof (cases "needed (ctx_help c) \<and> \<not> provided (ctx_help c)")
    case True
    let ?m = "if length argv = 2 then check (print_text (concat print_help)) (\<lambda>_. ret i) else collect_topics (drop (i + 1) argv) (i + 1)"
    from True that have "check ?m (\<lambda>j. check (modify (\<lambda>c. c\<lparr>ctx_help := set_provided (ctx_help c)\<rparr>)) (\<lambda>_. ret j)) c = (r, c')"
      unfolding arg_help_def check_def[of "gets _"] gets_def by (simp add: refuse_def)
    then show ?thesis
    proof (rule loop_then_set)
      fix q d assume q: "?m c = (q, d)"
        and r: "q \<noteq> Undef \<and> q \<noteq> Fail \<longrightarrow> (\<exists>j. q = Ok j) \<and> r = q \<and> c' = d\<lparr>ctx_help := set_provided (ctx_help d)\<rparr>"
          "q = Fail \<or> q = Undef \<longrightarrow> r = q \<and> c' = d"
      have "wanted d = wanted c \<and> (args_ok c \<longrightarrow> args_ok d) \<and> (\<forall>j. q = Ok j \<longrightarrow> i < length argv \<longrightarrow> i \<le> j \<and> j \<le> length argv)"
        using q collect_topics_contract[of "drop (i + 1) argv" "i + 1" c q d]
        by (auto simp: print_text_def op_simps split: if_splits)
      with r show ?thesis by (cases q) auto
    qed
  qed (use that in \<open>auto simp: arg_help_def op_simps split: if_splits\<close>)
  show "arg_help argv i c = (Ok j, c') \<Longrightarrow> i < length argv \<Longrightarrow> i \<le> j \<and> j \<le> length argv" for argv i c j c'
    using * by blast
  show "arg_help argv i c = (Ok j, c') \<Longrightarrow> args_ok c \<Longrightarrow> args_ok c'" for argv i c j c' using * by blast
  show "arg_help argv i c = (r, c') \<Longrightarrow> wanted c' = wanted c" for argv i c r c' using * by blast
  show "explains (arg_help argv i)" for argv i by (rule explains_handlers)
qed

interpretation hf: arg_contract arg_filter
proof
  have *: "wanted c' = wanted c \<and> (\<forall>j. r = Ok j \<longrightarrow> args_ok c \<longrightarrow> args_ok c') \<and> (\<forall>j. r = Ok j \<longrightarrow> i < length argv \<longrightarrow> i \<le> j \<and> j \<le> length argv)"
    if "arg_filter argv i c = (r, c')" for argv i c r c'
  proof (cases "i + 1 < length argv \<and> optional (ctx_filter c) \<and> \<not> provided (ctx_filter c)")
    case True
    let ?m = "collect_filters (i + 1 + length device_evt_str_arr) (drop (i + 1) argv) (i + 1)"
    from True that have "check ?m (\<lambda>j. check (modify (\<lambda>c. c\<lparr>ctx_filter := set_optional (ctx_filter c)\<rparr>)) (\<lambda>_. ret j)) c = (r, c')"
      by (simp add: arg_filter_def refuse_def check_def[of "gets _"] gets_def)
    then show ?thesis
    proof (rule loop_then_set)
      fix q d assume q: "?m c = (q, d)"
        and r: "q \<noteq> Undef \<and> q \<noteq> Fail \<longrightarrow> (\<exists>j. q = Ok j) \<and> r = q \<and> c' = d\<lparr>ctx_filter := set_optional (ctx_filter d)\<rparr>"
          "q = Fail \<or> q = Undef \<longrightarrow> r = q \<and> c' = d"
      note law = collect_filters_contract[OF q]
      have "optional (ctx_filter d)"
        using law True by (simp add: wanted_def infos_def)
      then have "wanted (d\<lparr>ctx_filter := set_optional (ctx_filter d)\<rparr>) = wanted d"
        by (simp add: wanted_def infos_def set_optional_def)
      with law r True show ?thesis by (cases q) auto
    qed
  qed (use that in \<open>auto simp: arg_filter_def op_simps split: if_splits\<close>)
  show "arg_filter argv i c = (Ok j, c') \<Longrightarrow> i < length argv \<Longrightarrow> i \<le> j \<and> j \<le> length argv" for argv i c j c'
    using * by blast
  show "arg_filter argv i c = (Ok j, c') \<Longrightarrow> args_ok c \<Longrightarrow> args_ok c'" for argv i c j c' using * by blast
  show "arg_filter argv i c = (r, c') \<Longrightarrow> wanted c' = wanted c" for argv i c r c' using * by blast
  show "explains (arg_filter argv i)" for argv i by (rule explains_handlers)
qed

interpretation hv: arg_contract arg_devices
proof
  have *: "wanted c' = wanted c \<and> (\<forall>j. r = Ok j \<longrightarrow> args_ok c \<longrightarrow> args_ok c') \<and> (\<forall>j. r = Ok j \<longrightarrow> i < length argv \<longrightarrow> i \<le> j \<and> j \<le> length argv)"
    if that: "arg_devices argv i c = (r, c')" for argv i c r c'
  proof (cases "i + 1 < length argv \<and> needed (ctx_devices c) \<and> \<not> provided (ctx_devices c)")
    case True
    obtain q0 arr where q0: "u_array_init (ctx_av c) 8 rcn_std_capacity (a_val (ctx_devices c)) = (q0, arr)" by fastforce
    let ?c = "c\<lparr>ctx_devices := set_val arr (ctx_devices c)\<rparr>"
    let ?m = "collect_devices (drop (i + 1) argv) (i + 1)"
    have eq: "arg_devices argv i c = check (on_dev_arr (u_array_init (ctx_av c) 8 rcn_std_capacity)) (\<lambda>_.
        check ?m (\<lambda>j. check (modify (\<lambda>c. c\<lparr>ctx_devices := set_provided (ctx_devices c)\<rparr>)) (\<lambda>_. ret j))) c"
      using True by (simp add: arg_devices_def refuse_def check_def[of "gets _"] gets_def)
    show ?thesis
    proof (cases "q0 = Ok ()")
      case ok: True
      with that q0 have "check ?m (\<lambda>j. check (modify (\<lambda>c. c\<lparr>ctx_devices := set_provided (ctx_devices c)\<rparr>)) (\<lambda>_. ret j)) ?c = (r, c')"
        unfolding eq check_def[of "on_dev_arr _"] by (simp add: zoom_def)
      then show ?thesis
      proof (rule loop_then_set)
        fix q d assume q: "?m ?c = (q, d)"
          and r: "q \<noteq> Undef \<and> q \<noteq> Fail \<longrightarrow> (\<exists>j. q = Ok j) \<and> r = q \<and> c' = d\<lparr>ctx_devices := set_provided (ctx_devices d)\<rparr>"
            "q = Fail \<or> q = Undef \<longrightarrow> r = q \<and> c' = d"
        moreover have "arr_inv arr" using u_array_init_spec[OF q0] ok by auto
        ultimately have "q = Ok j \<Longrightarrow> args_ok c \<Longrightarrow> args_ok c'" for j
          using collect_devices_contract[OF q] r by (auto simp: args_ok_def set_provided_def set_val_def)
        then show ?thesis using collect_devices_contract[OF q] True r by (cases q) auto
      qed
    next
      case False
      then show ?thesis using that q0 unfolding eq by (cases q0) (auto simp: check_def zoom_def)
    qed
  qed (use that in \<open>auto simp: arg_devices_def op_simps split: if_splits\<close>)
  show "arg_devices argv i c = (Ok j, c') \<Longrightarrow> i < length argv \<Longrightarrow> i \<le> j \<and> j \<le> length argv" for argv i c j c'
    using * by blast
  show "arg_devices argv i c = (Ok j, c') \<Longrightarrow> args_ok c \<Longrightarrow> args_ok c'" for argv i c j c' using * by blast
  show "arg_devices argv i c = (r, c') \<Longrightarrow> wanted c' = wanted c" for argv i c r c' using * by blast
  show "explains (arg_devices argv i)" for argv i by (rule explains_handlers)
qed

lemma all_handlers_contract: "\<forall>h \<in> set handlers. arg_contract (snd h)"
  using hp.arg_contract_axioms hh.arg_contract_axioms hv.arg_contract_axioms hf.arg_contract_axioms
    hl.arg_contract_axioms hg.arg_contract_axioms hd.arg_contract_axioms
  by (simp add: handlers_def handler_flags_def)

subsection \<open>Handling one argument\<close>

text \<open>No argument matches two rows of the table.\<close>

definition apart :: "(string \<times> string) \<Rightarrow> (string \<times> string) \<Rightarrow> bool" where
  "apart f g \<longleftrightarrow> fst f \<noteq> fst g \<and> fst f \<noteq> snd g \<and> snd f \<noteq> fst g \<and> snd f \<noteq> snd g"

lemma flags_apart: "sorted_wrt apart handler_flags"
  by (simp add: handler_flags_def apart_def)

lemma rows_apart: "sorted_wrt (\<lambda>h k. apart (fst h) (fst k)) handlers"
proof -
  have "map fst handlers = handler_flags" by (simp add: handlers_def handler_flags_def)
  then show ?thesis using flags_apart by (metis sorted_wrt_map)
qed

lemma matches_apart: "matches a f \<Longrightarrow> apart f g \<Longrightarrow> \<not> matches a g"
  by (auto simp: matches_def apart_def)

lemma run_handlers_none:
  "\<forall>h \<in> set hs. \<not> matches arg (fst h) \<Longrightarrow> run_handlers hs argv arg found i = ret (found, i)"
  by (induction hs) auto

lemma run_handlers_found:
  "\<forall>h \<in> set hs. \<not> matches arg (fst h) \<Longrightarrow> run_handlers hs argv arg True = (\<lambda>j. ret (True, j))"
  by (rule ext, rule run_handlers_none)

lemma check_ret_id: "check m ret = m"
  by (rule ext) (auto simp: check_def ret_def split: res.splits prod.splits)

lemma run_handlers_lookup:
  "sorted_wrt (\<lambda>h k. apart (fst h) (fst k)) hs \<Longrightarrow> run_handlers hs argv arg False i =
     (case find (\<lambda>h. matches arg (fst h)) hs of None \<Rightarrow> ret (False, i)
      | Some h \<Rightarrow> check (snd h argv i) (\<lambda>j. ret (True, j)))"
proof (induction hs)
  case (Cons h hs)
  show ?case
  proof (cases "matches arg (fst h)")
    case True
    then have "\<forall>k \<in> set hs. \<not> matches arg (fst k)" using Cons.prems matches_apart by auto
    then show ?thesis using True by (simp add: run_handlers_found)
  next
    case False
    then show ?thesis using Cons by simp
  qed
qed simp

text \<open>The loop over the table is a lookup.\<close>

definition arg_lookup :: "string \<Rightarrow> arg_handler option" where
  "arg_lookup a = map_option snd (find (\<lambda>h. matches a (fst h)) handlers)"

lemma arg_lookup_flags [simp]:
  "arg_lookup ''-p'' = Some arg_port" "arg_lookup ''--port'' = Some arg_port"
  "arg_lookup ''-s'' = Some arg_host" "arg_lookup ''--server'' = Some arg_host"
  "arg_lookup ''-d'' = Some arg_devices" "arg_lookup ''--devices'' = Some arg_devices"
  "arg_lookup ''-f'' = Some arg_filter" "arg_lookup ''--filter'' = Some arg_filter"
  "arg_lookup ''-h'' = Some arg_help" "arg_lookup ''--help'' = Some arg_help"
  "arg_lookup ''-g'' = Some arg_debug" "arg_lookup ''--debug'' = Some arg_debug"
  by (simp_all add: arg_lookup_def handlers_def handler_flags_def matches_def)

lemma arg_lookup_subactions [simp]:
  "arg_lookup ''pause'' = Some arg_daemon" "arg_lookup ''resume'' = Some arg_daemon" "arg_lookup ''stop'' = Some arg_daemon"
  "arg_lookup ''switch'' = Some arg_daemon" "arg_lookup ''log'' = Some arg_daemon" "arg_lookup ''list'' = Some arg_daemon"
  "arg_lookup ''ls'' = Some arg_daemon"
  by (simp_all add: arg_lookup_def handlers_def handler_flags_def matches_def)

lemma arg_lookup_subaction: "a \<in> fst ` set subactions \<Longrightarrow> arg_lookup a = Some arg_daemon"
  unfolding subactions_def by (elim imageE, simp only: list.set insert_iff empty_iff disj_not1 False_implies_equals)
    (elim disjE; simp)

lemma arg_lookup_none: "\<not> is_flag a \<Longrightarrow> arg_lookup a = None"
proof -
  assume "\<not> is_flag a"
  then have "\<forall>f \<in> set handler_flags. \<not> matches a f" by (simp add: is_flag_def list_ex_iff)
  moreover have "map fst handlers = handler_flags" by (simp add: handlers_def handler_flags_def)
  then have "fst h \<in> set handler_flags" if "h \<in> set handlers" for h
    using imageI[OF that, of fst] by (metis set_map)
  ultimately show ?thesis by (auto simp: arg_lookup_def find_None_iff)
qed

lemma arg_lookup_contract: "arg_lookup a = Some h \<Longrightarrow> arg_contract h"
proof -
  assume "arg_lookup a = Some h"
  then obtain k where k: "find (\<lambda>h. matches a (fst h)) handlers = Some k" "h = snd k" by (auto simp: arg_lookup_def)
  then have "k \<in> set handlers" by (auto simp: find_Some_iff)
  then show "arg_contract h" using all_handlers_contract k(2) by blast
qed

lemma handle_arg_lookup:
  assumes "0 < i"
  shows "handle_arg argv i = (case arg_lookup (argv ! i) of
      None \<Rightarrow> complain (EARG_UNKNOWN (if i = 1 then ''action'' else ''flag'') (argv ! i)) | Some h \<Rightarrow> h argv i)"
proof (cases "find (\<lambda>h. matches (argv ! i) (fst h)) handlers")
  case None
  then show ?thesis using assms by (auto simp: arg_lookup_def handle_arg_def run_handlers_lookup[OF rows_apart])
next
  case (Some h)
  then show ?thesis by (simp add: arg_lookup_def handle_arg_def run_handlers_lookup[OF rows_apart] check_assoc check_ret_id)
qed

lemma handle_arg_advances:
  assumes "handle_arg argv i c = (Ok j, c')" "i < length argv" "0 < i"
  shows "i \<le> j \<and> j \<le> length argv"
proof -
  from assms(1) obtain h where h: "arg_lookup (argv ! i) = Some h" "h argv i c = (Ok j, c')"
    by (cases "arg_lookup (argv ! i)") (simp_all add: handle_arg_lookup[OF assms(3)] op_simps)
  from arg_contract.advance[OF arg_lookup_contract[OF h(1)] h(2) assms(2)] show ?thesis .
qed

lemma handle_arg_keeps:
  assumes "handle_arg argv i c = (r, c')" "0 < i"
  shows "wanted c' = wanted c \<and> (\<forall>j. r = Ok j \<longrightarrow> args_ok c \<longrightarrow> args_ok c')"
proof (cases "arg_lookup (argv ! i)")
  case None
  then show ?thesis using assms(1) by (auto simp: handle_arg_lookup[OF assms(2)] complain_def add_complaint_def)
next
  case (Some h)
  note contract = arg_lookup_contract[OF Some]
  have "h argv i c = (r, c')" using assms(1) Some by (simp add: handle_arg_lookup[OF assms(2)])
  then show ?thesis using arg_contract.same_wanted[OF contract] arg_contract.keeps_ok[OF contract] by blast
qed

lemma handle_arg_explains: "0 < i \<Longrightarrow> explains (handle_arg argv i)"
  using arg_contract.speaks[OF arg_lookup_contract]
  by (auto simp: handle_arg_lookup split: option.split intro!: explains_intros)

subsection \<open>The parser\<close>

text \<open>\<open>for (int i = start_arg; i < argc; i++)\<close>.  The loop ends because no handler moves the index
  back.  An index of 0 does not occur: every caller starts at 1 or 2.\<close>

function parse_from :: "string list \<Rightarrow> nat \<Rightarrow> (unit, arg_context) op" where
  "parse_from argv i c =
     (if 0 < i \<and> i < length argv
      then (case handle_arg argv i c of
          (Ok j, c') \<Rightarrow> parse_from argv (Suc j) c'
        | (Fail, c') \<Rightarrow> (Fail, c')
        | (Undef, c') \<Rightarrow> (Undef, c'))
      else (Ok (), c))"
  by pat_completeness auto
termination
proof (relation "measure (\<lambda>(argv, i, _). length argv - i)")
  fix argv :: "string list" and i c and r :: "nat res" and c' j
  assume i: "0 < i \<and> i < length argv" and p: "(r, c') = handle_arg argv i c" "r = Ok j"
  from p have "handle_arg argv i c = (Ok j, c')" by simp
  from handle_arg_advances[OF this] i have "i \<le> j" by simp
  then show "((argv, Suc j, c'), argv, i, c) \<in> measure (\<lambda>(argv, i, _). length argv - i)" using i by auto
qed simp

declare parse_from.simps [simp del]

definition parse_args :: "string list \<Rightarrow> nat \<Rightarrow> (unit, arg_context) op" where
  "parse_args argv start_arg = check (parse_from argv start_arg) (\<lambda>_. validate_arg_ctx)"

lemma parse_from_keeps:
  "parse_from argv i c = (r, c') \<Longrightarrow> wanted c' = wanted c \<and> (r = Ok () \<longrightarrow> args_ok c \<longrightarrow> args_ok c')"
proof (induction argv i c arbitrary: r c' rule: parse_from.induct)
  case (1 argv i c)
  show ?case
  proof (cases "0 < i \<and> i < length argv")
    case True
    obtain q d where q: "handle_arg argv i c = (q, d)" by fastforce
    have step: "wanted d = wanted c \<and> (\<forall>j. q = Ok j \<longrightarrow> args_ok c \<longrightarrow> args_ok d)" by (rule handle_arg_keeps[OF q]) (use True in simp)
    show ?thesis
    proof (cases q)
      case (Ok j)
      then have rest: "parse_from argv (Suc j) d = (r, c')" using 1(2) True q by (simp add: parse_from.simps[of argv i])
      from 1(1)[OF True q[symmetric] Ok rest] step Ok show ?thesis by auto
    qed (use 1(2) True q step in \<open>simp_all add: parse_from.simps[of argv i]\<close>)
  next
    case False
    then have "c' = c" using 1(2) by (simp only: parse_from.simps[of argv i] if_False prod.inject)
    then show ?thesis by simp
  qed
qed

lemma parse_from_explained: "parse_from argv i c = (r, c') \<Longrightarrow> explained r c c'"
proof (induction argv i c arbitrary: r c' rule: parse_from.induct)
  case (1 argv i c)
  show ?case
  proof (cases "0 < i \<and> i < length argv")
    case True
    obtain q d where q: "handle_arg argv i c = (q, d)" by fastforce
    have step: "explained q c d" using handle_arg_explains[of i argv] q True by (simp add: explains_def)
    show ?thesis
    proof (cases q)
      case (Ok j)
      then have rest: "parse_from argv (Suc j) d = (r, c')" using 1(2) True q by (simp add: parse_from.simps[of argv i])
      from 1(1)[OF True q[symmetric] Ok rest] step Ok show ?thesis by (auto simp: explained_def split: res.splits)
    qed (use 1(2) True q step in \<open>auto simp: parse_from.simps[of argv i] explained_def\<close>)
  next
    case False
    then have "r = Ok ()" "c' = c" using 1(2) by (simp_all only: parse_from.simps[of argv i] if_False prod.inject)
    then show ?thesis by (simp add: explained_def)
  qed
qed

lemma parse_args_explains: "explains (parse_args argv i)"
  using parse_from_explained unfolding parse_args_def validate_arg_ctx_def
  by (intro explains_intros complaint_texts) (simp add: explains_def)

text \<open>When the parser accepts, every wanted argument has been provided, with a usable value.\<close>

lemma parse_args_complete:
  assumes "parse_args argv i c = (Ok (), c')" "args_ok c"
  shows "wanted c' = wanted c \<and> args_ok c' \<and> list_all (\<lambda>a. a_needed a \<longrightarrow> a_provided a) (infos c')"
proof -
  obtain d where d: "parse_from argv i c = (Ok (), d)" "validate_arg_ctx d = (Ok (), c')"
    using assms(1) by (auto simp: parse_args_def check_Ok_iff)
  then have "c' = d \<and> list_all (\<lambda>a. a_needed a \<longrightarrow> a_provided a) (infos d)"
    by (auto simp: validate_arg_ctx_def infos_def op_simps split: if_splits)
  then show ?thesis using parse_from_keeps[OF d(1)] assms(2) by auto
qed

end
