(* ===== verification/Rcn_Main.thy ===== *)
theory Rcn_Main
  imports Rcn_Arg
begin

section \<open>The program (rcn.c)\<close>

text \<open>
  \<open>main\<close> picks an action from the first argument; each action marks the arguments it wants, parses the
  rest and ends in one call of another part of the program.  The model returns that call (\<open>None\<close>: help
  has been printed and there is nothing more to do) instead of making it; the result of the process is
  the result of the call.
\<close>

subsection \<open>Calls\<close>

datatype call = Daemon_start daemon_arg relay_arg | Print_log daemon_type | Relay_start relay_arg | Show_devices u32

text \<open>\<open>subaction_to_rcn_msg\<close> (rcn_arg.c); \<open>None\<close> is the \<open>-1\<close>.\<close>

definition subaction_to_rcn_msg :: "subaction_type \<Rightarrow> relay_msg_header option" where
  "subaction_to_rcn_msg saction = (case saction of
      SUBACTION_PAUSE \<Rightarrow> Some RELAY_HEADER_PAUSE
    | SUBACTION_RESUME \<Rightarrow> Some RELAY_HEADER_RESUME
    | SUBACTION_STOP \<Rightarrow> Some RELAY_HEADER_STOP
    | SUBACTION_LIST \<Rightarrow> Some RELAY_HEADER_LIST
    | SUBACTION_LS \<Rightarrow> Some RELAY_HEADER_LIST
    | SUBACTION_SWITCH \<Rightarrow> Some RELAY_HEADER_SWITCH
    | _ \<Rightarrow> None)"

definition subaction_daemon :: "daemon_type \<Rightarrow> subaction_type \<Rightarrow> (call option, arg_context) op" where
  "subaction_daemon ty sa_type = (case subaction_to_rcn_msg sa_type of
      None \<Rightarrow> fail
    | Some h \<Rightarrow> ret (Some (Relay_start \<lparr>header_sent = h, ra_d_type = ty, check_status = False\<rparr>)))"

subsection \<open>Which daemon is running\<close>

text \<open>
  What the loop over /proc finds at each entry: no readable file there (\<open>ENOENT\<close>, \<open>ENOTDIR\<close>), another
  error of \<open>open\<close>, an error of \<open>read\<close>, or the bytes of the file (at most 128 are read).  A name is
  compared up to its last byte, the newline; reading nothing makes the code write before its buffer.
\<close>

datatype proc_entry = Proc_gone | Proc_denied | Proc_unreadable | Proc_comm string

primrec scan_procs :: "string \<Rightarrow> proc_entry list \<Rightarrow> unit res" where
  "scan_procs proc_name [] = Fail"
| "scan_procs proc_name (ent # ents) = (case ent of
      Proc_gone \<Rightarrow> scan_procs proc_name ents
    | Proc_denied \<Rightarrow> Fail
    | Proc_unreadable \<Rightarrow> Fail
    | Proc_comm s \<Rightarrow>
        if s = [] then Undef
        else if takeWhile (\<lambda>c. (of_char c :: nat) \<noteq> 0) (butlast (take 128 s)) = proc_name then Ok ()
        else scan_procs proc_name ents)"

definition proc_name_of :: "daemon_type \<Rightarrow> string" where
  "proc_name_of ty = (case ty of DAEMON_SERVER \<Rightarrow> ''rcn_server'' | DAEMON_CLIENT \<Rightarrow> ''rcn_client'')"

text \<open>\<open>procs = None\<close>: /proc cannot be opened.\<close>

definition daemon_is_running :: "daemon_type \<Rightarrow> proc_entry list option \<Rightarrow> unit res" where
  "daemon_is_running ty procs = (case procs of None \<Rightarrow> Fail | Some ents \<Rightarrow> scan_procs (proc_name_of ty) ents)"

subsection \<open>Actions\<close>

definition action_start :: "string list \<Rightarrow> (call option, arg_context) op" where
  "action_start argv =
     refuse (length argv < 4) (EARG_COUNT ARG_ACTION_START 4 (length argv))
     (check (modify (\<lambda>c. c\<lparr>ctx_port := set_needed (ctx_port c)\<rparr>)) (\<lambda>_.
      check (parse_args argv 2) (\<lambda>_.
      check (gets ctx_port) (\<lambda>port.
        ret (Some (Daemon_start
          \<lparr>da_port = a_val port, da_host = None, da_devices = no_paths, da_type = DAEMON_SERVER\<rparr>
          \<lparr>header_sent = RELAY_HEADER_START, ra_d_type = DAEMON_SERVER, check_status = True\<rparr>))))))"

definition action_connect :: "string list \<Rightarrow> (call option, arg_context) op" where
  "action_connect argv =
     refuse (length argv < 8) (EARG_COUNT ARG_ACTION_START 8 (length argv))
     (check (modify (\<lambda>c. c\<lparr>ctx_devices := set_needed (ctx_devices c), ctx_port := set_needed (ctx_port c),
        ctx_server := set_needed (ctx_server c)\<rparr>)) (\<lambda>_.
      check (parse_args argv 2) (\<lambda>_.
      check (gets (\<lambda>c. c)) (\<lambda>c.
        ret (Some (Daemon_start
          \<lparr>da_port = a_val (ctx_port c), da_host = a_val (ctx_server c), da_devices = a_val (ctx_devices c),
             da_type = DAEMON_CLIENT\<rparr>
          \<lparr>header_sent = RELAY_HEADER_IDLE, ra_d_type = DAEMON_CLIENT, check_status = True\<rparr>))))))"

text \<open>What follows the parsing in \<open>action_server\<close>, \<open>action_client\<close> and \<open>auto_subaction\<close>.\<close>

definition run_subaction :: "daemon_type \<Rightarrow> (call option, arg_context) op" where
  "run_subaction ty =
     check (gets ctx_daemon) (\<lambda>a.
       if a_val a = SUBACTION_LOG then ret (Some (Print_log ty)) else subaction_daemon ty (a_val a))"

definition want_daemon :: "(unit, arg_context) op" where
  "want_daemon = modify (\<lambda>c. c\<lparr>ctx_daemon := set_needed (ctx_daemon c)\<rparr>)"

definition action_server :: "string list \<Rightarrow> (call option, arg_context) op" where
  "action_server argv =
     refuse (length argv < 3) (EARG_COUNT ARG_ACTION_SERVER 3 (length argv))
     (check want_daemon (\<lambda>_. check (parse_args argv 2) (\<lambda>_. run_subaction DAEMON_SERVER)))"

definition action_client :: "string list \<Rightarrow> (call option, arg_context) op" where
  "action_client argv =
     refuse (length argv < 3) (EARG_COUNT ARG_ACTION_SERVER 3 (length argv))
     (check want_daemon (\<lambda>_. check (parse_args argv 2) (\<lambda>_. run_subaction DAEMON_CLIENT)))"

definition action_show :: "string list \<Rightarrow> (call option, arg_context) op" where
  "action_show argv =
     check (modify (\<lambda>c. c\<lparr>ctx_filter := set_optional (ctx_filter c)\<rparr>)) (\<lambda>_.
     check (on_err (if length argv > 2 then parse_args argv 2 else ret ())
       (modify (add_complaint (ERR_LOG ''action_show'' 150 [] [])))) (\<lambda>_.
     check (gets ctx_filter) (\<lambda>f. ret (Some (Show_devices (a_val f))))))"

text \<open>The rest of \<open>action_show\<close>: the lines it prints.\<close>

primrec show_lines :: "nat \<Rightarrow> nat \<Rightarrow> (string list, basic_device_info u_array) op" where
  "show_lines 0 i = ret []"
| "show_lines (Suc n) i =
     check (u_array_getv (of_nat i)) (\<lambda>binfo.
     check (show_lines n (Suc i)) (\<lambda>rest. ret (dev_print_basic_info binfo # rest)))"

definition show_devices ::
  "kenv \<Rightarrow> allocator \<Rightarrow> bool \<Rightarrow> string list \<Rightarrow> bool \<Rightarrow> u32 \<Rightarrow> (string list, basic_device_info u_array) op" where
  "show_devices E av opened entries complete filt =
     check (u_array_init av 516 rcn_std_capacity) (\<lambda>_.
     check (dev_get_all_devices E av opened entries complete filt) (\<lambda>_.
     check (gets (\<lambda>a. unat (arr_length a))) (\<lambda>n.
     check (show_lines n 0) (\<lambda>out.
     check u_array_free (\<lambda>_. ret out)))))"

text \<open>\<open>procs\<close>: what the scans of /proc for a client and for a server find.\<close>

definition auto_subaction ::
  "string list \<Rightarrow> (daemon_type \<Rightarrow> proc_entry list option) \<Rightarrow> (call option, arg_context) op" where
  "auto_subaction argv procs =
     check want_daemon (\<lambda>_. check (parse_args argv 1) (\<lambda>_.
       case daemon_is_running DAEMON_CLIENT (procs DAEMON_CLIENT) of
         Undef \<Rightarrow> undef
       | Ok _ \<Rightarrow> run_subaction DAEMON_CLIENT
       | Fail \<Rightarrow> (case daemon_is_running DAEMON_SERVER (procs DAEMON_SERVER) of
             Undef \<Rightarrow> undef
           | Ok _ \<Rightarrow> run_subaction DAEMON_SERVER
           | Fail \<Rightarrow> complain (''err: no daemon running'' @ nl))))"

definition help_action :: "string list \<Rightarrow> (call option, arg_context) op" where
  "help_action argv =
     check (modify (\<lambda>c. c\<lparr>ctx_help := set_needed (ctx_help c)\<rparr>)) (\<lambda>_.
     check (parse_args argv 1) (\<lambda>_. ret None))"

definition main :: "string list \<Rightarrow> (daemon_type \<Rightarrow> proc_entry list option) \<Rightarrow> (call option, arg_context) op" where
  "main argv procs = on_err
     (if length argv < 2
      then ignore (help_action ['''', ARG_FLAG_HELP]) (complain (nl @ ''err: no action supplied'' @ nl))
      else let action = argv ! 1 in
        if action = ARG_ACTION_START then action_start argv
        else if action = ARG_ACTION_CONNECT then action_connect argv
        else if action = ARG_ACTION_SERVER then action_server argv
        else if action = ARG_ACTION_CLIENT then action_client argv
        else if action = ARG_ACTION_SHOW then action_show argv
        else if action = ARG_FLAG_HELP then help_action argv
        else auto_subaction argv procs)
     (modify (add_complaint (''see '' @ quoted ''rcn -h'' @ '' for help'' @ nl)))"

end
