(* ===== verification/Rcn_Commands.thy ===== *)
theory Rcn_Commands
  imports Rcn_Main
begin

section \<open>What command lines do\<close>

text \<open>
  The properties of the command line: which lines are accepted, what they turn into, and the lines that
  are refused or understood differently from what the help text says.
\<close>

subsection \<open>Single arguments\<close>

lemma fst_on_err: "fst (on_err m (modify f) s) = fst (m s)"
  by (auto simp: on_err_def modify_def split: res.splits prod.splits)

lemma handle_unknown: "0 < i \<Longrightarrow> \<not> is_flag (argv ! i) \<Longrightarrow>
    handle_arg argv i = complain (EARG_UNKNOWN (if i = 1 then ''action'' else ''flag'') (argv ! i))"
  by (simp add: handle_arg_lookup arg_lookup_none)

lemma parse_step:
  assumes "0 < i" "i < length argv" "handle_arg argv i c = (Ok j, c')"
  shows "parse_from argv i c = parse_from argv (Suc j) c'"
  using assms by (subst parse_from.simps) simp

lemma parse_stop:
  "0 < i \<Longrightarrow> i < length argv \<Longrightarrow> handle_arg argv i c = (Fail, c') \<Longrightarrow> parse_from argv i c = (Fail, c')"
  "length argv \<le> i \<Longrightarrow> parse_from argv i c = (Ok (), c)"
  by (subst parse_from.simps; simp)+

lemma arg_port_ok:
  assumes "i + 1 < length argv" "needed (ctx_port c)" "\<not> provided (ctx_port c)" "atoi (argv ! (i + 1)) = Some n" "n \<noteq> 0"
  shows "arg_port argv i c = (Ok (i + 1), c\<lparr>ctx_port := set_provided (set_val n (ctx_port c))\<rparr>)"
  using assms by (simp add: arg_port_def op_simps)

lemma arg_host_ok:
  assumes "i + 1 < length argv" "needed (ctx_server c)" "\<not> provided (ctx_server c)"
  shows "arg_host argv i c = (Ok (i + 1), c\<lparr>ctx_server := set_provided (set_val (Some (argv ! (i + 1))) (ctx_server c))\<rparr>)"
  using assms by (simp add: arg_host_def op_simps)

lemma collect_subactions_ok:
  assumes "ws \<noteq> []" "\<forall>w \<in> set ws. w \<in> fst ` set subactions"
  shows "collect_subactions ws i c = (Ok (i + length ws), c\<lparr>ctx_daemon := set_val (the (map_of subactions (last ws))) (ctx_daemon c)\<rparr>)"
  using assms
proof (induction ws arbitrary: i c rule: list_nonempty_induct)
  case (single w)
  then obtain s where "map_of subactions w = Some s" by (auto dest: weak_map_of_SomeI)
  then show ?case by (simp add: op_simps)
next
  case (cons w ws)
  then obtain s where s: "map_of subactions w = Some s" by (auto dest: weak_map_of_SomeI)
  have "collect_subactions ws (i + 1) (c\<lparr>ctx_daemon := set_val s (ctx_daemon c)\<rparr>) =
      (Ok (i + 1 + length ws), c\<lparr>ctx_daemon := set_val (the (map_of subactions (last ws))) (set_val s (ctx_daemon c))\<rparr>)"
    using cons by (subst cons.IH) auto
  then show ?case using s cons.hyps by (simp add: op_simps set_val_def)
qed

lemma collect_devices_ok:
  assumes "\<forall>d \<in> set ds. \<not> is_flag d" "ctx_av c = (\<lambda>_. True)" "arr_inv (a_val (ctx_devices c))" "arr_size (a_val (ctx_devices c)) = 8"
    and "unat (arr_capacity (a_val (ctx_devices c))) \<le> 10 + 2 * length (elems (a_val (ctx_devices c)))"
    and "length (elems (a_val (ctx_devices c))) + length ds < 2 ^ 50"
  shows "\<exists>arr. collect_devices ds i c = (Ok (i + length ds), c\<lparr>ctx_devices := set_val arr (ctx_devices c)\<rparr>) \<and> arr_inv arr \<and>
    elems arr = elems (a_val (ctx_devices c)) @ ds"
  using assms
proof (induction ds arbitrary: i c)
  case Nil
  then show ?case by (intro exI[of _ "a_val (ctx_devices c)"]) (simp add: ret_def set_val_def)
next
  case (Cons d ds)
  let ?arr = "a_val (ctx_devices c)"
  have "2 * unat (arr_capacity ?arr) * unat (arr_size ?arr) < 2 ^ 63" using Cons.prems(4-6) by simp
  from u_array_add_grows[OF Cons.prems(3,2) this, of d] obtain arr' where a: "u_array_add (ctx_av c) d ?arr = (Ok (), arr')"
    "arr_inv arr'" "elems arr' = elems ?arr @ [d]" "arr_size arr' = 8"
    "unat (arr_capacity arr') \<le> max (unat (arr_capacity ?arr)) (2 * length (elems ?arr))" using Cons.prems(4) by auto
  let ?c = "c\<lparr>ctx_devices := set_val arr' (ctx_devices c)\<rparr>"
  have "\<exists>arr. collect_devices ds (i + 1) ?c = (Ok (i + 1 + length ds), ?c\<lparr>ctx_devices := set_val arr (ctx_devices ?c)\<rparr>) \<and>
      arr_inv arr \<and> elems arr = elems (a_val (ctx_devices ?c)) @ ds"
    by (rule Cons.IH) (use Cons.prems a in \<open>auto simp: set_val_def\<close>)
  then obtain arr where "collect_devices ds (i + 1) ?c = (Ok (i + 1 + length ds), ?c\<lparr>ctx_devices := set_val arr (ctx_devices ?c)\<rparr>)"
    "arr_inv arr" "elems arr = elems arr' @ ds" by (auto simp: set_val_def)
  moreover have "collect_devices (d # ds) i c = collect_devices ds (i + 1) ?c"
    using Cons.prems(1) a(1) by (simp add: op_simps)
  ultimately show ?case using a(3) by (intro exI[of _ arr]) (simp add: set_val_def)
qed

subsection \<open>Accepted command lines\<close>

lemma start_line:
  assumes "f \<in> {''-p'', ''--port''}" "atoi p = Some n" "n \<noteq> 0"
  shows "\<exists>c. action_start [prog, ''start'', f, p] (zero_ctx av) = (Ok (Some (Daemon_start
      \<lparr>da_port = n, da_host = None, da_devices = no_paths, da_type = DAEMON_SERVER\<rparr>
      \<lparr>header_sent = RELAY_HEADER_START, ra_d_type = DAEMON_SERVER, check_status = True\<rparr>)), c)"
proof -
  let ?argv = "[prog, ''start'', f, p]" and ?c = "zero_ctx av\<lparr>ctx_port := set_needed (ctx_port (zero_ctx av))\<rparr>"
  let ?d = "?c\<lparr>ctx_port := set_provided (set_val n (ctx_port ?c))\<rparr>"
  have "arg_port ?argv 2 ?c = (Ok 3, ?d)"
    using assms by (subst arg_port_ok) (simp_all add: zero_ctx_def set_needed_def no_info_def)
  moreover have "handle_arg ?argv 2 = arg_port ?argv 2" using assms(1) by (auto simp: handle_arg_lookup)
  ultimately have "parse_from ?argv 2 ?c = (Ok (), ?d)" by (simp add: parse_step parse_stop)
  moreover have "validate_arg_ctx ?d = (Ok (), ?d)"
    by (simp add: validate_arg_ctx_def op_simps zero_ctx_def set_needed_def set_provided_def set_val_def no_info_def)
  ultimately have "parse_args ?argv 2 ?c = (Ok (), ?d)" by (simp add: parse_args_def check_ok)
  then show ?thesis by (simp add: action_start_def op_simps set_val_def set_provided_def)
qed

text \<open>The context after each of the three arguments of \<open>connect\<close>.\<close>

lemma connect_line:
  assumes p: "atoi p = Some n" "n \<noteq> 0" and ds: "\<forall>d \<in> set ds. \<not> is_flag d" "ds \<noteq> []" "length ds < 2 ^ 49"
  shows "\<exists>arr c. action_connect ([prog, ''connect'', ''-s'', h, ''-p'', p, ''-d''] @ ds) (zero_ctx (\<lambda>_. True)) =
    (Ok (Some (Daemon_start \<lparr>da_port = n, da_host = Some h, da_devices = arr, da_type = DAEMON_CLIENT\<rparr>
      \<lparr>header_sent = RELAY_HEADER_IDLE, ra_d_type = DAEMON_CLIENT, check_status = True\<rparr>)), c) \<and> arr_inv arr \<and> elems arr = ds"
proof -
  let ?argv = "[prog, ''connect'', ''-s'', h, ''-p'', p, ''-d''] @ ds" and ?z = "zero_ctx (\<lambda>_. True)"
  let ?c = "?z\<lparr>ctx_devices := set_needed (ctx_devices ?z), ctx_port := set_needed (ctx_port ?z), ctx_server := set_needed (ctx_server ?z)\<rparr>"
  let ?c1 = "?c\<lparr>ctx_server := set_provided (set_val (Some h) (ctx_server ?c))\<rparr>"
  let ?c2 = "?c1\<lparr>ctx_port := set_provided (set_val n (ctx_port ?c1))\<rparr>"
  note ctx = zero_ctx_def set_needed_def no_info_def set_provided_def set_val_def
  have 1: "handle_arg ?argv 2 ?c = (Ok 3, ?c1)"
    by (simp add: handle_arg_lookup) (subst arg_host_ok, simp_all add: ctx)
  have 2: "handle_arg ?argv 4 ?c1 = (Ok 5, ?c2)"
    using p by (simp add: handle_arg_lookup) (subst arg_port_ok, simp_all add: ctx)
  obtain q arr0 where q: "u_array_init (\<lambda>_. True) 8 rcn_std_capacity (a_val (ctx_devices ?c2)) = (q, arr0)" by fastforce
  have q': "q = Ok ()" "unat (arr_capacity arr0) = 10" "arr_size arr0 = 8"
    using q by (auto simp: u_array_init_def rcn_std_capacity_def granted_def Let_def)
  then have arr0: "arr_inv arr0" "elems arr0 = []" using u_array_init_spec[OF q] by auto
  let ?c3 = "?c2\<lparr>ctx_devices := set_val arr0 (ctx_devices ?c2)\<rparr>"
  from collect_devices_ok[OF ds(1), of ?c3 7] ds(3) arr0 q' obtain arr where arr:
    "collect_devices ds 7 ?c3 = (Ok (7 + length ds), ?c3\<lparr>ctx_devices := set_val arr (ctx_devices ?c3)\<rparr>)"
    "arr_inv arr" "elems arr = ds" by (auto simp: ctx)
  let ?c4 = "?c3\<lparr>ctx_devices := set_provided (set_val arr (ctx_devices ?c3))\<rparr>"
  have "arg_devices ?argv 6 ?c2 = (Ok (7 + length ds), ?c4)"
    using q q'(1) arr(1) ds(2) by (simp add: arg_devices_def op_simps ctx)
  then have 3: "handle_arg ?argv 6 ?c2 = (Ok (7 + length ds), ?c4)" by (simp add: handle_arg_lookup)
  have "parse_from ?argv 2 ?c = parse_from ?argv (Suc 3) ?c1" by (rule parse_step[OF _ _ 1]) simp_all
  also have "\<dots> = parse_from ?argv (Suc 5) ?c2" using parse_step[OF _ _ 2] by simp
  also have "\<dots> = parse_from ?argv (Suc (7 + length ds)) ?c4" using parse_step[OF _ _ 3] by simp
  also have "\<dots> = (Ok (), ?c4)" by (rule parse_stop) simp
  finally have "parse_from ?argv 2 ?c = (Ok (), ?c4)" .
  moreover have "validate_arg_ctx ?c4 = (Ok (), ?c4)"
    by (simp add: validate_arg_ctx_def op_simps ctx)
  ultimately have "parse_args ?argv 2 ?c = (Ok (), ?c4)" by (simp add: parse_args_def check_ok)
  then show ?thesis using arr(2,3) ds(2)
    by (cases ds) (simp_all add: action_connect_def op_simps ctx)
qed

lemma subaction_line:
  assumes "ws \<noteq> []" "\<forall>w \<in> set ws. w \<in> fst ` set subactions"
    and "argv = pre @ ws" "0 < length pre"
    and c: "needed (ctx_daemon c)" "\<not> provided (ctx_daemon c)" "list_all (\<lambda>a. a_needed a \<longrightarrow> a_provided a) (infos (c\<lparr>ctx_daemon := set_provided (ctx_daemon c)\<rparr>))"
  shows "\<exists>c'. parse_args argv (length pre) c = (Ok (), c') \<and> a_val (ctx_daemon c') = the (map_of subactions (last ws))"
proof -
  let ?i = "length pre"
  let ?d = "c\<lparr>ctx_daemon := set_provided (set_val (the (map_of subactions (last ws))) (ctx_daemon c))\<rparr>"
  have "argv ! ?i = hd ws" using assms(1,3) by (simp add: nth_append hd_conv_nth)
  then have "arg_lookup (argv ! ?i) = Some arg_daemon" using assms(1,2) by (simp add: arg_lookup_subaction)
  moreover have "arg_daemon argv ?i c = (Ok (?i + length ws), ?d)"
    using collect_subactions_ok[OF assms(1,2), of ?i c] assms(3) c(1,2) by (simp add: arg_daemon_def op_simps)
  ultimately have "handle_arg argv ?i c = (Ok (?i + length ws), ?d)" using assms(4) by (simp add: handle_arg_lookup)
  then have "parse_from argv ?i c = (Ok (), ?d)"
    using assms(1,3,4) by (simp add: parse_step parse_stop)
  moreover have "validate_arg_ctx ?d = (Ok (), ?d)"
    using c(3) by (simp add: validate_arg_ctx_def op_simps infos_def set_provided_def set_val_def)
  ultimately show ?thesis by (simp add: parse_args_def check_ok set_provided_def set_val_def)
qed

subsection \<open>Refused command lines\<close>

lemma parse_fails: "0 < i \<Longrightarrow> i < length argv \<Longrightarrow> handle_arg argv i c = (Fail, c') \<Longrightarrow> fst (parse_args argv i c) = Fail"
  by (simp add: parse_args_def check_def parse_stop)

lemma want_then_parse_fails:
  "fst (parse_args argv i (f c)) = Fail \<Longrightarrow> fst (check (modify f) (\<lambda>_. check (parse_args argv i) k) c) = Fail"
  by (cases "parse_args argv i (f c)") (simp add: check_def modify_def)

text \<open>What the parser leaves behind in \<open>action_start\<close> and \<open>action_connect\<close>.\<close>

lemma zero_args_ok: "args_ok (zero_ctx av)"
  by (simp add: args_ok_def zero_ctx_def no_info_def)

lemma needed_provided:
  assumes "parse_args argv i c = (Ok (), c')" "args_ok c"
  shows "needed (ctx_port c) \<Longrightarrow> a_val (ctx_port c') \<noteq> 0" "needed (ctx_server c) \<Longrightarrow> a_val (ctx_server c') \<noteq> None"
    "needed (ctx_devices c) \<Longrightarrow> arr_inv (a_val (ctx_devices c'))"
  using parse_args_complete[OF assms] by (auto simp: wanted_def infos_def args_ok_def)

lemma daemon_start_ok:
  assumes "action_start argv (zero_ctx av) = (Ok (Some (Daemon_start d r)), c) \<or> action_connect argv (zero_ctx av) = (Ok (Some (Daemon_start d r)), c)"
  shows "da_port d \<noteq> 0 \<and> (da_type d = DAEMON_CLIENT \<longrightarrow> da_host d \<noteq> None \<and> arr_inv (da_devices d))"
  using assms
proof
  let ?c = "zero_ctx av\<lparr>ctx_port := set_needed (ctx_port (zero_ctx av))\<rparr>"
  assume r: "action_start argv (zero_ctx av) = (Ok (Some (Daemon_start d r)), c)"
  then obtain c' where c': "parse_args argv 2 ?c = (Ok (), c')"
    "d = \<lparr>da_port = a_val (ctx_port c'), da_host = None, da_devices = no_paths, da_type = DAEMON_SERVER\<rparr>"
    by (auto simp: action_start_def refuse_def complain_def check_Ok_iff modify_def gets_def ret_def split: if_splits)
  have "args_ok ?c" "needed (ctx_port ?c)" by (simp_all add: args_ok_def zero_ctx_def no_info_def set_needed_def)
  with needed_provided(1)[OF c'(1)] c'(2) show ?thesis by simp
next
  let ?z = "zero_ctx av"
  let ?c = "?z\<lparr>ctx_devices := set_needed (ctx_devices ?z), ctx_port := set_needed (ctx_port ?z), ctx_server := set_needed (ctx_server ?z)\<rparr>"
  assume r: "action_connect argv (zero_ctx av) = (Ok (Some (Daemon_start d r)), c)"
  then obtain c' where c': "parse_args argv 2 ?c = (Ok (), c')"
    "d = \<lparr>da_port = a_val (ctx_port c'), da_host = a_val (ctx_server c'), da_devices = a_val (ctx_devices c'), da_type = DAEMON_CLIENT\<rparr>"
    by (auto simp: action_connect_def refuse_def complain_def check_Ok_iff modify_def gets_def ret_def split: if_splits)
  have "args_ok ?c" "needed (ctx_port ?c)" "needed (ctx_server ?c)" "needed (ctx_devices ?c)"
    by (simp_all add: args_ok_def zero_ctx_def no_info_def set_needed_def)
  with needed_provided[OF c'(1)] c'(2) show ?thesis by simp
qed

lemma other_actions_start_nothing:
  "action_server argv c \<noteq> (Ok (Some (Daemon_start d r)), c')" "action_client argv c \<noteq> (Ok (Some (Daemon_start d r)), c')"
  "action_show argv c \<noteq> (Ok (Some (Daemon_start d r)), c')" "help_action argv c \<noteq> (Ok (Some (Daemon_start d r)), c')"
  "auto_subaction argv procs c \<noteq> (Ok (Some (Daemon_start d r)), c')"
proof -
  have run: "run_subaction ty w \<noteq> (Ok (Some (Daemon_start d r)), c')" for ty w
    by (auto simp: run_subaction_def subaction_daemon_def op_simps split: option.splits)
  show "action_server argv c \<noteq> (Ok (Some (Daemon_start d r)), c')" "action_client argv c \<noteq> (Ok (Some (Daemon_start d r)), c')"
    using run by (auto simp: action_server_def action_client_def refuse_def complain_def check_Ok_iff split: if_splits)
  show "auto_subaction argv procs c \<noteq> (Ok (Some (Daemon_start d r)), c')"
    using run by (auto simp: auto_subaction_def check_Ok_iff complain_def undef_def split: res.splits)
  show "action_show argv c \<noteq> (Ok (Some (Daemon_start d r)), c')" "help_action argv c \<noteq> (Ok (Some (Daemon_start d r)), c')"
    by (auto simp: action_show_def help_action_def check_Ok_iff gets_def ret_def)
qed

subsection \<open>How far a handler gets\<close>

text \<open>The index a handler leaves: the last argument it has used, or \<open>argc\<close>.\<close>

definition values_after :: "string list \<Rightarrow> nat \<Rightarrow> nat" where
  "values_after argv i = length (takeWhile (\<lambda>a. \<not> is_flag a) (drop (i + 1) argv))"

definition index_after :: "string list \<Rightarrow> nat \<Rightarrow> nat" where
  "index_after argv i =
     (let a = argv ! i; j = i + values_after argv i in
      if a \<in> {ARG_FLAG_PORT, ARG_FLAG_LONG_PORT, ARG_FLAG_HOST, ARG_FLAG_LONG_HOST, ARG_FLAG_DEBUG, ARG_FLAG_LONG_DEBUG} then i + 1
      else if a \<in> {ARG_FLAG_DEVICES, ARG_FLAG_LONG_DEVICES, ARG_FLAG_FILTER, ARG_FLAG_LONG_FILTER}
      then (if j + 1 < length argv then j else length argv)
      else if a \<in> {ARG_FLAG_HELP, ARG_FLAG_LONG_HELP} \<and> length argv = 2 then i
      else length argv)"

lemma collect_devices_index:
  "collect_devices args i c = (Ok j, c') \<Longrightarrow> 0 < i \<Longrightarrow>
    j = (let n = length (takeWhile (\<lambda>a. \<not> is_flag a) args) in if n < length args then i + n - 1 else i + n)"
proof (induction args arbitrary: i c)
  case (Cons arg args)
  show ?case
  proof (cases "is_flag arg")
    case False
    then obtain d where "collect_devices args (i + 1) d = (Ok j, c')"
      using Cons.prems by (auto simp: op_simps split: res.splits prod.splits)
    from Cons.IH[OF this] False show ?thesis by (simp add: Let_def)
  qed (use Cons.prems in \<open>auto simp: ret_def\<close>)
qed (auto simp: ret_def)

lemma collect_filters_index:
  "collect_filters m args i c = (Ok j, c') \<Longrightarrow> 0 < i \<Longrightarrow>
    j = (let n = length (takeWhile (\<lambda>a. \<not> is_flag a) args) in if n < length args then i + n - 1 else i + n)"
proof (induction args arbitrary: i c)
  case (Cons arg args)
  show ?case
  proof (cases "is_flag arg")
    case False
    then obtain d where "collect_filters m args (i + 1) d = (Ok j, c')"
      using Cons.prems by (auto simp: op_simps split: if_splits)
    from Cons.IH[OF this] False show ?thesis by (simp add: Let_def)
  qed (use Cons.prems in \<open>auto simp: ret_def\<close>)
qed (auto simp: ret_def)

lemma list_index: "i + 1 < length argv \<Longrightarrow>
    (let n = length (takeWhile (\<lambda>a. \<not> is_flag a) (drop (i + 1) argv)) in
      if n < length (drop (i + 1) argv) then i + 1 + n - 1 else i + 1 + n) =
    (if i + values_after argv i + 1 < length argv then i + values_after argv i else length argv)"
  using length_takeWhile_le[of "\<lambda>a. \<not> is_flag a" "drop (i + 1) argv"] by (auto simp: values_after_def Let_def)

lemma handler_index:
  "arg_port argv i c = (Ok j, c') \<Longrightarrow> j = i + 1" "arg_host argv i c = (Ok j, c') \<Longrightarrow> j = i + 1" "arg_debug argv i c = (Ok j, c') \<Longrightarrow> j = i + 1"
  "arg_devices argv i c = (Ok j, c') \<Longrightarrow> j = (if i + values_after argv i + 1 < length argv then i + values_after argv i else length argv)"
  "arg_filter argv i c = (Ok j, c') \<Longrightarrow> j = (if i + values_after argv i + 1 < length argv then i + values_after argv i else length argv)"
  "arg_daemon argv i c = (Ok j, c') \<Longrightarrow> i < length argv \<Longrightarrow> j = length argv"
  "arg_help argv i c = (Ok j, c') \<Longrightarrow> i < length argv \<Longrightarrow> j = (if length argv = 2 then i else length argv)"
proof -
  show "arg_port argv i c = (Ok j, c') \<Longrightarrow> j = i + 1" "arg_host argv i c = (Ok j, c') \<Longrightarrow> j = i + 1" "arg_debug argv i c = (Ok j, c') \<Longrightarrow> j = i + 1"
    by (auto simp: arg_port_def arg_host_def arg_debug_def op_simps split: if_splits option.splits)
next
  assume r: "arg_devices argv i c = (Ok j, c')"
  then have i: "i + 1 < length argv" by (auto simp: arg_devices_def op_simps split: if_splits)
  with r obtain d d' where "collect_devices (drop (i + 1) argv) (i + 1) d = (Ok j, d')"
    by (auto simp: arg_devices_def refuse_def complain_def check_Ok_iff ret_def gets_def split: if_splits)
  from collect_devices_index[OF this] list_index[OF i]
  show "j = (if i + values_after argv i + 1 < length argv then i + values_after argv i else length argv)" by simp
next
  assume r: "arg_filter argv i c = (Ok j, c')"
  then have i: "i + 1 < length argv" by (auto simp: arg_filter_def op_simps split: if_splits)
  with r obtain m d d' where "collect_filters m (drop (i + 1) argv) (i + 1) d = (Ok j, d')"
    by (auto simp: arg_filter_def refuse_def complain_def check_Ok_iff ret_def gets_def split: if_splits)
  from collect_filters_index[OF this] list_index[OF i]
  show "j = (if i + values_after argv i + 1 < length argv then i + values_after argv i else length argv)" by simp
next
  assume r: "arg_daemon argv i c = (Ok j, c')" "i < length argv"
  then obtain d d' where "collect_subactions (drop i argv) i d = (Ok j, d')"
    by (auto simp: arg_daemon_def refuse_def complain_def check_Ok_iff ret_def gets_def split: if_splits)
  with r(2) collect_subactions_contract[OF this] show "j = length argv" by simp
next
  assume r: "arg_help argv i c = (Ok j, c')" "i < length argv"
  then obtain d d' where "(if length argv = 2 then check (print_text (concat print_help)) (\<lambda>_. ret i) else collect_topics (drop (i + 1) argv) (i + 1)) d = (Ok j, d')"
    by (auto simp: arg_help_def refuse_def complain_def check_Ok_iff ret_def gets_def split: if_splits)
  with r(2) collect_topics_contract[of "drop (i + 1) argv" "i + 1" d "Ok j" d']
  show "j = (if length argv = 2 then i else length argv)"
    by (auto simp: check_Ok_iff ret_def split: if_splits)
qed

lemma lookup_index:
  assumes "arg_lookup (argv ! i) = Some h" "h argv i c = (Ok j, c')" "i < length argv"
  shows "j = index_after argv i"
proof -
  from assms(1) obtain f where f: "matches (argv ! i) f" "(f, h) \<in> set handlers"
    unfolding arg_lookup_def map_option_eq_Some by (metis find_Some_iff nth_mem prod.collapse)
  from f(2) consider
      "h \<in> {arg_port, arg_host, arg_debug}" "f \<in> {(''-p'', ''--port''), (''-s'', ''--server''), (''-g'', ''--debug'')}"
    | "h \<in> {arg_devices, arg_filter}" "f \<in> {(''-d'', ''--devices''), (''-f'', ''--filter'')}"
    | "h = arg_help" "f = (''-h'', ''--help'')"
    | "h = arg_daemon" "f \<in> {(''pause'', ''pause''), (''resume'', ''resume''), (''stop'', ''stop''), (''switch'', ''switch''), (''log'', ''log''), (''ls'', ''list'')}"
    by (simp add: handlers_def handler_flags_def) (elim disjE conjE; simp)
  then show ?thesis
  proof cases
    case 1
    then have "j = i + 1" using assms(2) handler_index(1-3)[of argv i c j c'] by blast
    moreover have "argv ! i \<in> {''-p'', ''--port'', ''-s'', ''--server'', ''-g'', ''--debug''}" using 1(2) f(1) by (auto simp: matches_def)
    ultimately show ?thesis by (simp add: index_after_def)
  next
    case 2
    then have "j = (if i + values_after argv i + 1 < length argv then i + values_after argv i else length argv)"
      using assms(2) handler_index(4,5)[of argv i c j c'] by blast
    moreover have "argv ! i \<in> {''-d'', ''--devices'', ''-f'', ''--filter''}" using 2(2) f(1) by (auto simp: matches_def)
    ultimately show ?thesis by (elim insertE emptyE; simp add: index_after_def)
  next
    case 3
    then have "j = (if length argv = 2 then i else length argv)" using assms(2,3) handler_index(7)[of argv i c j c'] by blast
    moreover have "argv ! i \<in> {''-h'', ''--help''}" using 3(2) f(1) by (auto simp: matches_def)
    ultimately show ?thesis by (elim insertE emptyE; simp add: index_after_def)
  next
    case 4
    then have "j = length argv" using assms(2,3) handler_index(6)[of argv i c j c'] by blast
    moreover have "argv ! i \<in> {''pause'', ''resume'', ''stop'', ''switch'', ''log'', ''ls'', ''list''}" using 4(2) f(1) by (auto simp: matches_def)
    ultimately show ?thesis by (elim insertE emptyE; simp add: index_after_def)
  qed
qed

subsection \<open>Which processes a scan finds\<close>

text \<open>The process names a scan reads: up to the first entry it stops at with an error; entries without a
  \<open>comm\<close> file are passed over.\<close>

definition readable_entry :: "proc_entry \<Rightarrow> bool" where
  "readable_entry e \<longleftrightarrow> (case e of Proc_gone \<Rightarrow> True | Proc_denied \<Rightarrow> False | Proc_unreadable \<Rightarrow> False | Proc_comm s \<Rightarrow> True)"

definition proc_names :: "proc_entry list \<Rightarrow> string list" where
  "proc_names ents = concat (map (\<lambda>e. case e of Proc_comm s \<Rightarrow> [butlast s] | _ \<Rightarrow> []) (takeWhile readable_entry ents))"

text \<open>What the kernel writes into \<open>comm\<close>: a name without a zero byte, and a newline.\<close>

definition comm_ok :: "proc_entry \<Rightarrow> bool" where
  "comm_ok e \<longleftrightarrow> (case e of Proc_comm s \<Rightarrow> s \<noteq> [] \<and> length s \<le> 128 \<and> (\<forall>c \<in> set s. (of_char c :: nat) \<noteq> 0) | _ \<Rightarrow> True)"

lemma scan_procs_eq:
  "\<forall>e \<in> set ents. comm_ok e \<Longrightarrow> scan_procs nm ents = (if nm \<in> set (proc_names ents) then Ok () else Fail)"
proof (induction ents)
  case (Cons e ents)
  show ?case
  proof (cases e)
    case (Proc_comm s)
    then have "takeWhile (\<lambda>c. (of_char c :: nat) \<noteq> 0) (butlast s) = butlast s"
      using Cons.prems by (intro takeWhile_eq_all_conv[THEN iffD2]) (auto simp: comm_ok_def dest: in_set_butlastD)
    then show ?thesis using Proc_comm Cons by (auto simp: comm_ok_def proc_names_def readable_entry_def)
  qed (use Cons in \<open>simp_all add: proc_names_def readable_entry_def\<close>)
qed (simp add: proc_names_def)

subsection \<open>Properties\<close>

text \<open>C28: The loop of \<open>handle_arg\<close> over the table of handlers goes on after a match, but is the same as
  looking the argument up: at most one row matches, its handler alone runs, and an argument without a
  row is refused.\<close>

theorem handle_arg_is_lookup:
  assumes "0 < i"
  shows "handle_arg argv i c = (case arg_lookup (argv ! i) of
      None \<Rightarrow> (Fail, add_complaint (EARG_UNKNOWN (if i = 1 then ''action'' else ''flag'') (argv ! i)) c)
    | Some h \<Rightarrow> h argv i c)"
  using handle_arg_lookup[OF assms, of argv] by (simp add: complain_def split: option.split)

theorem handle_arg_is_lookup_witness:
  "handle_arg [''rcn'', ''show'', ''-x''] 2 (zero_ctx (\<lambda>_. True)) =
    (Fail, add_complaint (EARG_UNKNOWN ''flag'' ''-x'') (zero_ctx (\<lambda>_. True)))"
proof -
  have "\<not> is_flag ''-x''" by (simp add: is_flag_def handler_flags_def matches_def)
  with handle_arg_is_lookup[of 2 "[''rcn'', ''show'', ''-x'']" "zero_ctx (\<lambda>_. True)"] show ?thesis
    by (simp add: arg_lookup_none)
qed

text \<open>C29: Which arguments a handler consumes.  One that accepts leaves the index at \<open>index_after\<close>: on the
  value of a flag that takes one value, on the last value in front of the next flag for a list of
  devices or filters, at the end behind a subaction or help topics, where it was for a plain \<open>-h\<close>; so
  the index never goes back or beyond \<open>argc\<close>, no argument is handled twice, and the loop of
  \<open>parse_args\<close>, which adds one after each call, ends.  Accepting or refusing, no handler changes which
  arguments an action wants.\<close>

theorem arguments_consumed:
  assumes "handle_arg argv i c = (r, c')" "0 < i" "i < length argv"
  shows "wanted c' = wanted c \<and> (\<forall>j. r = Ok j \<longrightarrow> j = index_after argv i \<and> i \<le> j \<and> j \<le> length argv)"
proof -
  have "j = index_after argv i" if r: "r = Ok j" for j
  proof -
    obtain h where "arg_lookup (argv ! i) = Some h" "h argv i c = (Ok j, c')"
      using assms(1) r by (cases "arg_lookup (argv ! i)") (auto simp: handle_arg_lookup[OF assms(2)] complain_def)
    then show ?thesis using assms(3) by (rule lookup_index)
  qed
  then show ?thesis using handle_arg_keeps[OF assms(1,2)] handle_arg_advances[OF _ assms(3,2)] assms(1) by blast
qed

theorem arguments_consumed_witness:
  "(\<exists>c'. handle_arg [''rcn'', ''-g'', ''1'', ''log''] 1 (zero_ctx (\<lambda>_. True)) = (Ok 2, c')) \<and>
   (\<exists>c'. handle_arg [''rcn'', ''show'', ''-f'', ''key'', ''abs'', ''-g'', ''1''] 2 ((zero_ctx (\<lambda>_. True))\<lparr>ctx_filter := set_optional (ctx_filter (zero_ctx (\<lambda>_. True)))\<rparr>) = (Ok 4, c'))"
proof -
  let ?v = "[''rcn'', ''-g'', ''1'', ''log'']" and ?c = "zero_ctx (\<lambda>_. True)"
  have "atoi ''1'' = Some 1" by code_simp
  then obtain j c' where 1: "handle_arg ?v 1 ?c = (Ok j, c')"
    by (simp add: handle_arg_lookup arg_debug_def op_simps)
  let ?w = "[''rcn'', ''show'', ''-f'', ''key'', ''abs'', ''-g'', ''1'']" and ?d = "?c\<lparr>ctx_filter := set_optional (ctx_filter ?c)\<rparr>"
  have flags: "\<not> is_flag ''key''" "\<not> is_flag ''abs''" "is_flag ''-g''" by (simp_all add: is_flag_def handler_flags_def matches_def)
  have bits: "filter_bits ''key'' \<noteq> []" "filter_bits ''abs'' \<noteq> []" by code_simp+
  have "length device_evt_str_arr = 4" by code_simp
  then obtain k d' where 2: "handle_arg ?w 2 ?d = (Ok k, d')"
    using flags bits
    by (simp add: handle_arg_lookup) (simp add: arg_filter_def refuse_def set_optional_def zero_ctx_def no_info_def,
      simp add: op_simps set_val_def)
  have "index_after ?v 1 = 2" "index_after ?w 2 = 4" using flags by (simp_all add: index_after_def values_after_def)
  with arguments_consumed[OF 1] arguments_consumed[OF 2] 1 2 show ?thesis by auto
qed

text \<open>C10: \<open>rcn connect -s <host> -p <port> -d <paths>\<close> starts a client daemon with exactly this host,
  port and list of paths, in order, whatever the number of paths.\<close>

theorem connect_command:
  assumes "atoi p = Some n" "n \<noteq> 0" "\<forall>d \<in> set ds. \<not> is_flag d" "ds \<noteq> []" "length ds < 2 ^ 49"
  shows "\<exists>arr c. main ([prog, ''connect'', ''-s'', h, ''-p'', p, ''-d''] @ ds) procs (zero_ctx (\<lambda>_. True)) =
    (Ok (Some (Daemon_start \<lparr>da_port = n, da_host = Some h, da_devices = arr, da_type = DAEMON_CLIENT\<rparr>
      \<lparr>header_sent = RELAY_HEADER_IDLE, ra_d_type = DAEMON_CLIENT, check_status = True\<rparr>)), c) \<and> arr_inv arr \<and> elems arr = ds"
  using connect_line[OF assms, of prog h] by (auto simp: main_def on_err_def)

theorem connect_command_witness:
  "\<exists>arr c. main [''rcn'', ''connect'', ''-s'', ''host'', ''-p'', ''8000'', ''-d'', ''/dev/input/event3'', ''/dev/input/event5'']
      (\<lambda>_. None) (zero_ctx (\<lambda>_. True)) =
    (Ok (Some (Daemon_start \<lparr>da_port = 8000, da_host = Some ''host'', da_devices = arr, da_type = DAEMON_CLIENT\<rparr>
      \<lparr>header_sent = RELAY_HEADER_IDLE, ra_d_type = DAEMON_CLIENT, check_status = True\<rparr>)), c) \<and>
    elems arr = [''/dev/input/event3'', ''/dev/input/event5'']"
proof -
  have "atoi ''8000'' = Some 8000" by code_simp
  moreover have "\<not> is_flag ''/dev/input/event3''" "\<not> is_flag ''/dev/input/event5''"
    by (simp_all add: is_flag_def handler_flags_def matches_def)
  ultimately show ?thesis
    using connect_command[of "''8000''" 8000 "[''/dev/input/event3'', ''/dev/input/event5'']" "''rcn''" "''host''" "\<lambda>_. None"] by auto
qed

text \<open>C11: Whatever the command line, a daemon is only started with a port that is not zero and, for a
  client, with a host and an initialised list of devices; no other action starts one.\<close>

theorem daemon_started_complete:
  assumes "main argv procs (zero_ctx av) = (Ok (Some (Daemon_start d r)), c)"
  shows "da_port d \<noteq> 0 \<and> (da_type d = DAEMON_CLIENT \<longrightarrow> da_host d \<noteq> None \<and> arr_inv (da_devices d))"
proof (rule daemon_start_ok)
  show "action_start argv (zero_ctx av) = (Ok (Some (Daemon_start d r)), c) \<or> action_connect argv (zero_ctx av) = (Ok (Some (Daemon_start d r)), c)"
    using assms other_actions_start_nothing
    by (auto simp: main_def Let_def on_err_Ok_iff ignore_def complain_def split: if_splits prod.splits res.splits)
qed

theorem daemon_started_complete_witness:
  "\<exists>d r c. main [''rcn'', ''start'', ''--port'', ''8000''] (\<lambda>_. None) (zero_ctx (\<lambda>_. True)) = (Ok (Some (Daemon_start d r)), c) \<and>
    da_port d \<noteq> 0"
proof -
  have "atoi ''8000'' = Some 8000" by code_simp
  from start_line[OF _ this, of "''--port''" "''rcn''" "\<lambda>_. True"] obtain d r c where
    "main [''rcn'', ''start'', ''--port'', ''8000''] (\<lambda>_. None) (zero_ctx (\<lambda>_. True)) = (Ok (Some (Daemon_start d r)), c)"
    by (fastforce simp: main_def on_err_Ok_iff)
  with daemon_started_complete[OF this] show ?thesis by blast
qed

text \<open>\<open>rcn server\<close> and \<open>rcn client\<close> accept any number of subactions and silently carry out only the
  last one, for the daemon that was named: its log is printed, or a relay sends it the request.\<close>

theorem last_subaction_wins:
  assumes "ws \<noteq> []" "\<forall>w \<in> set ws. w \<in> fst ` set subactions" "(target, ty) \<in> {(''server'', DAEMON_SERVER), (''client'', DAEMON_CLIENT)}"
  shows "fst (main ([prog, target] @ ws) procs (zero_ctx av)) =
    Ok (Some (case subaction_to_rcn_msg (the (map_of subactions (last ws))) of
        None \<Rightarrow> Print_log ty
      | Some h \<Rightarrow> Relay_start \<lparr>header_sent = h, ra_d_type = ty, check_status = False\<rparr>))"
proof -
  let ?c = "zero_ctx av\<lparr>ctx_daemon := set_needed (ctx_daemon (zero_ctx av))\<rparr>"
  let ?s = "the (map_of subactions (last ws))"
  have "\<exists>c'. parse_args ([prog, target] @ ws) (length [prog, target]) ?c = (Ok (), c') \<and> a_val (ctx_daemon c') = ?s"
    by (rule subaction_line[OF assms(1,2) refl])
      (simp_all add: zero_ctx_def no_info_def set_needed_def set_provided_def infos_def)
  then obtain c' where c': "parse_args ([prog, target] @ ws) 2 ?c = (Ok (), c')" "a_val (ctx_daemon c') = ?s"
    by (auto simp: numeral_2_eq_2)
  have "last ws \<in> fst ` set subactions" using assms(1,2) last_in_set by blast
  then have "?s = SUBACTION_LOG \<longleftrightarrow> subaction_to_rcn_msg ?s = None"
    by (auto simp: subactions_def subaction_to_rcn_msg_def)
  then have "fst (run_subaction ty c') = Ok (Some (case subaction_to_rcn_msg ?s of None \<Rightarrow> Print_log ty
      | Some h \<Rightarrow> Relay_start \<lparr>header_sent = h, ra_d_type = ty, check_status = False\<rparr>))" for ty
    using c'(2) by (auto simp: run_subaction_def subaction_daemon_def op_simps split: option.split)
  moreover have "fst (main ([prog, target] @ ws) procs (zero_ctx av)) = fst (run_subaction ty c')"
  proof -
    have "\<not> length ([prog, target] @ ws) < 3" using assms(1) by (cases ws) simp_all
    then have "refuse (length ([prog, target] @ ws) < 3) (EARG_COUNT ARG_ACTION_SERVER 3 (length ([prog, target] @ ws)))
        (check want_daemon (\<lambda>_. check (parse_args ([prog, target] @ ws) 2) (\<lambda>_. run_subaction ty))) (zero_ctx av) = run_subaction ty c'"
      by (simp only: refuse_def if_False want_daemon_def check_def[of "modify _"] modify_def prod.case res.case check_ok[where m="parse_args ([prog, target] @ ws) 2", OF c'(1)])
    moreover have "fst (main ([prog, target] @ ws) procs c) =
        fst ((if ty = DAEMON_SERVER then action_server ([prog, target] @ ws) else action_client ([prog, target] @ ws)) c)" for c
      using assms(3) unfolding main_def fst_on_err by (elim insertE emptyE) simp_all
    ultimately show ?thesis using assms(3) unfolding action_server_def action_client_def
      by (elim insertE emptyE) simp_all
  qed
  ultimately show ?thesis by simp
qed

theorem last_subaction_wins_witness:
  "fst (main [''rcn'', ''server'', ''pause'', ''resume''] (\<lambda>_. None) (zero_ctx (\<lambda>_. True))) =
    Ok (Some (Relay_start \<lparr>header_sent = RELAY_HEADER_RESUME, ra_d_type = DAEMON_SERVER, check_status = False\<rparr>))"
  using last_subaction_wins[of "[''pause'', ''resume'']" "''server''" DAEMON_SERVER "''rcn''" "\<lambda>_. None" "\<lambda>_. True"]
  by (simp add: subactions_def subaction_to_rcn_msg_def)

text \<open>Contrary to its help text, \<open>rcn --help\<close> is refused: only \<open>-h\<close> is an action, and the automatic
  subaction that the long form falls through to does not want the help flag.  \<open>rcn -h\<close> prints the
  overview.\<close>

theorem long_help_refused:
  "fst (main [prog, ''--help''] procs (zero_ctx av)) = Fail \<and>
   (\<exists>c. main [prog, ''-h''] procs (zero_ctx av) = (Ok None, c) \<and> stdout c = concat print_help)"
proof
  let ?c = "zero_ctx av\<lparr>ctx_daemon := set_needed (ctx_daemon (zero_ctx av))\<rparr>"
  have "handle_arg [prog, ''--help''] 1 ?c = (Fail, add_complaint (EARG_WRONG_FLAG ARG_FLAG_HELP) ?c)"
    by (simp add: handle_arg_lookup arg_help_def op_simps zero_ctx_def no_info_def set_needed_def)
  then have "fst (parse_args [prog, ''--help''] 1 ?c) = Fail" by (intro parse_fails) simp_all
  then show "fst (main [prog, ''--help''] procs (zero_ctx av)) = Fail"
    by (simp add: main_def fst_on_err auto_subaction_def want_daemon_def want_then_parse_fails)
next
  note ctx = zero_ctx_def no_info_def set_needed_def set_provided_def set_val_def
  let ?c = "zero_ctx av\<lparr>ctx_help := set_needed (ctx_help (zero_ctx av))\<rparr>"
  let ?d = "?c\<lparr>stdout := concat print_help, ctx_help := set_provided (ctx_help ?c)\<rparr>"
  have "handle_arg [prog, ''-h''] 1 ?c = (Ok 1, ?d)"
    by (simp add: handle_arg_lookup arg_help_def op_simps ctx print_text_def)
  then have "parse_from [prog, ''-h''] 1 ?c = (Ok (), ?d)" by (simp add: parse_step parse_stop)
  moreover have "validate_arg_ctx ?d = (Ok (), ?d)" by (simp add: validate_arg_ctx_def op_simps ctx)
  ultimately show "\<exists>c. main [prog, ''-h''] procs (zero_ctx av) = (Ok None, c) \<and> stdout c = concat print_help"
    by (simp add: main_def on_err_Ok_iff help_action_def check_def[of "modify _"] modify_def parse_args_def check_ok ret_def)
qed

text \<open>Contrary to its help text, the debug flag cannot be the first argument of an action: with it
  in front, the line is parsed as a subaction and the action's name is refused as an unknown flag.\<close>

theorem debug_first_refused:
  assumes "action \<in> {''start'', ''connect'', ''server'', ''client'', ''show''}"
  shows "\<forall>r c. main ([prog, ''-g'', level, action] @ args) procs (zero_ctx av) \<noteq> (Ok r, c)"
proof (intro allI notI)
  fix r c
  let ?argv = "[prog, ''-g'', level, action] @ args"
  let ?c = "zero_ctx av\<lparr>ctx_daemon := set_needed (ctx_daemon (zero_ctx av))\<rparr>"
  assume "main ?argv procs (zero_ctx av) = (Ok r, c)"
  then obtain d where d: "parse_from ?argv 1 ?c = (Ok (), d)"
    by (auto simp: main_def on_err_Ok_iff auto_subaction_def want_daemon_def parse_args_def check_Ok_iff modify_def)
  have flag: "\<not> is_flag action" using assms by (auto simp: is_flag_def handler_flags_def matches_def)
  have "handle_arg ?argv 1 = arg_debug ?argv 1" by (simp add: handle_arg_lookup)
  then have first: "handle_arg ?argv 1 ?c = (case atoi level of None \<Rightarrow> (Undef, ?c) | Some n \<Rightarrow> (Ok 2, ?c\<lparr>g_debug_level := n\<rparr>))"
    by (auto simp: arg_debug_def op_simps split: option.split)
  show False
  proof (cases "atoi level")
    case None
    then show False using d first by (subst (asm) parse_from.simps) simp
  next
    case (Some n)
    let ?d = "?c\<lparr>g_debug_level := n\<rparr>"
    have "parse_from ?argv 1 ?c = parse_from ?argv (Suc 2) ?d"
      using first Some by (intro parse_step) simp_all
    moreover have "\<exists>d'. handle_arg ?argv 3 ?d = (Fail, d')" using flag by (simp add: handle_unknown complain_def)
    then obtain d' where "handle_arg ?argv 3 ?d = (Fail, d')" by blast
    then have "parse_from ?argv 3 ?d = (Fail, d')" by (intro parse_stop(1)) simp_all
    ultimately show False using d by (simp add: numeral_3_eq_3)
  qed
qed

theorem debug_first_refused_witness:
  "\<forall>r c. main [''rcn'', ''-g'', ''1'', ''start'', ''-p'', ''8000''] (\<lambda>_. None) (zero_ctx (\<lambda>_. True)) \<noteq> (Ok r, c)"
  using debug_first_refused[of "''start''" "''rcn''" "''1''" "[''-p'', ''8000'']" "\<lambda>_. None" "\<lambda>_. True"] by simp

text \<open>C33: Which daemon an automatic subaction goes to: the client when a scan of \<open>/proc\<close> finds a process
  of that name, otherwise the server when a second scan finds one of that name; when neither is found it
  is refused.  Entries without a \<open>comm\<close> file (\<open>.\<close>, \<open>..\<close>, plain files, processes that have ended) are passed
  over; an entry that cannot be opened or read for another reason ends its scan, so a daemon listed behind
  it is not found.  The two scans may see different processes.\<close>

theorem auto_subaction_target:
  assumes "ws \<noteq> []" "\<forall>w \<in> set ws. w \<in> fst ` set subactions"
    and "procs DAEMON_CLIENT = Some ents" "procs DAEMON_SERVER = Some ents'" "\<forall>e \<in> set ents \<union> set ents'. comm_ok e"
  shows "\<exists>c'. auto_subaction (prog # ws) procs (zero_ctx av) =
    (if ''rcn_client'' \<in> set (proc_names ents) then run_subaction DAEMON_CLIENT c'
     else if ''rcn_server'' \<in> set (proc_names ents') then run_subaction DAEMON_SERVER c' else complain (''err: no daemon running'' @ nl) c') \<and>
    a_val (ctx_daemon c') = the (map_of subactions (last ws))"
proof -
  let ?c = "zero_ctx av\<lparr>ctx_daemon := set_needed (ctx_daemon (zero_ctx av))\<rparr>"
  have "\<exists>c'. parse_args (prog # ws) (length [prog]) ?c = (Ok (), c') \<and> a_val (ctx_daemon c') = the (map_of subactions (last ws))"
    by (rule subaction_line[OF assms(1,2)])
      (simp_all add: zero_ctx_def no_info_def set_needed_def set_provided_def infos_def)
  then obtain c' where c': "parse_args (prog # ws) 1 ?c = (Ok (), c')" "a_val (ctx_daemon c') = the (map_of subactions (last ws))" by auto
  have scan: "scan_procs nm ents = (if nm \<in> set (proc_names ents) then Ok () else Fail)"
    "scan_procs nm ents' = (if nm \<in> set (proc_names ents') then Ok () else Fail)" for nm
    using assms(5) scan_procs_eq[of ents nm] scan_procs_eq[of ents' nm] by auto
  have "auto_subaction (prog # ws) procs (zero_ctx av) =
    (if ''rcn_client'' \<in> set (proc_names ents) then run_subaction DAEMON_CLIENT c'
     else if ''rcn_server'' \<in> set (proc_names ents') then run_subaction DAEMON_SERVER c' else complain (''err: no daemon running'' @ nl) c')"
    using c'(1) by (simp add: auto_subaction_def want_daemon_def check_def[of "modify _"] modify_def check_ok
        daemon_is_running_def proc_name_of_def assms(3,4) scan del: One_nat_def)
  then show ?thesis using c'(2) by blast
qed

theorem auto_subaction_target_witness:
  "let procs = (\<lambda>_. Some [Proc_gone, Proc_gone, Proc_comm ''systemd!'', Proc_gone, Proc_comm ''rcn_server!'', Proc_comm ''sh!'', Proc_gone]) in
   (\<exists>c'. auto_subaction [''rcn'', ''ls''] procs (zero_ctx (\<lambda>_. True)) = run_subaction DAEMON_SERVER c' \<and> a_val (ctx_daemon c') = SUBACTION_LS) \<and>
   (\<exists>c'. auto_subaction [''rcn'', ''ls''] (\<lambda>_. Some [Proc_comm ''sh!'', Proc_denied, Proc_comm ''rcn_client!'']) (zero_ctx (\<lambda>_. True)) =
     complain (''err: no daemon running'' @ nl) c')"
proof -
  let ?p = "[Proc_gone, Proc_gone, Proc_comm ''systemd!'', Proc_gone, Proc_comm ''rcn_server!'', Proc_comm ''sh!'', Proc_gone]"
  let ?q = "[Proc_comm ''sh!'', Proc_denied, Proc_comm ''rcn_client!'']"
  have "proc_names ?p = [''systemd'', ''rcn_server'', ''sh'']" "proc_names ?q = [''sh'']" "\<forall>e \<in> set ?p \<union> set ?q. comm_ok e"
    by (simp_all add: proc_names_def readable_entry_def comm_ok_def)
  moreover have "map_of subactions ''ls'' = Some SUBACTION_LS" "''ls'' \<in> fst ` set subactions" by (simp_all add: subactions_def)
  ultimately show ?thesis
    using auto_subaction_target[of "[''ls'']" "\<lambda>_. Some ?p" ?p ?p "''rcn''" "\<lambda>_. True"]
      auto_subaction_target[of "[''ls'']" "\<lambda>_. Some ?q" ?q ?q "''rcn''" "\<lambda>_. True"] by (simp add: Let_def) blast
qed

subsection \<open>Help\<close>

abbreviation known_topic :: "string \<Rightarrow> bool" where
  "known_topic t \<equiv> t \<in> fst ` set help_data"

definition help_on :: "string list \<Rightarrow> string" where
  "help_on ts = concat (map (\<lambda>t. topic_help t (the (map_of help_data t))) ts)"

lemma help_on_Nil [simp]: "help_on [] = []"
  by (simp add: help_on_def)

lemma collect_topics_eq:
  "collect_topics ts i c = (let known = takeWhile known_topic ts; c' = c\<lparr>stdout := stdout c @ help_on known\<rparr> in
     if known = ts then (Ok (i + length ts), c') else (Fail, add_complaint (EARG_UNKNOWN ''action'' (ts ! length known)) c'))"
proof (induction ts arbitrary: i c)
  case (Cons t ts)
  show ?case
  proof (cases "map_of help_data t")
    case None
    then have "\<not> known_topic t" by (simp add: map_of_eq_None_iff)
    then show ?thesis using None by (simp add: op_simps help_on_def)
  next
    case (Some h)
    then have "known_topic t" by (force dest: map_of_SomeD)
    then show ?thesis using Some Cons.IH by (simp add: op_simps print_text_def help_on_def Let_def)
  qed
qed (simp add: ret_def help_on_def)

definition see_help :: string where
  "see_help = ''see '' @ quoted ''rcn -h'' @ '' for help'' @ nl"

text \<open>C30: \<open>rcn -h\<close> prints the overview; with topics it prints their texts in the order given, up to the
  first word that is no topic, names that word and fails.\<close>

theorem help_command:
  "case main ([prog, ''-h''] @ ts) procs (zero_ctx av) of (r, c) \<Rightarrow>
     let known = takeWhile known_topic ts in
     r = (if known = ts then Ok None else Fail) \<and>
     stdout c = (if ts = [] then concat print_help else help_on known) \<and>
     complaints c = (if known = ts then [] else EARG_UNKNOWN ''action'' (ts ! length known) @ see_help)"
proof -
  note ctx = zero_ctx_def no_info_def set_needed_def set_provided_def set_val_def
  let ?argv = "[prog, ''-h''] @ ts" and ?known = "takeWhile known_topic ts"
  let ?c = "zero_ctx av\<lparr>ctx_help := set_needed (ctx_help (zero_ctx av))\<rparr>"
  let ?txt = "if ts = [] then concat print_help else help_on ?known"
  let ?d = "?c\<lparr>stdout := ?txt, ctx_help := set_provided (ctx_help ?c)\<rparr>"
  have main: "main ?argv procs (zero_ctx av) = on_err (check (parse_args ?argv 1) (\<lambda>_. ret None)) (modify (add_complaint see_help)) ?c"
    by (simp add: main_def help_action_def on_err_def check_def[of "modify _"] modify_def see_help_def)
  have step: "handle_arg ?argv 1 ?c = (if ?known = ts then (Ok (if ts = [] then 1 else 2 + length ts), ?d)
      else (Fail, add_complaint (EARG_UNKNOWN ''action'' (ts ! length ?known)) (?c\<lparr>stdout := ?txt\<rparr>)))"
  proof (cases "ts = []")
    case True
    then show ?thesis by (simp add: handle_arg_lookup arg_help_def op_simps ctx print_text_def)
  next
    case False
    have z: "stdout ?c = []" "needed (ctx_help ?c)" "\<not> provided (ctx_help ?c)" by (simp_all add: ctx)
    have "handle_arg ?argv 1 ?c = arg_help ?argv 1 ?c" by (simp add: handle_arg_lookup)
    also have "\<dots> = check (collect_topics ts 2) (\<lambda>j. check (modify (\<lambda>c. c\<lparr>ctx_help := set_provided (ctx_help c)\<rparr>)) (\<lambda>_. ret j)) ?c"
      using False z unfolding arg_help_def check_def[of "gets _"] gets_def by (simp add: refuse_def numeral_2_eq_2)
    finally show ?thesis using False z(1)
      by (cases "?known = ts") (simp_all only: check_def[of "collect_topics _ _"] collect_topics_eq Let_def, simp_all add: op_simps)
  qed
  show ?thesis
  proof (cases "?known = ts")
    case True
    then have "parse_from ?argv 1 ?c = parse_from ?argv (Suc (if ts = [] then 1 else 2 + length ts)) ?d" using step by (intro parse_step) simp_all
    then have "parse_from ?argv 1 ?c = (Ok (), ?d)" by (simp add: parse_stop)
    moreover have "validate_arg_ctx ?d = (Ok (), ?d)" by (simp add: validate_arg_ctx_def op_simps ctx)
    ultimately show ?thesis using True unfolding main
      by (simp add: on_err_def parse_args_def check_ok ret_def) (simp add: ctx)
  next
    case False
    then have "parse_from ?argv 1 ?c = (Fail, add_complaint (EARG_UNKNOWN ''action'' (ts ! length ?known)) (?c\<lparr>stdout := ?txt\<rparr>))"
      using step by (intro parse_stop) simp_all
    then show ?thesis using False unfolding main
      by (auto simp: on_err_def parse_args_def check_def modify_def add_complaint_def zero_ctx_def)
  qed
qed

subsection \<open>Error messages\<close>

lemma after_parse:
  assumes "args_ok c" "\<And>d q e. args_ok d \<Longrightarrow> k d = (q, e) \<Longrightarrow> explained q d e" "check (parse_args argv i) (\<lambda>_. k) c = (r, c')"
  shows "explained r c c'"
proof -
  obtain q d where q: "parse_args argv i c = (q, d)" by fastforce
  have e: "explained q c d" using parse_args_explains q by (simp add: explains_def)
  show ?thesis
  proof (cases q)
    case (Ok u)
    then have "args_ok d" "k d = (r, c')" using parse_args_complete[of argv i c d] assms(1,3) q by (simp_all add: check_def)
    from assms(2)[OF this] e Ok show ?thesis by (auto simp: explained_def split: res.splits)
  qed (use assms(3) q e in \<open>simp_all add: check_def explained_def\<close>)
qed

lemma run_subaction_explained: "args_ok d \<Longrightarrow> run_subaction ty d = (q, e) \<Longrightarrow> explained q d e"
  by (auto simp: run_subaction_def subaction_daemon_def subaction_to_rcn_msg_def args_ok_def explained_def op_simps
      split: if_splits subaction_type.splits)

lemma explains_actions:
  "explains (action_start argv)" "explains (action_connect argv)" "explains (action_show argv)" "explains (help_action argv)"
  unfolding action_start_def action_connect_def action_show_def help_action_def
  by (intro explains_intros complaint_texts parse_args_explains explains_on_err conjI; simp)+

lemma wanted_daemon_ok: "args_ok (zero_ctx av\<lparr>ctx_daemon := set_needed (ctx_daemon (zero_ctx av))\<rparr>)"
  by (simp add: args_ok_def zero_ctx_def no_info_def set_needed_def)

lemma subaction_actions_explained:
  "action_server argv (zero_ctx av) = (r, c) \<Longrightarrow> explained r (zero_ctx av) c"
  "action_client argv (zero_ctx av) = (r, c) \<Longrightarrow> explained r (zero_ctx av) c"
  "auto_subaction argv procs (zero_ctx av) = (r, c) \<Longrightarrow> explained r (zero_ctx av) c"
proof -
  let ?c = "zero_ctx av\<lparr>ctx_daemon := set_needed (ctx_daemon (zero_ctx av))\<rparr>"
  have start: "explained r ?c c \<Longrightarrow> explained r (zero_ctx av) c" for r :: "call option res" and c
    by (simp add: explained_def split: res.splits)
  have small: "explained q c (add_complaint msg c)" if "q = Fail" "complaint msg" for q :: "call option res" and c msg
    using that by (auto simp: explained_def add_complaint_def)
  note after = after_parse[OF wanted_daemon_ok run_subaction_explained]
  show "action_server argv (zero_ctx av) = (r, c) \<Longrightarrow> explained r (zero_ctx av) c"
    "action_client argv (zero_ctx av) = (r, c) \<Longrightarrow> explained r (zero_ctx av) c"
    by (auto simp: action_server_def action_client_def refuse_def complain_def want_daemon_def check_def[of "modify _"] modify_def
        intro: small start after split: if_splits)
  have "explained q d e" if "args_ok d" and "(case daemon_is_running DAEMON_CLIENT (procs DAEMON_CLIENT) of
         Undef \<Rightarrow> undef
       | Ok _ \<Rightarrow> run_subaction DAEMON_CLIENT
       | Fail \<Rightarrow> (case daemon_is_running DAEMON_SERVER (procs DAEMON_SERVER) of
             Undef \<Rightarrow> undef
           | Ok _ \<Rightarrow> run_subaction DAEMON_SERVER
           | Fail \<Rightarrow> complain (''err: no daemon running'' @ nl))) d = (q, e)" for q d e
    using that complaint_append(1)[of "''err: no daemon running''" nl]
    by (auto simp: undef_def explained_def[of Undef] complain_def complaint_def intro: small run_subaction_explained split: res.splits)
  from after_parse[OF wanted_daemon_ok this] show "auto_subaction argv procs (zero_ctx av) = (r, c) \<Longrightarrow> explained r (zero_ctx av) c"
    by (auto simp: auto_subaction_def want_daemon_def check_def[of "modify _"] modify_def intro: start)
qed

text \<open>C27: No refusal is silent and nothing else complains: with memory, a command line that is refused
  leaves a message on \<open>stderr\<close> (one that starts with \<open>err:\<close>, or contains it) followed by the hint to
  \<open>rcn -h\<close>, and a command line that is accepted leaves none.\<close>

theorem refusals_explained:
  "case main argv procs (zero_ctx (\<lambda>_. True)) of
      (Ok _, c) \<Rightarrow> complaints c = []
    | (Fail, c) \<Rightarrow> \<exists>m. complaint m \<and> complaints c = m @ see_help
    | (Undef, _) \<Rightarrow> True"
proof -
  let ?z = "zero_ctx (\<lambda>_. True)"
  define usage :: "(call option, arg_context) op" where "usage = ignore (help_action ['''', ARG_FLAG_HELP]) (complain (nl @ ''err: no action supplied'' @ nl))"
  let ?body = "if length argv < 2 then usage
      else let action = argv ! 1 in
        if action = ARG_ACTION_START then action_start argv
        else if action = ARG_ACTION_CONNECT then action_connect argv
        else if action = ARG_ACTION_SERVER then action_server argv
        else if action = ARG_ACTION_CLIENT then action_client argv
        else if action = ARG_ACTION_SHOW then action_show argv
        else if action = ARG_FLAG_HELP then help_action argv
        else auto_subaction argv procs"
  have none: "complaint (nl @ ''err: no action supplied'' @ nl)"
    by (rule complaint_append(2), rule complaint_append(1)) (simp add: complaint_def)
  have "explains usage" unfolding usage_def by (rule explains_ignore[OF explains_actions(4) none])
  then have "explained r ?z c" if "?body ?z = (r, c)" for r c
    using that explains_actions subaction_actions_explained
    by (auto simp: Let_def explains_def split: if_splits)
  then show ?thesis unfolding main_def see_help_def usage_def[symmetric]
    by (cases "?body ?z"; cases "fst (?body ?z)") (auto simp: on_err_def modify_def add_complaint_def explained_def zero_ctx_def)
qed

end
