(* ===== verification/Rcn_Show.thy ===== *)
theory Rcn_Show
  imports Rcn_Main
begin

section \<open>Showing devices\<close>

text \<open>
  What \<open>rcn show\<close> prints: the filter over the event types of a device and the lines for the event
  files of \<open>/dev/input\<close>.
\<close>

subsection \<open>The filter\<close>

definition event_types :: "(u32 \<times> nat) list" where
  "event_types = [(DEVICE_EVT_KEY, EV_KEY), (DEVICE_EVT_REL, EV_REL), (DEVICE_EVT_ABS, EV_ABS), (DEVICE_EVT_SWT, EV_SW)]"

text \<open>C32: The four steps of the filter agree with the set view: a device is listed exactly when it has
  every event type the filter asks for, and what is remembered of it is the set of all its types.\<close>

theorem filter_device_all:
  "filter_device bits filt =
    (if list_all (\<lambda>(ty, ev). and filt ty = 0 \<or> has_bit bits ev) event_types
     then Some (foldl (\<lambda>out (ty, ev). if has_bit bits ev then or out ty else out) 0 event_types) else None)"
  by (simp add: filter_device_def filter_dev_set_info_def event_types_def Let_def)

subsection \<open>The lines\<close>

text \<open>What can be read of an event file, and what is listed for it.\<close>

definition event_file :: "string \<Rightarrow> bool" where
  "event_file nm \<longleftrightarrow> take 5 nm = ''event''"

definition readable :: "kenv \<Rightarrow> string \<Rightarrow> bool" where
  "readable E nm \<longleftrightarrow> (case e_open E (RCN_DEV_EVENT_PATH @ ''/'' @ nm) of None \<Rightarrow> False
     | Some fd \<Rightarrow> e_read E fd (EVIOCGBIT 0 max_evt_bytes) \<noteq> None \<and> e_read E fd (EVIOCGNAME RCN_DEV_MAX_NAME_LEN) \<noteq> None)"

definition listed :: "kenv \<Rightarrow> u32 \<Rightarrow> string \<Rightarrow> basic_device_info list" where
  "listed E filt nm = (let fd = the (e_open E (RCN_DEV_EVENT_PATH @ ''/'' @ nm)) in
     case filter_device (fill (replicate max_evt_bytes 0) (the (e_read E fd (EVIOCGBIT 0 max_evt_bytes)))) filt of
       None \<Rightarrow> []
     | Some events \<Rightarrow> [\<lparr>bi_name = fill (replicate RCN_DEV_MAX_NAME_LEN 0) (the (e_read E fd (EVIOCGNAME RCN_DEV_MAX_NAME_LEN))),
          bi_eventX = nm, bi_events = events\<rparr>])"

lemma list_entry_ok:
  assumes "event_file nm \<Longrightarrow> readable E nm"
    and arr: "arr_inv arr" "arr_size arr = 516" "unat (arr_capacity arr) \<le> 10 + 2 * length (elems arr)" "length (elems arr) < 2 ^ 40"
  shows "\<exists>arr'. list_entry E (\<lambda>_. True) filt nm arr = (Ok (), arr') \<and> arr_inv arr' \<and> arr_size arr' = 516 \<and>
    unat (arr_capacity arr') \<le> 10 + 2 * length (elems arr') \<and>
    elems arr' = elems arr @ (if event_file nm then listed E filt nm else [])"
proof (cases "event_file nm")
  case False
  then show ?thesis using arr by (simp add: list_entry_def event_file_def ret_def)
next
  case True
  with assms(1) obtain fd bits n where e: "e_open E (RCN_DEV_EVENT_PATH @ ''/'' @ nm) = Some fd"
    "e_read E fd (EVIOCGBIT 0 max_evt_bytes) = Some bits" "e_read E fd (EVIOCGNAME RCN_DEV_MAX_NAME_LEN) = Some n"
    by (auto simp: readable_def split: option.splits)
  show ?thesis
  proof (cases "filter_device (fill (replicate max_evt_bytes 0) bits) filt")
    case None
    then show ?thesis using True arr e by (simp add: list_entry_def event_file_def listed_def ret_def)
  next
    case (Some events)
    have "2 * unat (arr_capacity arr) * unat (arr_size arr) < 2 ^ 63" using arr(2-4) by simp
    from u_array_add_grows[OF arr(1) refl this, of "\<lparr>bi_name = fill (replicate RCN_DEV_MAX_NAME_LEN 0) n, bi_eventX = nm, bi_events = events\<rparr>"]
    obtain arr' where a: "u_array_add (\<lambda>_. True) \<lparr>bi_name = fill (replicate RCN_DEV_MAX_NAME_LEN 0) n, bi_eventX = nm, bi_events = events\<rparr> arr = (Ok (), arr')"
      "arr_inv arr'" "arr_size arr' = arr_size arr" "unat (arr_capacity arr') \<le> max (unat (arr_capacity arr)) (2 * length (elems arr))"
      "elems arr' = elems arr @ [\<lparr>bi_name = fill (replicate RCN_DEV_MAX_NAME_LEN 0) n, bi_eventX = nm, bi_events = events\<rparr>]" by blast
    have "list_entry E (\<lambda>_. True) filt nm arr = (Ok (), arr')"
      using True e Some a(1) by (simp add: list_entry_def event_file_def)
    moreover have "listed E filt nm = [\<lparr>bi_name = fill (replicate RCN_DEV_MAX_NAME_LEN 0) n, bi_eventX = nm, bi_events = events\<rparr>]"
      using e Some by (simp add: listed_def Let_def)
    ultimately show ?thesis using a arr(2,3) True by simp
  qed
qed

lemma list_entries_ok:
  assumes "\<forall>nm \<in> set entries. event_file nm \<longrightarrow> readable E nm"
    and "arr_inv arr" "arr_size arr = 516" "unat (arr_capacity arr) \<le> 10 + 2 * length (elems arr)"
    and "length (elems arr) + length entries < 2 ^ 40"
  shows "\<exists>arr'. for_each (list_entry E (\<lambda>_. True) filt) entries arr = (Ok (), arr') \<and> arr_inv arr' \<and>
    elems arr' = elems arr @ concat (map (listed E filt) (filter event_file entries))"
  using assms
proof (induction entries arbitrary: arr)
  case Nil
  then show ?case by (simp add: ret_def)
next
  case (Cons nm entries)
  have len: "length (elems arr) < 2 ^ 40" using Cons.prems(5) by simp
  from list_entry_ok[OF _ Cons.prems(2-4) len, of nm E filt] Cons.prems(1)
  obtain arr1 where a: "list_entry E (\<lambda>_. True) filt nm arr = (Ok (), arr1)" "arr_inv arr1" "arr_size arr1 = 516"
    "unat (arr_capacity arr1) \<le> 10 + 2 * length (elems arr1)"
    "elems arr1 = elems arr @ (if event_file nm then listed E filt nm else [])" by auto
  have "length (listed E filt nm) \<le> 1" by (simp add: listed_def Let_def split: option.split)
  then have "length (elems arr1) + length entries < 2 ^ 40" using Cons.prems(5) a(5) by auto
  from Cons.IH[OF _ a(2-4) this] Cons.prems(1) obtain arr' where
    "for_each (list_entry E (\<lambda>_. True) filt) entries arr1 = (Ok (), arr')" "arr_inv arr'"
    "elems arr' = elems arr1 @ concat (map (listed E filt) (filter event_file entries))" by auto
  then show ?case using a by (intro exI[of _ arr']) (simp add: check_ok)
qed

lemma show_lines_ok:
  "arr_inv arr \<Longrightarrow> i + n = length (elems arr) \<Longrightarrow> show_lines n i arr = (Ok (map dev_print_basic_info (drop i (elems arr))), arr)"
proof (induction n arbitrary: i)
  case (Suc n)
  have "drop i (elems arr) = elems arr ! i # drop (Suc i) (elems arr)" using Suc.prems by (simp add: Cons_nth_drop_Suc)
  then show ?case using Suc by (simp add: check_def ret_def u_array_getv_spec index_fits)
qed (simp add: ret_def)

text \<open>C31: \<open>rcn show\<close> prints one line for every event file of the directory that passes the filter, in the
  order of the directory, and nothing for other files, as long as the event files can be read.\<close>

theorem show_prints_matching:
  assumes "\<forall>nm \<in> set entries. event_file nm \<longrightarrow> readable E nm" "length entries < 2 ^ 40"
  shows "fst (show_devices E (\<lambda>_. True) True entries True filt arr) =
    Ok (map dev_print_basic_info (concat (map (listed E filt) (filter event_file entries))))"
proof -
  obtain q arr0 where q: "u_array_init (\<lambda>_. True) 516 rcn_std_capacity arr = (q, arr0)" by fastforce
  have q': "q = Ok ()" "unat (arr_capacity arr0) = 10" "arr_size arr0 = 516"
    using q by (auto simp: u_array_init_def rcn_std_capacity_def granted_def Let_def)
  then have arr0: "arr_inv arr0" "elems arr0 = []" using u_array_init_spec[OF q] by auto
  from list_entries_ok[OF assms(1) arr0(1) q'(3), of filt] arr0(2) q'(2) assms(2)
  obtain arr' where a: "for_each (list_entry E (\<lambda>_. True) filt) entries arr0 = (Ok (), arr')" "arr_inv arr'"
    "elems arr' = concat (map (listed E filt) (filter event_file entries))" by auto
  have "unat (arr_length arr') = length (elems arr')" using length_elems[OF a(2)] by simp
  with show_lines_ok[OF a(2), of 0 "length (elems arr')"]
  have lines: "show_lines (unat (arr_length arr')) 0 arr' = (Ok (map dev_print_basic_info (elems arr')), arr')" by simp
  have "dev_get_all_devices E (\<lambda>_. True) True entries True filt arr0 = (Ok (), arr')"
    using a(1) by (simp add: dev_get_all_devices_def check_not_def)
  with q q'(1) lines a(3) show ?thesis
    by (simp add: show_devices_def check_def gets_def u_array_free_def ret_def)
qed

subsection \<open>A mouse and a keyboard\<close>

text \<open>\<open>event3\<close> is a keyboard, \<open>event4\<close> a mouse named \<open>m\<close>.\<close>

definition demo_kernel :: kenv where
  "demo_kernel = \<lparr>e_open = (\<lambda>p. if p = ''/dev/input/event3'' then Some 3 else if p = ''/dev/input/event4'' then Some 4 else None),
     e_accept = None, e_inet = None, e_setup = False,
     e_read = (\<lambda>fd q. if fd = 3 then Some [2] else if q = EVIOCGNAME RCN_DEV_MAX_NAME_LEN then Some [109, 0] else Some [6]),
     e_random = (\<lambda>_. None), e_ui = (\<lambda>_. False), e_grab = (\<lambda>_. False), e_keys = (\<lambda>_. [])\<rparr>"

definition demo_info :: basic_device_info where
  "demo_info = \<lparr>bi_name = 109 # replicate 255 0, bi_eventX = ''event4'', bi_events = 6\<rparr>"

definition undefined_array :: "basic_device_info u_array" where
  "undefined_array = \<lparr>arr_data = None, arr_size = 0, arr_capacity = 0, arr_length = 0\<rparr>"

theorem show_prints_matching_witness:
  "fst (show_devices (demo_kernel) (\<lambda>_. True) True [''.'', ''event3'', ''js0'', ''event4''] True DEVICE_EVT_REL undefined_array) =
    Ok [''[KEY,REL]'' @ [CHR 0x09] @ ''event4'' @ [CHR 0x09, CHR 0x09] @ ''m'']"
proof -
  let ?es = "[''.'', ''event3'', ''js0'', ''event4'']"
  have "\<forall>nm \<in> set ?es. event_file nm \<longrightarrow> readable demo_kernel nm"
    by (simp add: event_file_def readable_def demo_kernel_def RCN_DEV_EVENT_PATH_def)
  moreover have "listed demo_kernel DEVICE_EVT_REL ''event3'' = []" "listed demo_kernel DEVICE_EVT_REL ''event4'' = [demo_info]"
    by code_simp+
  moreover have "dev_print_basic_info demo_info = ''[KEY,REL]'' @ [CHR 0x09] @ ''event4'' @ [CHR 0x09, CHR 0x09] @ ''m''"
    by code_simp
  ultimately show ?thesis
    using show_prints_matching[of ?es demo_kernel DEVICE_EVT_REL undefined_array] by (simp add: event_file_def)
qed

end
