(* ===== verification/Rcn_Setup.thy ===== *)
theory Rcn_Setup
  imports Rcn_Main
begin

section \<open>Starting a daemon (rcn_daemon.c, rcn_relay.c)\<close>

text \<open>
  The calls a daemon makes before its contexts exist, the sockets it opens, and how the process that
  started it learns whether it came up.  The answers of the kernel and of the resolver are in \<open>netenv\<close>;
  the state is the table of the sockets that have been created.
\<close>

subsection \<open>Sockets\<close>

text \<open>A port, the path of a unix socket, or an address the resolver has returned.\<close>

datatype sock_name = Inet nat | Unix string | Remote string

datatype sock_opt = TCP_USER_TIMEOUT | TCP_NODELAY | SO_REUSEADDR

record sock =
  sk_unix :: bool
  sk_nonblock :: bool
  sk_name :: "sock_name option"
  sk_backlog :: "nat option"
  sk_peer :: "sock_name option"

type_synonym net = "int \<Rightarrow> sock option"

datatype conn_ans = Conn_ok | Conn_timeout | Conn_error

text \<open>\<open>n_connect\<close> answers the connection attempts in order; \<open>n_flags\<close> is what \<open>F_GETFL\<close> returns.\<close>

record netenv =
  n_socket :: "int option"
  n_opt :: "sock_opt \<Rightarrow> bool"
  n_bind :: "sock_name \<Rightarrow> bool"
  n_listen :: bool
  n_resolve :: "string option \<Rightarrow> string \<Rightarrow> string list option"
  n_connect :: "nat \<Rightarrow> sock_name \<Rightarrow> conn_ans"
  n_flags :: int
  n_setfl :: bool

definition new_socket :: "netenv \<Rightarrow> bool \<Rightarrow> bool \<Rightarrow> (int, net) op" where
  "new_socket E unix nonblock s = (case n_socket E of
      None \<Rightarrow> (Fail, s)
    | Some fd \<Rightarrow> (Ok fd, s(fd \<mapsto> \<lparr>sk_unix = unix, sk_nonblock = nonblock, sk_name = None, sk_backlog = None, sk_peer = None\<rparr>)))"

definition on_sock :: "int \<Rightarrow> (sock \<Rightarrow> sock) \<Rightarrow> (unit, net) op" where
  "on_sock fd f = modify (\<lambda>s. s(fd := map_option f (s fd)))"

definition sys_bind :: "netenv \<Rightarrow> int \<Rightarrow> sock_name \<Rightarrow> (unit, net) op" where
  "sys_bind E fd nm = check_not (\<not> n_bind E nm) (on_sock fd (\<lambda>k. k\<lparr>sk_name := Some nm\<rparr>))"

definition sys_listen :: "netenv \<Rightarrow> int \<Rightarrow> nat \<Rightarrow> (unit, net) op" where
  "sys_listen E fd n = check_not (\<not> n_listen E) (on_sock fd (\<lambda>k. k\<lparr>sk_backlog := Some n\<rparr>))"

text \<open>\<open>htons\<close> takes a \<open>uint16_t\<close>.\<close>

definition htons_port :: "int \<Rightarrow> nat" where
  "htons_port port = nat (port mod 2 ^ 16)"

definition d_init_inet_sock :: "netenv \<Rightarrow> int \<Rightarrow> (int, net) op" where
  "d_init_inet_sock E port =
     check (new_socket E False True) (\<lambda>isock_fd.
     check_not (\<not> n_opt E SO_REUSEADDR)
     (check (sys_bind E isock_fd (Inet (htons_port port))) (\<lambda>_.
      check (sys_listen E isock_fd 0) (\<lambda>_. ret isock_fd))))"

text \<open>\<open>snprintf\<close> with \<open>%d\<close> into six bytes keeps five characters.\<close>

definition port_str :: "int \<Rightarrow> string" where
  "port_str port = take 5 (print_int port)"

definition resolve_host :: "netenv \<Rightarrow> int \<Rightarrow> string option \<Rightarrow> (string list, net) op" where
  "resolve_host E port host = (case n_resolve E host (port_str port) of None \<Rightarrow> fail | Some as \<Rightarrow> ret as)"

text \<open>The loop over the addresses; the result is \<open>connected\<close>, \<open>i\<close> counts the attempts.\<close>

primrec try_connect :: "netenv \<Rightarrow> int \<Rightarrow> nat \<Rightarrow> string list \<Rightarrow> (bool, net) op" where
  "try_connect E fd i [] = ret False"
| "try_connect E fd i (a # as) = (case n_connect E i (Remote a) of
      Conn_ok \<Rightarrow> check (on_sock fd (\<lambda>k. k\<lparr>sk_peer := Some (Remote a)\<rparr>)) (\<lambda>_. ret True)
    | Conn_timeout \<Rightarrow> try_connect E fd (Suc i) as
    | Conn_error \<Rightarrow> fail)"

text \<open>The flags are compared with 1, not with -1.\<close>

definition init_peer_sock :: "netenv \<Rightarrow> int \<Rightarrow> string option \<Rightarrow> (int, net) op" where
  "init_peer_sock E port host =
     check (new_socket E False False) (\<lambda>isock_fd.
     check_not (\<not> n_opt E TCP_USER_TIMEOUT)
     (check_not (\<not> n_opt E TCP_NODELAY)
      (check (resolve_host E port host) (\<lambda>as.
       check (try_connect E isock_fd 0 as) (\<lambda>connected.
       check_not (connected = False)
       (check_not (n_flags E = 1)
        (check_not (\<not> n_setfl E)
         (check (on_sock isock_fd (\<lambda>k. k\<lparr>sk_nonblock := True\<rparr>)) (\<lambda>_. ret isock_fd)))))))))"

text \<open>The paths are copied with \<open>memcpy\<close> into the 108 bytes of \<open>sun_path\<close>; the name ends at the first zero.\<close>

definition sun_path :: "string \<Rightarrow> nat \<Rightarrow> (string, net) op" where
  "sun_path path n = (if n \<le> 108 \<and> n \<le> Suc (length path) then ret (take n path) else undef)"

definition DEFAULT_USOCK_COUNT :: nat where "DEFAULT_USOCK_COUNT = 3"

text \<open>The result of \<open>unlink\<close> is dropped.\<close>

definition r_init_usock :: "netenv \<Rightarrow> sock_info \<Rightarrow> (int, net) op" where
  "r_init_usock E info =
     check (new_socket E True True) (\<lambda>d_usock_fd.
     check (sun_path (sock_path info) (path_len info)) (\<lambda>p.
     check (sys_bind E d_usock_fd (Unix p)) (\<lambda>_.
     check (sys_listen E d_usock_fd DEFAULT_USOCK_COUNT) (\<lambda>_. ret d_usock_fd))))"

text \<open>The branch of \<open>d_init\<close> that selects \<open>usock_path\<close> and \<open>sock_len\<close>, which it then passes to \<open>r_init_usock\<close>.\<close>

definition daemon_usock :: "daemon_type \<Rightarrow> sock_info" where
  "daemon_usock ty =
     (if ty = DAEMON_SERVER
      then \<lparr>sock_path = RCN_SERVER_USOCKET_PATH, path_len = RCN_SERVER_USOCKET_LEN\<rparr>
      else \<lparr>sock_path = RCN_CLIENT_USOCKET_PATH, path_len = RCN_CLIENT_USOCKET_LEN\<rparr>)"

definition connect_usock :: "netenv \<Rightarrow> sock_info \<Rightarrow> (int, net) op" where
  "connect_usock E info =
     check (new_socket E True False) (\<lambda>usock_fd.
     check (sun_path (sock_path info) (path_len info)) (\<lambda>p.
     check_not (n_connect E 0 (Unix p) \<noteq> Conn_ok)
     (check (on_sock usock_fd (\<lambda>k. k\<lparr>sk_peer := Some (Unix p)\<rparr>)) (\<lambda>_. ret usock_fd))))"

subsection \<open>Directory, log and permissions\<close>

datatype mkdir_ans = Mk_ok | Mk_exist | Mk_error

definition d_init_dir :: "mkdir_ans \<Rightarrow> unit res" where
  "d_init_dir ans = (if ans = Mk_error then Fail else Ok ())"

definition log_path :: "daemon_type \<Rightarrow> string" where
  "log_path ty = (case ty of DAEMON_SERVER \<Rightarrow> ''/tmp/rcn/server.log'' | DAEMON_CLIENT \<Rightarrow> ''/tmp/rcn/client.log'')"

text \<open>\<open>reopened p mode\<close> answers \<open>freopen\<close>, \<open>unbuffered\<close> the calls of \<open>setvbuf\<close>.\<close>

definition d_init_log :: "(string \<Rightarrow> string \<Rightarrow> bool) \<Rightarrow> bool \<Rightarrow> bool \<Rightarrow> daemon_type \<Rightarrow> unit res" where
  "d_init_log reopened unbuffered_out unbuffered_err ty =
     (if \<not> reopened (log_path ty) ''w'' then Fail
      else if \<not> reopened (log_path ty) ''a'' then Fail
      else if \<not> unbuffered_out then Fail else if \<not> unbuffered_err then Fail else Ok ())"

definition check_permissions :: "(string \<Rightarrow> int option) \<Rightarrow> daemon_type \<Rightarrow> unit res" where
  "check_permissions opens ty =
     (case opens (if ty = DAEMON_SERVER then RCN_DEV_UINPUT_PATH else RCN_DEV_EVENT_PATH @ ''/event0'') of
        None \<Rightarrow> Fail | Some fd \<Rightarrow> Ok ())"

text \<open>
  \<open>d_print_log\<close>: \<open>file\<close> is the content of the log (\<open>None\<close>: it cannot be opened), \<open>broken\<close> says that
  reading ends with an error after that content.  The second component is what was written.
\<close>

function copy_chunks :: "string \<Rightarrow> string" where
  "copy_chunks s = (if s = [] then [] else take 256 s @ copy_chunks (drop 256 s))"
  by auto
termination by (relation "measure length") auto

declare copy_chunks.simps [simp del]

definition d_print_log :: "(string \<Rightarrow> (string \<times> bool) option) \<Rightarrow> daemon_type \<Rightarrow> unit res \<times> string" where
  "d_print_log files ty = (case files (log_path ty) of
      None \<Rightarrow> (Fail, '''')
    | Some (content, broken) \<Rightarrow> (if broken then Fail else Ok (), copy_chunks content))"

subsection \<open>The status of a new daemon\<close>

text \<open>
  An \<open>eventfd\<close> is a counter to which writes add.  \<open>d_init\<close> writes the success status after the set-up and
  jumps to its error label on every failure, before, at or after that write (\<open>written\<close>: the answer of the
  write).  At the label it writes \<open>errno\<close>; when this write fails, \<open>CHECK\<close> jumps to the same label again:
  \<open>errs\<close> holds the values of \<open>errno\<close> at the label and the answers of the writes, and no status is written
  when they are used up.  \<open>ended\<close> is the result of the loop and the clean-up.
\<close>

primrec report_failure :: "(u64 \<times> bool) list \<Rightarrow> u64 list" where
  "report_failure [] = []"
| "report_failure (a # as) = (if snd a then [fst a] else report_failure as)"

definition status_writes :: "unit res \<Rightarrow> bool \<Rightarrow> unit res \<Rightarrow> (u64 \<times> bool) list \<Rightarrow> u64 list" where
  "status_writes setup written ended errs =
     (if setup \<noteq> Ok () \<or> \<not> written then report_failure errs
      else DAEMON_STATUS_OK # (if ended = Fail then report_failure errs else []))"

text \<open>The parent reads once, after some of the writes; reading a zero counter leaves \<open>status\<close> at 0.\<close>

definition status_read :: "u64 list \<Rightarrow> u64" where
  "status_read writes = sum_list writes"

text \<open>\<open>daemon_start\<close> for the process in which \<open>fork\<close> has returned \<open>pid\<close> (\<open>-1\<close> counts as parent).\<close>

definition daemon_start :: "int \<Rightarrow> ('a, 's) op \<Rightarrow> ('b, 's) op \<Rightarrow> (unit, 's) op" where
  "daemon_start pid daemon relay =
     (if pid = 0 then check daemon (\<lambda>_. ret ()) else check relay (\<lambda>_. ret ()))"

subsection \<open>Decimal numbers\<close>

lemma digits_value_simps [simp]:
  "digits_value [] = 0" "digits_value (xs @ [c]) = 10 * digits_value xs + (of_char c - 48)"
  by (simp_all add: digits_value_def)

lemma digit_char [simp]:
  assumes "d < 10"
  shows "of_char (char_of (48 + d :: nat)) = (48 + int d)" "is_digit (char_of (48 + d :: nat))"
proof -
  have n: "(of_char (char_of (48 + d :: nat)) :: nat) = 48 + d" using assms by simp
  then show "of_char (char_of (48 + d :: nat)) = (48 + int d)"
    by (metis of_nat_of_char of_nat_add of_nat_numeral)
  show "is_digit (char_of (48 + d :: nat))" using n assms by (simp add: is_digit_def)
qed

lemma decimal_nonempty [simp]: "decimal n \<noteq> []"
  by (subst decimal.simps) simp

lemma decimal_digits: "list_all is_digit (decimal n)"
proof (induction n rule: decimal.induct)
  case (1 n)
  then show ?case by (subst decimal.simps) simp
qed

lemma digits_value_decimal: "digits_value (decimal n) = int n"
proof (induction n rule: decimal.induct)
  case (1 n)
  show ?case
  proof (cases "n < 10")
    case True
    then show ?thesis using digits_value_simps(2)[of "[]"] by (subst decimal.simps) simp
  next
    case False
    have "10 * int (n div 10) + int (n mod 10) = int n"
      by (metis mult_div_mod_eq of_nat_add of_nat_mult of_nat_numeral)
    then show ?thesis using 1 False by (subst decimal.simps) simp
  qed
qed

lemma decimal_length: "n < 10 ^ k \<Longrightarrow> 0 < k \<Longrightarrow> length (decimal n) \<le> k"
proof (induction k arbitrary: n)
  case (Suc k)
  show ?case
  proof (cases "n < 10")
    case False
    then have "k \<noteq> 0" "n div 10 < 10 ^ k" using Suc.prems(1) by (auto intro: ccontr)
    then show ?thesis using Suc.IH[of "n div 10"] False by (subst decimal.simps) simp
  qed (subst decimal.simps, simp)
qed simp

lemma digits_value_bound: "list_all is_digit ds \<Longrightarrow> 0 \<le> digits_value ds \<and> digits_value ds < 10 ^ length ds"
proof (induction ds rule: rev_induct)
  case (snoc c ds)
  then have "48 \<le> (of_char c :: nat)" "(of_char c :: nat) \<le> 57" by (simp_all add: is_digit_def)
  then have "48 \<le> (of_char c :: int)" "(of_char c :: int) \<le> 57"
    by (metis of_nat_of_char of_nat_le_iff of_nat_numeral)+
  then show ?case using snoc by simp
qed simp

lemma atoi_digits:
  assumes "list_all is_digit ds" "ds \<noteq> []" "digits_value ds < 2 ^ 31"
  shows "atoi ds = Some (digits_value ds)"
proof -
  obtain c cs where ds: "ds = c # cs" using assms(2) by (cases ds) auto
  have c: "\<not> is_space c" "c \<noteq> CHR ''-''" "c \<noteq> CHR ''+''"
    using assms(1) by (auto simp: ds is_digit_def is_space_def)
  have "takeWhile is_digit ds = ds" using assms(1) by (simp add: list_all_iff)
  then show ?thesis using digits_value_bound[OF assms(1)] c assms(3) by (simp add: atoi_def Let_def ds)
qed

lemma port_str_digits: "0 \<le> port \<Longrightarrow> list_all is_digit (port_str port) \<and> port_str port \<noteq> [] \<and> length (port_str port) \<le> 5"
  using decimal_digits[of "nat port"] by (auto simp: port_str_def print_int_def list_all_iff dest: in_set_takeD)

lemma port_str_value: "0 \<le> port \<Longrightarrow> port < 100000 \<Longrightarrow> digits_value (port_str port) = port"
  using decimal_length[of "nat port" 5] by (simp add: port_str_def print_int_def digits_value_decimal)

subsection \<open>Properties\<close>

text \<open>C22: A server's socket listens on its port, and the text a client gives the resolver for the same
  port denotes the same number, for every port that exists.\<close>

theorem ports_agree:
  assumes "d_init_inet_sock E port s = (Ok fd, s')"
  shows "s' fd = Some \<lparr>sk_unix = False, sk_nonblock = True, sk_name = Some (Inet (htons_port port)), sk_backlog = Some 0, sk_peer = None\<rparr> \<and>
    (0 < port \<and> port < 2 ^ 16 \<longrightarrow> atoi (port_str port) = Some (int (htons_port port)))"
proof
  show "s' fd = Some \<lparr>sk_unix = False, sk_nonblock = True, sk_name = Some (Inet (htons_port port)), sk_backlog = Some 0, sk_peer = None\<rparr>"
    using assms by (auto simp: d_init_inet_sock_def new_socket_def sys_bind_def sys_listen_def on_sock_def op_simps
        split: if_splits option.splits)
  show "0 < port \<and> port < 2 ^ 16 \<longrightarrow> atoi (port_str port) = Some (int (htons_port port))"
    using port_str_digits[of port] port_str_value[of port] atoi_digits[of "port_str port"]
    by (auto simp: htons_port_def)
qed

definition demo_net :: netenv where
  "demo_net = \<lparr>n_socket = Some 5, n_opt = (\<lambda>_. True), n_bind = (\<lambda>_. True), n_listen = True,
     n_resolve = (\<lambda>h p. if p = ''8000'' then Some [''10.0.0.1'', ''10.0.0.2'', ''10.0.0.3''] else None),
     n_connect = (\<lambda>i a. if i = 0 then Conn_timeout else Conn_ok), n_flags = 2, n_setfl = True\<rparr>"

theorem ports_agree_witness:
  "\<exists>s'. d_init_inet_sock demo_net 8000 Map.empty = (Ok 5, s') \<and> map_option sk_name (s' 5) = Some (Some (Inet 8000)) \<and>
    atoi (port_str 8000) = Some 8000"
proof -
  obtain s' where "d_init_inet_sock demo_net 8000 Map.empty = (Ok 5, s')"
    by (simp add: d_init_inet_sock_def new_socket_def sys_bind_def sys_listen_def on_sock_def op_simps demo_net_def)
  with ports_agree[OF this] show ?thesis by (simp add: htons_port_def)
qed

text \<open>Ports out of range are not refused: the server listens on the rest modulo 65536, and the client
  asks the resolver for the first five digits, which are another number.\<close>

theorem large_ports_change:
  assumes "100000 \<le> port"
  shows "d_init_inet_sock E port = d_init_inet_sock E (port mod 2 ^ 16) \<and>
    (\<exists>q. atoi (port_str port) = Some q \<and> 0 \<le> q \<and> q < port)"
proof
  show "d_init_inet_sock E port = d_init_inet_sock E (port mod 2 ^ 16)"
    by (simp add: d_init_inet_sock_def htons_port_def)
  have p: "list_all is_digit (port_str port)" "port_str port \<noteq> []" "length (port_str port) \<le> 5"
    using port_str_digits[of port] assms by auto
  have "(10 :: int) ^ length (port_str port) \<le> 10 ^ 5" by (rule power_increasing[OF p(3)]) simp
  with digits_value_bound[OF p(1)] have "0 \<le> digits_value (port_str port)" "digits_value (port_str port) < 100000" by auto
  with atoi_digits[OF p(1,2)] assms show "\<exists>q. atoi (port_str port) = Some q \<and> 0 \<le> q \<and> q < port" by auto
qed

theorem large_ports_change_witness:
  "d_init_inet_sock demo_net 131073 = d_init_inet_sock demo_net 1 \<and> (\<exists>q. atoi (port_str 131073) = Some q \<and> q < 131073)"
  using large_ports_change[of 131073 demo_net] by auto

text \<open>The first attempt that does not time out.\<close>

definition answered :: "netenv \<Rightarrow> string list \<Rightarrow> (nat \<times> string) list" where
  "answered E as = dropWhile (\<lambda>(i, a). n_connect E i (Remote a) = Conn_timeout) (enumerate 0 as)"

lemma try_connect_spec:
  "try_connect E fd i as s = (case dropWhile (\<lambda>(i, a). n_connect E i (Remote a) = Conn_timeout) (enumerate i as) of
      [] \<Rightarrow> (Ok False, s)
    | (j, a) # _ \<Rightarrow> if n_connect E j (Remote a) = Conn_ok
        then (Ok True, s(fd := map_option (\<lambda>k. k\<lparr>sk_peer := Some (Remote a)\<rparr>) (s fd))) else (Fail, s))"
proof (induction as arbitrary: i)
  case (Cons a as)
  then show ?case by (cases "n_connect E i (Remote a)") (simp_all add: on_sock_def op_simps)
qed (simp add: ret_def)

text \<open>C20: A client connects to the first address of the host that answers, in the resolver's order,
  provided every address before it timed out; a refused attempt ends the search at once.  The socket it
  returns is non-blocking and connected to that address.\<close>

theorem client_connects_first:
  assumes "n_socket E = Some fd" "n_opt E TCP_USER_TIMEOUT" "n_opt E TCP_NODELAY"
    and "n_resolve E host (port_str port) = Some as" "n_flags E \<noteq> 1" "n_setfl E"
  shows "case answered E as of
      [] \<Rightarrow> fst (init_peer_sock E port host s) = Fail
    | (i, a) # _ \<Rightarrow> if n_connect E i (Remote a) = Conn_ok
        then init_peer_sock E port host s = (Ok fd, s(fd \<mapsto> \<lparr>sk_unix = False, sk_nonblock = True, sk_name = None,
          sk_backlog = None, sk_peer = Some (Remote a)\<rparr>))
        else fst (init_peer_sock E port host s) = Fail"
proof -
  let ?s = "s(fd \<mapsto> \<lparr>sk_unix = False, sk_nonblock = False, sk_name = None, sk_backlog = None, sk_peer = None\<rparr>)"
  have "init_peer_sock E port host s = check (try_connect E fd 0 as) (\<lambda>connected. check_not (connected = False)
      (check (on_sock fd (\<lambda>k. k\<lparr>sk_nonblock := True\<rparr>)) (\<lambda>_. ret fd))) ?s"
    using assms by (simp add: init_peer_sock_def check_def[of "new_socket E _ _"] new_socket_def resolve_host_def check_not_def)
  moreover have "try_connect E fd 0 as ?s = (case answered E as of [] \<Rightarrow> (Ok False, ?s)
      | (j, a) # _ \<Rightarrow> if n_connect E j (Remote a) = Conn_ok
          then (Ok True, ?s(fd := map_option (\<lambda>k. k\<lparr>sk_peer := Some (Remote a)\<rparr>) (?s fd))) else (Fail, ?s))"
    unfolding answered_def by (rule try_connect_spec)
  ultimately show ?thesis
    by (cases "answered E as") (auto simp: on_sock_def op_simps)
qed

theorem client_connects_first_witness:
  "\<exists>s'. init_peer_sock demo_net 8000 (Some ''host'') Map.empty = (Ok 5, s') \<and>
    map_option sk_peer (s' 5) = Some (Some (Remote ''10.0.0.2''))"
proof -
  have p: "port_str 8000 = ''8000''"
    by (simp add: port_str_def print_int_def decimal.simps) code_simp
  show ?thesis
    using client_connects_first[of demo_net 5 "Some ''host''" 8000 "[''10.0.0.1'', ''10.0.0.2'', ''10.0.0.3'']" Map.empty]
    by (simp add: p demo_net_def answered_def)
qed

text \<open>C34: A relay meets the daemon it names.  The daemon binds its socket to the path its own branch
  selects (\<open>daemon_usock\<close>), the relay connects to the path \<open>init_sockinfo\<close> gives: the two are the same
  exactly when the relay's target is the daemon's own kind, so no relay reaches the other daemon.\<close>

theorem usock_paths_meet:
  assumes "r_init_usock E (daemon_usock ty) s = (Ok fd, s')" "connect_usock F (init_sockinfo ty') t = (Ok fd', t')"
  shows "map_option sk_name (s' fd) = map_option sk_peer (t' fd') \<longleftrightarrow> ty = ty'"
proof -
  have "map_option sk_name (s' fd) = Some (Some (Unix (sock_path (daemon_usock ty))))"
    using assms(1) by (cases ty) (auto simp: r_init_usock_def daemon_usock_def usocket_defs sun_path_def new_socket_def
        sys_bind_def sys_listen_def on_sock_def op_simps split: if_splits option.splits)
  moreover have "map_option sk_peer (t' fd') = Some (Some (Unix (sock_path (init_sockinfo ty'))))"
    using assms(2) by (cases ty') (auto simp: connect_usock_def init_sockinfo_def usocket_defs sun_path_def new_socket_def
        on_sock_def op_simps split: if_splits option.splits)
  ultimately show ?thesis by (cases ty; cases ty') (auto simp: daemon_usock_def init_sockinfo_def usocket_defs)
qed

definition demo_local :: netenv where
  "demo_local = demo_net\<lparr>n_connect := \<lambda>_ _. Conn_ok\<rparr>"

theorem usock_paths_meet_witness:
  "\<exists>s' t' u'. r_init_usock demo_local (daemon_usock DAEMON_SERVER) Map.empty = (Ok 5, s') \<and>
    connect_usock demo_local (init_sockinfo DAEMON_SERVER) Map.empty = (Ok 5, t') \<and>
    connect_usock demo_local (init_sockinfo DAEMON_CLIENT) Map.empty = (Ok 5, u') \<and>
    map_option sk_name (s' 5) = map_option sk_peer (t' 5) \<and> map_option sk_name (s' 5) \<noteq> map_option sk_peer (u' 5)"
proof -
  obtain s' where s: "r_init_usock demo_local (daemon_usock DAEMON_SERVER) Map.empty = (Ok 5, s')"
    by (simp add: r_init_usock_def daemon_usock_def usocket_defs sun_path_def new_socket_def
        sys_bind_def sys_listen_def on_sock_def op_simps demo_local_def demo_net_def)
  have c: "\<exists>t'. connect_usock demo_local (init_sockinfo ty) Map.empty = (Ok 5, t')" for ty
    by (cases ty) (simp_all add: connect_usock_def init_sockinfo_def usocket_defs sun_path_def new_socket_def
        on_sock_def op_simps demo_local_def demo_net_def)
  then obtain t' u' where t: "connect_usock demo_local (init_sockinfo DAEMON_SERVER) Map.empty = (Ok 5, t')"
    "connect_usock demo_local (init_sockinfo DAEMON_CLIENT) Map.empty = (Ok 5, u')" by blast
  show ?thesis using usock_paths_meet[OF s t(1)] usock_paths_meet[OF s t(2)] s t by auto
qed

text \<open>C21: What the process that started a daemon reports.  It reports success exactly when the event
  descriptor could be prepared and polled, the set-up succeeded, its status was written before the
  parent read, and the daemon had not reported a failure with a non-zero \<open>errno\<close> by then.  So a set-up
  that failed is never reported as a success; but a daemon that failed after it with \<open>errno\<close> 0 (to which
  \<open>CHECK\<close> and \<open>TRY\<close> reset it) adds 0 to the counter and still passes as started.\<close>

theorem start_reported:
  assumes "\<forall>e \<in> fst ` set errs. unat e < 2 ^ 31"
  shows "check_daemon_status flags_ok poll_ok (status_read (take k (status_writes setup written ended errs))) = Started \<longleftrightarrow>
    flags_ok \<and> poll_ok \<and> setup = Ok () \<and> written \<and> 0 < k \<and>
    \<not> (1 < k \<and> ended = Fail \<and> (\<exists>e. report_failure errs = [e] \<and> e \<noteq> 0))"
proof -
  have r: "report_failure errs = [] \<or> (\<exists>e. report_failure errs = [e] \<and> unat e < 2 ^ 31)"
    using assms by (induction errs) auto
  have e: "e \<noteq> DAEMON_STATUS_OK" if "unat e < 2 ^ 31" for e using that by (auto simp: DAEMON_STATUS_OK_def)
  have "DAEMON_STATUS_OK \<noteq> 0" by (simp add: DAEMON_STATUS_OK_def)
  then show ?thesis using r e
    by (auto simp: check_daemon_status_def status_read_def status_writes_def take_Cons' split: if_splits)
qed

theorem start_reported_witness:
  "check_daemon_status True True (status_read (take 1 (status_writes (Ok ()) True (Ok ()) []))) = Started \<and>
   check_daemon_status True True (status_read (take 1 (status_writes Fail True Fail [(13, True)]))) \<noteq> Started \<and>
   check_daemon_status True True (status_read (take 2 (status_writes (Ok ()) True Fail [(9, False), (32, True)]))) \<noteq> Started \<and>
   check_daemon_status True True (status_read (take 2 (status_writes (Ok ()) True Fail [(0, True)]))) = Started"
  using start_reported[of "[]" True True 1 "Ok ()" True "Ok ()"] start_reported[of "[(13, True)]" True True 1 Fail True Fail]
    start_reported[of "[(9, False), (32, True)]" True True 2 "Ok ()" True Fail] start_reported[of "[(0, True)]" True True 2 "Ok ()" True Fail]
  by simp

end
