(* ===== verification/Spec2Isabelle.thy ===== *)
theory Spec2Isabelle
  imports Rcn_Server Rcn_Client Rcn_Mirror Rcn_Session Rcn_Stop Rcn_Commands Rcn_Show Rcn_Setup
begin

text \<open>
  This library models rcn, a program that sends the input events of one Linux machine to another, and
  proves what its parts promise.

  \<^bold>\<open>The program.\<close>  \<open>rcn connect\<close> starts a daemon (the client) that opens and grabs event files of
  \<open>/dev/input\<close>; \<open>rcn start\<close> starts a daemon (the server) that recreates the announced devices with
  uinput and plays the events it receives on them.  The daemons exchange peer messages over one TCP
  connection.  Every other invocation of \<open>rcn\<close> is a relay: a short process that sends one request
  (pause, resume, switch, stop, list) over a unix socket to a daemon and prints the answer.  A daemon
  is one loop around \<open>epoll_wait\<close>: it first transfers bytes on every ready stream, then hands every
  complete message to the handler of its descriptor; handlers only queue entries on other streams.

  \<^bold>\<open>Conventions.\<close>  A C function that returns 0 or -1 is an operation (\<open>Rcn_Prelude\<close>): a function from a
  state to an outcome and a state, where the outcome is \<open>Ok\<close> with the out parameters, \<open>Fail\<close> (the -1) or
  \<open>Undef\<close> (the code's behaviour is undefined: a null or dangling pointer is used, a block is read
  beyond its end, freed memory is freed).  \<open>check\<close> is the macro \<open>CHECK\<close>, \<open>ignore\<close> a call whose result is
  dropped.  \<open>size_t\<close>, enumerations and message fields are words of their width (LP64, little-endian).
  What the kernel, the allocator, the file system and the other process do is an argument: \<open>io_ans\<close> for
  one \<open>read\<close> or \<open>write\<close> (any number of bytes, would-block, end of file, error), \<open>allocator\<close>, \<open>kenv\<close> for
  opened descriptors, \<open>ioctl\<close> answers and random ids, lists of events for the rounds of the loop.  The
  theorems hold for all of these unless they say otherwise.

  \<^bold>\<open>Theories and code.\<close>
  \<^item> \<open>Rcn_Array\<close>, \<open>Rcn_Queue\<close> (rcn_util.c): the growable array and the queue on it, with byte offsets that
    wrap; a block is a list of cells, \<open>None\<close> for uninitialised ones.
  \<^item> \<open>Rcn_Types\<close> (include/rcn_types.h): enumerations (the two kinds of headers as types of the class \<open>enum\<close>),
    message headers, stream items with their byte layout.
  \<^item> \<open>Rcn_Memory\<close>, \<open>Rcn_Stream\<close> (rcn_stream.c): the heap of streams and message buffers, and every
    operation of a stream: queueing, transferring a header and then a body piece by piece, collecting,
    closing.  \<open>Rcn_Stream_Lemmas\<close>, \<open>Rcn_Stream_Safe\<close> (what a live stream may rely on), \<open>Rcn_Transfer\<close>
    (repeated transfers; \<open>relay_wait\<close>), \<open>Rcn_Outbox\<close> (the queue of a stream as a list of messages) and
    \<open>Rcn_Wire\<close> (the properties) build on them.
  \<^item> \<open>Rcn_Epoll\<close> (rcn_epoll.c): the table of streams and the epoll instance.
  \<^item> \<open>Rcn_Context\<close>: the daemon's whole state and the structs of messages (include/rcn_device.h, rcn_peer.h,
    rcn_relay.h, rcn_daemon.h).
  \<^item> \<open>Rcn_Device\<close> (rcn_device.c), \<open>Rcn_Relay\<close> (rcn_relay.c), \<open>Rcn_Peer\<close> (rcn_peer.c), \<open>Rcn_Daemon\<close>
    (rcn_daemon.c): the handlers, in the order of the files, the daemon's loop, set-up and clean-up.
  \<^item> \<open>Rcn_Post\<close>, \<open>Rcn_Handlers\<close>, \<open>Rcn_Control\<close>, \<open>Rcn_Protocol\<close>, \<open>Rcn_Progress\<close>, \<open>Rcn_Server\<close>: what the
    handlers post.  \<open>Rcn_Client\<close>: how a client gives up and takes its devices.
  \<^item> \<open>Rcn_Udev\<close>: what a server makes of the announcement of a device; \<open>Rcn_Announce\<close>: what a client reads
    from its event files and announces; \<open>Rcn_Mirror\<close>: the two composed, message by message.
  \<^item> \<open>Rcn_Session\<close>: a relay's process and the daemon it asks, composed: what the user reads.
  \<^item> \<open>Rcn_Tables\<close>, \<open>Rcn_Rounds\<close>, \<open>Rcn_Running\<close>: the invariant of the tables that refer to streams, that every
    operation and every round keeps it, and the states of a running daemon as a step relation.  \<open>Rcn_Stop\<close>: what
    sets the flag that ends the loop.
  \<^item> \<open>Rcn_Help\<close> (include/rcn_arg.h, rcn_arg.c): the words of the command line, the help texts and the error
    messages, one definition per macro.
  \<^item> \<open>Rcn_Arg\<close> (rcn_arg.c), \<open>Rcn_Main\<close> (rcn.c), \<open>Rcn_Commands\<close>, \<open>Rcn_Show\<close>: the command line.
  \<^item> \<open>Rcn_Setup\<close> (rcn_daemon.c, rcn_relay.c): sockets, log, permissions, the status of a new daemon.

  \<^bold>\<open>Groups of lemmas.\<close>
  \<^item> Containers: the invariant \<open>arr_inv\<close>, every operation as a list operation (\<open>elems\<close>), the interface
    locales of arrays and queues and their interpretation on the code.
  \<^item> Streams: one-step equations of a transfer; no kernel behaviour makes it leave its blocks; a message
    crosses a connection byte for byte however it is cut; the messages of a stream stay in order.
  \<^item> Posting: \<open>posted w w' ps\<close> says that exactly the entries \<open>ps\<close> were queued between two states;
    \<open>sends ps m\<close> says that \<open>m\<close> never is undefined, posts \<open>ps\<close> when it returns 0 and a part of it when it
    fails.  \<open>reacts\<close> adds the daemon's state and exit flag; \<open>relay_spec\<close>, \<open>peer_pause_spec\<close> and
    \<open>peer_resume_spec\<close> are the abstract server, and the handlers refine it.
  \<^item> Sessions: \<open>quiet\<close> is kept by every step of a stream that reads (the locale \<open>reading_progress\<close> extends
    \<open>transfer_progress\<close>); \<open>documented\<close> is the answer the documents promise, as a function of request and
    state, \<open>resumes\<close> and \<open>long_list\<close> name the two cases in which the code gives another one.
  \<^item> Running: \<open>frames m\<close> says that \<open>m\<close> leaves the tables alone, \<open>maintains I m\<close> that it keeps \<open>I\<close> when it
    succeeds (a round that fails ends the daemon); \<open>tables_ok\<close> holds after the set-up and in every state
    \<open>running\<close> by rule induction.  \<open>maintains (asked b)\<close> is proved of every operation but the two handlers that
    stop a daemon, so that \<open>stop_served\<close> describes the only rounds that set the exit flag.
  \<^item> Devices: \<open>udev_reqs i\<close> is the list of requests an announcement \<open>i\<close> stands for and \<open>ask\<close> makes a list of
    requests, so that the loops of \<open>apply_udev_info\<close> are equations between lists; \<open>grown w w'\<close> says that streams
    and devices were only added; \<open>announced_upto\<close> is the invariant of the loop over the paths; \<open>serves\<close> lets a
    server handle a list of messages with any harmless activity between them (\<open>between\<close>).
  \<^item> Progress: handlers succeed, without memory, while the queues they post to have room (\<open>room\<close>); the set-up
    of a client succeeds with \<open>ample\<close> memory (64 bytes of fresh addresses per device), as many free entries
    in the table of streams (\<open>spare\<close>) as paths and twice as much room in the outbox of the peer: one
    announcement and one grab message per device.  The table of devices and the queue have ten entries.
  \<^item> Command line: the locale \<open>arg_contract\<close>, interpreted on all seven handlers, gives termination of
    \<open>parse_args\<close> and what holds of an accepted command line; \<open>explains m\<close> says that a failure of \<open>m\<close> leaves a
    message, a success none, and is closed under the combinators of operations.
  \<^item> Properties that end in \<open>Undef\<close>, or describe an outcome the comments do not, document where the code
    does less than it says.

  \<^bold>\<open>Bounds.\<close>  Arrays are assumed to stay below \<open>2 ^ 63\<close> bytes (part of \<open>arr_inv\<close>).  The growing loop of
  \<open>u_array_set\<close> is a partial function and proved to return; \<open>parse_from\<close> terminates by a measure; the list
  loop of a relay has a bound of one round per entry of the message, which it cannot exceed because its
  index moves on in every round; the daemon's loop runs over the list of \<open>epoll_wait\<close> answers it is given
  and says whether it has ended.

  \<^bold>\<open>Not modelled.\<close>  The lines of \<open>LOG\<close> and \<open>DEBUG_LOG\<close>, and those of \<open>ERR_LOG\<close> outside the command line: they
  name source lines and \<open>errno\<close>, and decide nothing (a log line that reads a string that is not terminated is
  undefined, though, and is modelled so).  \<open>errno\<close> except where a value of it decides, \<open>strerror\<close>, and the
  handler of \<open>SIGINT\<close>, which ends the relay between any two steps.  A fork is the choice of one of two operations.  The
  sockets of \<open>Rcn_Setup\<close> are a state of their own; \<open>d_init\<close> takes the descriptors they give as arguments.  The
  branch of \<open>d_init\<close> that picks the path of the unix socket is \<open>daemon_usock\<close>; what it writes to the event
  descriptor is \<open>status_writes\<close>: the success, which may fail to be written, and at \<open>err\<close> the \<open>errno\<close> of each
  attempt until one is written, an argument of the model.  Loops that wait for the kernel
  (\<open>drain_keys\<close>, \<open>discard_input\<close>) run over the complete list of its answers; a kernel that never lets them end
  has no such list.  Names without a terminator are printed up to the end of their field by \<open>list_lines\<close> and
  \<open>dev_print_basic_info\<close>.  The descriptors \<open>daemon_is_running\<close> leaves open are not counted: running out of
  them is one of the answers \<open>Proc_denied\<close>.
  Memory is not shared between processes.  Freed memory is not reused: a stream that has been freed stays
  undefined, so a round in which a server accepts a client is undefined (\<open>accepting_uses_freed_stream\<close>)
  and the properties of a server with a client are about any state of that shape, not about \<open>running\<close> ones.
\<close>

end
